(* ===== verification/Prelude.thy ===== *)
theory Prelude
  imports Complex_Main "HOL-Library.Word" "HOL-Library.Multiset"
begin

text \<open>
  Shared vocabulary of the development: the ECMAScript string and array operations the sources
  call, and the generic list facts the components share.

  A \<open>string\<close> of the model (a list of \<open>char\<close>) is a JavaScript string whose UTF-16 code units are
  all below 256; a \<open>char\<close> is one code unit, so \<open>length\<close>, \<open>slice\<close>, \<open>indexOf\<close> and \<open>charCodeAt\<close>
  count as they do in JavaScript. On those strings the case mapping and the white space class
  below are exact (upper case occurs only in comparisons against ASCII words). A result of
  \<open>indexOf\<close> is an \<open>option\<close>, with \<open>None\<close> for the number -1.

  Collections of facts: \<open>str_simps\<close> (string operations), \<open>list_facts\<close> (removal by index).
\<close>

named_theorems str_simps
named_theorems list_facts

section \<open>Code units and case\<close>

definition charCode :: "char \<Rightarrow> nat" where
  "charCode c = of_char c"

definition fromCharCode :: "nat \<Rightarrow> char" where
  "fromCharCode n = char_of n"

lemma charCode_less: "charCode c < 256"
  by (simp add: charCode_def)

lemma fromCharCode_charCode [simp]: "fromCharCode (charCode c) = c"
  by (simp add: charCode_def fromCharCode_def)

lemma charCode_fromCharCode [simp]: "n < 256 \<Longrightarrow> charCode (fromCharCode n) = n"
  by (simp add: charCode_def fromCharCode_def)

lemma charCode_inject [simp]: "charCode a = charCode b \<longleftrightarrow> a = b"
  by (metis fromCharCode_charCode)

definition lower_code :: "nat \<Rightarrow> nat" where
  "lower_code n = (if (65 \<le> n \<and> n \<le> 90) \<or> (192 \<le> n \<and> n \<le> 222 \<and> n \<noteq> 215) then n + 32 else n)"

definition upper_code :: "nat \<Rightarrow> nat" where
  "upper_code n = (if (97 \<le> n \<and> n \<le> 122) \<or> (224 \<le> n \<and> n \<le> 254 \<and> n \<noteq> 247) then n - 32 else n)"

definition toLowerCase :: "string \<Rightarrow> string" where
  "toLowerCase s = map (\<lambda>c. fromCharCode (lower_code (charCode c))) s"

definition toUpperCase :: "string \<Rightarrow> string" where
  "toUpperCase s = map (\<lambda>c. fromCharCode (upper_code (charCode c))) s"

lemma lower_code_less: "n < 256 \<Longrightarrow> lower_code n < 256"
  by (simp add: lower_code_def)

lemma lower_code_idem: "lower_code (lower_code n) = lower_code n"
  by (simp add: lower_code_def)

lemma toLowerCase_length [simp]: "length (toLowerCase s) = length s"
  by (simp add: toLowerCase_def)

lemma toLowerCase_Nil [simp]: "toLowerCase [] = []" "toLowerCase s = [] \<longleftrightarrow> s = []"
  by (simp_all add: toLowerCase_def)

lemma toLowerCase_append [str_simps]: "toLowerCase (a @ b) = toLowerCase a @ toLowerCase b"
  by (simp add: toLowerCase_def)

lemma toLowerCase_idem [simp]: "toLowerCase (toLowerCase s) = toLowerCase s"
  by (simp add: toLowerCase_def lower_code_idem lower_code_less charCode_less)

text \<open>Evaluation of the case mapping on literals.\<close>

lemmas char_eval = toLowerCase_def lower_code_def toUpperCase_def upper_code_def charCode_def
  fromCharCode_def char_of_eq_iff take_bit_eq_mod

section \<open>White space and trimming\<close>

text \<open>The ECMAScript white space and line terminators below U+0100.\<close>

definition is_ws :: "char \<Rightarrow> bool" where
  "is_ws c = (let n = charCode c in (9 \<le> n \<and> n \<le> 13) \<or> n = 32 \<or> n = 160)"

definition trimStart :: "string \<Rightarrow> string" where
  "trimStart s = dropWhile is_ws s"

definition trimEnd :: "string \<Rightarrow> string" where
  "trimEnd s = rev (dropWhile is_ws (rev s))"

definition trim :: "string \<Rightarrow> string" where
  "trim s = trimEnd (trimStart s)"

definition newline :: char where
  "newline = CHR 0x0A"

lemma is_ws_newline [simp]: "is_ws newline"
  by (simp add: is_ws_def newline_def charCode_def)

lemma trimStart_ws [str_simps]: "is_ws c \<Longrightarrow> trimStart (c # s) = trimStart s"
  by (simp add: trimStart_def)

lemma trimStart_ws_prefix: "\<forall>c\<in>set a. is_ws c \<Longrightarrow> trimStart (a @ s) = trimStart s"
  by (induction a) (auto simp: trimStart_def)

lemma trim_ws_prefix: "\<forall>c\<in>set a. is_ws c \<Longrightarrow> trim (a @ s) = trim s"
  by (simp add: trim_def trimStart_ws_prefix)

lemma trim_all_ws: "\<forall>c\<in>set s. is_ws c \<Longrightarrow> trim s = []"
  using trim_ws_prefix [of s "[]"] by (simp add: trim_def trimStart_def trimEnd_def)

lemma trim_id: "s \<noteq> [] \<Longrightarrow> \<not> is_ws (hd s) \<Longrightarrow> \<not> is_ws (last s) \<Longrightarrow> trim s = s"
proof -
  assume s: "s \<noteq> []" "\<not> is_ws (hd s)" "\<not> is_ws (last s)"
  then have "dropWhile is_ws s = s" "dropWhile is_ws (rev s) = rev s"
    by (simp_all add: dropWhile_eq_self_iff hd_rev)
  then show ?thesis by (simp add: trim_def trimStart_def trimEnd_def)
qed

lemma trimStart_hd: "trimStart s = s \<Longrightarrow> s \<noteq> [] \<Longrightarrow> \<not> is_ws (hd s)"
  by (metis dropWhile_eq_self_iff trimStart_def)

lemma trimEnd_last: "trimEnd s = s \<Longrightarrow> s \<noteq> [] \<Longrightarrow> \<not> is_ws (last s)"
  by (metis dropWhile_eq_self_iff hd_rev rev_is_Nil_conv rev_rev_ident trimEnd_def)

lemma trim_Nil [simp]: "trim [] = []"
  by (simp add: trim_def trimStart_def trimEnd_def)

lemma trimStart_idem [simp]: "trimStart (trimStart s) = trimStart s"
  by (simp add: trimStart_def)

section \<open>Substrings\<close>

definition startsWith :: "string \<Rightarrow> string \<Rightarrow> bool" where
  "startsWith s p = (take (length p) s = p)"

definition endsWith :: "string \<Rightarrow> string \<Rightarrow> bool" where
  "endsWith s p = startsWith (rev s) (rev p)"

fun str_includes :: "string \<Rightarrow> string \<Rightarrow> bool" where
  "str_includes [] q = (q = [])"
| "str_includes (c # s) q = (startsWith (c # s) q \<or> str_includes s q)"

fun indexOf :: "'a list \<Rightarrow> 'a \<Rightarrow> nat option" where
  "indexOf [] c = None"
| "indexOf (x # s) c = (if x = c then Some 0 else map_option Suc (indexOf s c))"

fun lastIndexOf :: "'a list \<Rightarrow> 'a \<Rightarrow> nat option" where
  "lastIndexOf [] c = None"
| "lastIndexOf (x # s) c =
     (case lastIndexOf s c of Some i \<Rightarrow> Some (Suc i) | None \<Rightarrow> if x = c then Some 0 else None)"

lemma startsWith_append [simp]: "startsWith (p @ s) p"
  by (simp add: startsWith_def)

lemma startsWith_iff: "startsWith s p \<longleftrightarrow> (\<exists>r. s = p @ r)"
  by (metis append_take_drop_id startsWith_append startsWith_def)

lemma startsWith_Nil [simp]: "startsWith s []"
  by (simp add: startsWith_def)

lemma str_includes_iff: "str_includes s q \<longleftrightarrow> (\<exists>a b. s = a @ q @ b)"
proof (induction s)
  case (Cons c s)
  show ?case
  proof
    assume "str_includes (c # s) q"
    then show "\<exists>a b. c # s = a @ q @ b"
      using Cons.IH by (auto simp: startsWith_iff) (metis append_Cons append_Nil)+
  next
    assume "\<exists>a b. c # s = a @ q @ b"
    then obtain a b where e: "c # s = a @ q @ b" by blast
    show "str_includes (c # s) q"
    proof (cases a)
      case Nil
      with e show ?thesis by (metis append_Nil startsWith_append str_includes.simps(2))
    next
      case (Cons x a')
      with e Cons.IH show ?thesis by auto
    qed
  qed
qed simp

lemma str_includes_Nil [simp]: "str_includes s []"
  by (cases s) simp_all

lemma indexOf_None_iff [simp]: "indexOf s c = None \<longleftrightarrow> c \<notin> set s"
  by (induction s) auto

lemma indexOf_notin [simp]: "c \<notin> set s \<Longrightarrow> indexOf s c = None"
  by simp

lemma indexOf_Some: "indexOf s c = Some i \<Longrightarrow> i < length s \<and> s ! i = c \<and> c \<notin> set (take i s)"
  by (induction s arbitrary: i) (auto split: if_splits)

lemma indexOf_mem: "c \<in> set s \<Longrightarrow> \<exists>i. indexOf s c = Some i"
  by (metis indexOf_None_iff option.exhaust)

lemma indexOf_append_notin: "c \<notin> set a \<Longrightarrow> indexOf (a @ c # b) c = Some (length a)"
  by (induction a) auto

section \<open>Splitting and joining\<close>

text \<open>\<open>s.split(c)\<close> for a one-character separator: never empty, one part more than separators.\<close>

fun split_on :: "'a \<Rightarrow> 'a list \<Rightarrow> 'a list list" where
  "split_on c [] = [[]]"
| "split_on c (x # s) =
     (if x = c then [] # split_on c s
      else (case split_on c s of p # ps \<Rightarrow> (x # p) # ps | [] \<Rightarrow> [[x]]))"

fun join :: "'a list \<Rightarrow> 'a list list \<Rightarrow> 'a list" where
  "join sep [] = []"
| "join sep [p] = p"
| "join sep (p # q # ps) = p @ sep @ join sep (q # ps)"

lemma split_on_not_Nil [simp]: "split_on c s \<noteq> []"
  by (induction s) (auto split: list.splits)

lemma join_split_on: "join [c] (split_on c s) = s"
proof (induction s)
  case (Cons x s)
  then show ?case
    by (cases "split_on c s" rule: list.exhaust; cases "tl (split_on c s)") (auto split: list.splits)
qed simp

lemma split_on_no_sep: "p \<in> set (split_on c s) \<Longrightarrow> c \<notin> set p"
  by (induction s arbitrary: p) (auto split: list.splits if_splits)

lemma split_on_notin: "c \<notin> set s \<Longrightarrow> split_on c s = [s]"
  by (induction s) auto

lemma split_on_append_sep:
  "c \<notin> set a \<Longrightarrow> split_on c (a @ c # b) = a # split_on c b"
  by (induction a) auto

lemma split_on_hd: "c \<notin> set a \<Longrightarrow> hd (split_on c (a @ c # b)) = a"
  by (simp add: split_on_append_sep)

lemma split_on_join:
  "ps \<noteq> [] \<Longrightarrow> \<forall>p\<in>set ps. c \<notin> set p \<Longrightarrow> split_on c (join [c] ps) = ps"
  by (induction "[c]" ps rule: join.induct) (auto simp: split_on_notin split_on_append_sep)

lemma join_Nil_iff: "last ps \<noteq> [] \<Longrightarrow> ps \<noteq> [] \<Longrightarrow> join sep ps \<noteq> []"
  by (induction sep ps rule: join.induct) auto

lemma last_join: "ps \<noteq> [] \<Longrightarrow> last ps \<noteq> [] \<Longrightarrow> last (join sep ps) = last (last ps)"
  by (induction sep ps rule: join.induct) (auto simp: join_Nil_iff)

lemma hd_join: "ps \<noteq> [] \<Longrightarrow> hd ps \<noteq> [] \<Longrightarrow> hd (join sep ps) = hd (hd ps)"
  by (cases "(sep, ps)" rule: join.cases) auto

section \<open>Padding and digits\<close>

definition padStart :: "nat \<Rightarrow> char \<Rightarrow> string \<Rightarrow> string" where
  "padStart w c s = replicate (w - length s) c @ s"

definition digit_char :: "nat \<Rightarrow> char" where
  "digit_char d = (if d < 10 then fromCharCode (48 + d) else fromCharCode (87 + d))"

text \<open>\<open>n.toString(b)\<close> of a natural number for a radix \<open>b\<close> from 2 to 36.\<close>

fun toRadix :: "nat \<Rightarrow> nat \<Rightarrow> string" where
  "toRadix b n = (if b < 2 \<or> n < b then [digit_char n] else toRadix b (n div b) @ [digit_char (n mod b)])"

declare toRadix.simps [simp del]

definition showNat :: "nat \<Rightarrow> string" where
  "showNat n = toRadix 10 n"

lemma length_padStart: "length (padStart w c s) = max w (length s)"
  by (simp add: padStart_def)

lemma padStart_exact: "length s \<le> w \<Longrightarrow> length (padStart w c s) = w"
  by (simp add: length_padStart)

lemma toRadix_not_Nil [simp]: "toRadix b n \<noteq> []"
  by (subst toRadix.simps) simp

lemma toRadix_length: "1 < b \<Longrightarrow> n < b ^ k \<Longrightarrow> 0 < k \<Longrightarrow> length (toRadix b n) \<le> k"
proof (induction k arbitrary: n)
  case (Suc k)
  show ?case
  proof (cases "n < b")
    case True
    then show ?thesis by (subst toRadix.simps) simp
  next
    case False
    with Suc.prems have "0 < k" by (cases k) auto
    moreover from Suc.prems have "n div b < b ^ k"
      by (simp add: less_mult_imp_div_less mult.commute)
    ultimately have "length (toRadix b (n div b)) \<le> k" using Suc by blast
    with False Suc.prems show ?thesis by (subst toRadix.simps) simp
  qed
qed simp

lemma digit_0: "digit_char 0 = CHR ''0''"
  by (simp add: digit_char_def fromCharCode_def char_of_eq_iff take_bit_eq_mod)

text \<open>Digits can be read back, so a number is determined by its text.\<close>

definition digit_value :: "char \<Rightarrow> nat" where
  "digit_value c = (let n = charCode c in if n < 58 then n - 48 else n - 87)"

definition radix_value :: "nat \<Rightarrow> string \<Rightarrow> nat" where
  "radix_value b ds = foldl (\<lambda>n c. n * b + digit_value c) 0 ds"

lemma charCode_digit: "d < 36 \<Longrightarrow> charCode (digit_char d) = (if d < 10 then 48 + d else 87 + d)"
  by (simp add: digit_char_def)

lemma digit_value_char [simp]: "d < 36 \<Longrightarrow> digit_value (digit_char d) = d"
  by (simp add: digit_value_def charCode_digit Let_def)

lemma digit_char_inject: "a < 36 \<Longrightarrow> b < 36 \<Longrightarrow> digit_char a = digit_char b \<longleftrightarrow> a = b"
  by (metis digit_value_char)

lemma radix_value_toRadix: "1 < b \<Longrightarrow> b \<le> 36 \<Longrightarrow> radix_value b (toRadix b n) = n"
proof (induction b n rule: toRadix.induct)
  case (1 b n)
  show ?case
  proof (cases "n < b")
    case True
    then show ?thesis using "1.prems" by (subst toRadix.simps) (simp add: radix_value_def)
  next
    case False
    then have "radix_value b (toRadix b (n div b)) = n div b" using 1 by simp
    moreover have "n mod b < 36" using "1.prems" mod_less_divisor [of b n] by linarith
    ultimately show ?thesis using "1.prems" False
      by (subst toRadix.simps) (simp add: radix_value_def)
  qed
qed

lemma showNat_inject [simp]: "showNat m = showNat n \<longleftrightarrow> m = n"
proof
  assume "showNat m = showNat n"
  then have "radix_value 10 (toRadix 10 m) = radix_value 10 (toRadix 10 n)" by (simp add: showNat_def)
  then show "m = n" by (simp add: radix_value_toRadix)
qed simp

lemma toRadix_digits: "1 < b \<Longrightarrow> c \<in> set (toRadix b n) \<Longrightarrow> \<exists>d<b. c = digit_char d"
proof (induction b n rule: toRadix.induct)
  case (1 b n)
  show ?case
  proof (cases "n < b")
    case True
    then show ?thesis using "1.prems" by (subst (asm) toRadix.simps) auto
  next
    case False
    then have "c \<in> set (toRadix b (n div b)) \<or> c = digit_char (n mod b)"
      using "1.prems" by (subst (asm) toRadix.simps) auto
    then show ?thesis
    proof
      assume "c \<in> set (toRadix b (n div b))"
      with 1 False show ?thesis by simp
    next
      assume "c = digit_char (n mod b)"
      then show ?thesis using "1.prems" by (intro exI [of _ "n mod b"]) simp
    qed
  qed
qed

lemma showNat_digits: "c \<in> set (showNat n) \<Longrightarrow> 48 \<le> charCode c \<and> charCode c < 58"
  unfolding showNat_def using toRadix_digits [of 10 c n] by (auto simp: charCode_digit)

lemma showNat_not_Nil [simp]: "showNat n \<noteq> []"
  by (simp add: showNat_def)

text \<open>A separator that occurs in neither part determines both sides.\<close>

lemma append_sep_inject:
  "x \<notin> set a \<Longrightarrow> x \<notin> set b \<Longrightarrow> a @ x # r = b @ x # s \<longleftrightarrow> a = b \<and> r = s"
proof (induction a arbitrary: b)
  case Nil
  then show ?case by (cases b) auto
next
  case (Cons y a)
  then show ?case by (cases b) auto
qed

section \<open>Text beyond Latin-1\<close>

text \<open>
  Display strings that hold a literal outside U+0000 to U+00FF are lists of \<open>glyph\<close>: \<open>Lat\<close> for
  a code unit below 256, \<open>Uni\<close> for another one.
\<close>

datatype glyph = Lat char | Uni nat

abbreviation lat :: "string \<Rightarrow> glyph list" where
  "lat s \<equiv> map Lat s"

abbreviation em_dash :: glyph where
  "em_dash \<equiv> Uni 0x2014"

abbreviation ellipsis :: glyph where
  "ellipsis \<equiv> Uni 0x2026"

section \<open>Arrays: removal by index\<close>

text \<open>\<open>xs.findIndex(p)\<close>, and \<open>xs.splice(i, 1)\<close> for an index in range.\<close>

fun findIndex :: "('a \<Rightarrow> bool) \<Rightarrow> 'a list \<Rightarrow> nat option" where
  "findIndex p [] = None"
| "findIndex p (x # xs) = (if p x then Some 0 else map_option Suc (findIndex p xs))"

definition splice1 :: "nat \<Rightarrow> 'a list \<Rightarrow> 'a list" where
  "splice1 i xs = take i xs @ drop (Suc i) xs"

lemma findIndex_None_iff [simp]: "findIndex p xs = None \<longleftrightarrow> (\<forall>x\<in>set xs. \<not> p x)"
  by (induction xs) auto

lemma findIndex_Some [list_facts]:
  "findIndex p xs = Some i \<Longrightarrow> i < length xs \<and> p (xs ! i) \<and> (\<forall>x\<in>set (take i xs). \<not> p x)"
  by (induction xs arbitrary: i) (auto split: if_splits)

lemma length_splice1: "i < length xs \<Longrightarrow> length (splice1 i xs) = length xs - 1"
  by (simp add: splice1_def)

lemma splice1_Cons [simp]: "splice1 0 (x # xs) = xs" "splice1 (Suc i) (x # xs) = x # splice1 i xs"
  by (simp_all add: splice1_def)

lemma splice1_decomp: "i < length xs \<Longrightarrow> xs = take i xs @ xs ! i # drop (Suc i) xs"
  by (rule id_take_nth_drop)

lemma distinct_splice1: "distinct xs \<Longrightarrow> distinct (splice1 i xs)"
  by (simp add: splice1_def set_take_disj_set_drop_if_distinct)

lemma set_splice1 [list_facts]:
  "distinct xs \<Longrightarrow> i < length xs \<Longrightarrow> set (splice1 i xs) = set xs - {xs ! i}"
proof -
  assume d: "distinct xs" and i: "i < length xs"
  then have e: "xs = take i xs @ xs ! i # drop (Suc i) xs" by (simp add: splice1_decomp)
  have "distinct (take i xs @ xs ! i # drop (Suc i) xs)" using d e by simp
  then have "set (splice1 i xs) = set (take i xs @ xs ! i # drop (Suc i) xs) - {xs ! i}"
    by (auto simp: splice1_def)
  then show ?thesis using e by simp
qed

lemma sum_list_splice1:
  "i < length xs \<Longrightarrow> sum_list (map f xs) = f (xs ! i) + sum_list (map f (splice1 i xs))"
  for f :: "'a \<Rightarrow> 'b::comm_monoid_add"
proof -
  assume "i < length xs"
  then have "sum_list (map f xs) = sum_list (map f (take i xs @ xs ! i # drop (Suc i) xs))"
    by (simp add: splice1_decomp [symmetric])
  then show ?thesis by (simp add: splice1_def ac_simps)
qed

lemma upt_join: "i \<le> j \<Longrightarrow> j \<le> k \<Longrightarrow> [i..<j] @ [j..<k] = [i..<k]"
  using upt_add_eq_append [of i j "k - j"] by simp

section \<open>The last elements of a list\<close>

text \<open>\<open>xs.slice(xs.length - n)\<close> when there are more than \<open>n\<close>.\<close>

definition take_last :: "nat \<Rightarrow> 'a list \<Rightarrow> 'a list" where
  "take_last n xs = drop (length xs - n) xs"

lemma length_take_last: "length (take_last n xs) = min n (length xs)"
  by (simp add: take_last_def)

lemma take_last_all: "length xs \<le> n \<Longrightarrow> take_last n xs = xs"
  by (simp add: take_last_def)

lemma take_last_append: "take_last n (take_last n xs @ ys) = take_last n (xs @ ys)"
proof (cases "length xs \<le> n")
  case True
  then show ?thesis by (simp add: take_last_all)
next
  case False
  then have "length ys + length xs - n = length xs - n + length ys" by simp
  with False show ?thesis by (simp add: take_last_def add.commute)
qed

lemma take_last_idem [simp]: "take_last n (take_last n xs) = take_last n xs"
  using take_last_append [of n xs "[]"] by simp

end
