(* ===== verification/Wire.thy ===== *)
theory Wire
  imports Prelude
begin

text \<open>
  The data the proxy sends and the values the UI parses: the generated binding types of
  \<open>bindings/\<close>, the JSON values of \<open>components/json-tree/model.ts\<close>, and the platform services
  the sources call without defining them.

  Byte counts, exchange ids and offsets are \<open>nat\<close> (the bindings are generated from \<open>usize\<close> and
  \<open>u64\<close> fields); \<open>elapsed_ms\<close> is an \<open>int\<close> (\<open>i64\<close> in the proxy).
\<close>

section \<open>Bindings\<close>

type_synonym byte = "8 word"

datatype BodyChunk = ChunkText string | ChunkBinary string

record BodyContent =
  bc_offset :: nat
  bc_length :: nat
  bc_payload :: BodyChunk

record Header =
  h_name :: string
  h_value :: string

type_synonym ProxyHeaders = "Header list"

record BodyData =
  bd_content :: "BodyContent option"
  bd_trailers :: "ProxyHeaders option"
  bd_at_end :: bool
  bd_total_bytes :: nat

datatype InitialBody = NoBody | NotRead | Data BodyData

datatype Direction = DirRequest | DirResponse

text \<open>
  The four event types of the binding, and \<open>EvOther\<close> for a message whose \<open>type\<close> is none of
  them (the reducer has a branch for it).
\<close>

datatype Event =
    EvRequest (req_method: string) (req_uri: string) (req_version: string)
      (req_headers: ProxyHeaders) (req_body: InitialBody)
  | EvResponse (res_status: string) (res_version: string) (res_headers: ProxyHeaders)
      (res_elapsed_ms: int) (res_body: InitialBody)
  | EvBodyData (body_data: BodyData)
  | EvError (err_direction: Direction) (err_message: string)
  | EvOther string

record ExchangeMeta =
  em_exchange_id :: nat
  em_timestamp :: string

record EventMessage =
  msg_exchange :: ExchangeMeta
  msg_direction :: Direction
  msg_event :: Event

datatype Protocol = Elasticsearch | OpenSearch | Anthropic

record Service =
  sv_name :: string
  sv_addr :: string
  sv_target :: string
  sv_protocol :: "Protocol option"
  sv_subscribers :: nat

record Info =
  info_started_at :: string
  info_services :: "Service list"

abbreviation msg_id :: "EventMessage \<Rightarrow> nat" where
  "msg_id m \<equiv> em_exchange_id (msg_exchange m)"

section \<open>JSON values\<close>

text \<open>
  A number is represented by the text JavaScript prints for it (\<open>String(n)\<close>), which determines
  every number a JSON text can denote up to the sign of zero. An object is its entry list in
  \<open>Object.entries\<close> order.
\<close>

datatype JsonValue =
    JNull
  | JBool bool
  | JNumber string
  | JString string
  | JArray "JsonValue list"
  | JObject "(string \<times> JsonValue) list"

section \<open>Platform services\<close>

text \<open>
  Parameters of the model: \<open>json_parse\<close> is \<open>JSON.parse\<close> (\<open>None\<close> when it throws) and
  \<open>decode_utf8\<close> is \<open>new TextDecoder().decode\<close>. No law about them is assumed anywhere in
  the development unless a theorem states it as a hypothesis.
\<close>

record platform =
  json_parse :: "string \<Rightarrow> JsonValue option"
  decode_utf8 :: "byte list \<Rightarrow> string"

end
