(* ===== verification/Stream_Parser.thy ===== *)
theory Stream_Parser
  imports Prelude
begin

text \<open>
  The interface between a streamed body and the parser of its text: the parser state is made by
  \<open>init\<close>, takes text piece by piece with \<open>feed\<close> and drops what exceeds its capacity with
  \<open>retain\<close>. The reducer is the client (\<open>feed\<close> then \<open>retain\<close> for every chunk); theory Sse
  provides the operations of \<open>body/sse-stream.ts\<close> and proves the laws.
\<close>

locale stream_parser =
  fixes init :: 's
    and feed :: "'s \<Rightarrow> string \<Rightarrow> 's"
    and retain :: "'s \<Rightarrow> 's"
    and inv :: "'s \<Rightarrow> bool"
  assumes inv_init: "inv init"
    and inv_feed: "inv s \<Longrightarrow> inv (feed s t)"
    and inv_retain: "inv s \<Longrightarrow> inv (retain s)"
    and feed_append: "feed (feed s a) b = feed s (a @ b)"
    and feed_nothing: "inv s \<Longrightarrow> feed s [] = s"
    and retain_idem: "retain (retain s) = retain s"
    and retain_feed: "retain (feed (retain s) t) = retain (feed s t)"
begin

lemma feed_all: "inv s \<Longrightarrow> foldl feed s ts = feed s (concat ts)"
  by (induction ts arbitrary: s) (simp_all add: feed_nothing inv_feed feed_append)

lemma run_inv: "inv s \<Longrightarrow> inv (foldl (\<lambda>s t. retain (feed s t)) s ts)"
  by (induction ts arbitrary: s) (simp_all add: inv_feed inv_retain)

text \<open>Dropping after every piece is dropping once at the end.\<close>

lemma run_retained:
  "inv s \<Longrightarrow> foldl (\<lambda>s t. retain (feed s t)) (retain s) ts = retain (feed s (concat ts))"
proof (induction ts arbitrary: s)
  case (Cons t ts)
  have "retain (feed (retain s) t) = retain (feed s t)" by (rule retain_feed)
  with Cons show ?case by (simp add: inv_feed feed_append)
qed (simp add: feed_nothing)

lemma run_retained_init:
  "retain init = init \<Longrightarrow>
   foldl (\<lambda>s t. retain (feed s t)) init ts = retain (feed init (concat ts))"
  using run_retained [OF inv_init, of ts] by simp

end

text \<open>A parser that also bounds what it keeps.\<close>

locale bounded_stream_parser = stream_parser +
  fixes kept :: "'s \<Rightarrow> nat" and cap :: nat
  assumes kept_retain: "kept (retain s) \<le> cap"
    and kept_init: "kept init = 0"
begin

lemma run_bounded: "kept (foldl (\<lambda>s t. retain (feed s t)) init ts) \<le> cap"
  by (cases ts rule: rev_cases) (simp_all add: kept_retain kept_init)

end

end
