(* ===== verification/Codec.thy ===== *)
theory Codec
  imports Main
begin

text \<open>
  The interface of a printer and its parser: on valid values, parsing what was printed succeeds
  with a view of the value, the value itself or what the parser can know of it. Base64 chunks
  (theory Chunk), event-stream blocks (Sse), percent-encoded names (Download) and hex dumps
  (Text_Views) are interpretations.
\<close>

locale codec =
  fixes valid :: "'a \<Rightarrow> bool"
    and printed :: "'a \<Rightarrow> 't"
    and parse :: "'t \<Rightarrow> 'b option"
    and view :: "'a \<Rightarrow> 'b"
  assumes parse_printed: "valid x \<Longrightarrow> parse (printed x) = Some (view x)"
begin

text \<open>Equal texts have equal views, and a list of texts is parsed one by one.\<close>

lemma printed_view: "valid x \<Longrightarrow> valid y \<Longrightarrow> printed x = printed y \<Longrightarrow> view x = view y"
  using parse_printed [of x] parse_printed [of y] by simp

lemma parse_all: "list_all valid xs \<Longrightarrow> those (map (\<lambda>x. parse (printed x)) xs) = Some (map view xs)"
  by (induction xs) (simp_all add: parse_printed)

end

text \<open>A codec that loses nothing: the view is the value.\<close>

locale lossless_codec = codec valid printed parse "\<lambda>x. x"
  for valid :: "'a \<Rightarrow> bool" and printed :: "'a \<Rightarrow> 't" and parse :: "'t \<Rightarrow> 'a option"
begin

lemma printed_inject: "valid x \<Longrightarrow> valid y \<Longrightarrow> printed x = printed y \<longleftrightarrow> x = y"
  using printed_view by blast

lemma printed_inj_on: "inj_on printed {x. valid x}"
  by (rule inj_onI) (simp add: printed_inject)

lemma parse_all_values: "list_all valid xs \<Longrightarrow> those (map parse (map printed xs)) = Some xs"
  using parse_all by (simp add: comp_def)

end

end
