(* ===== verification/Sse.thy ===== *)
theory Sse
  imports Wire Stream_Parser Codec
begin

text \<open>
  The SSE parsers: \<open>body/sse.ts\<close> (one block, a whole body) and \<open>body/sse-stream.ts\<close> (the
  incremental parser a streamed body carries). The two regular expressions the code splits on,
  one blank line and one-or-more blank lines, are the functions \<open>split_blank\<close> and
  \<open>split_blanks\<close>.

  Shown: feeding a stream in any chunking gives the same state; the incremental parser and the
  whole-body parser give the same events; event indices are the consecutive positions in the
  stream, also after eviction; the retained events are the newest ones within the cap.
\<close>

section \<open>Events\<close>

record SSEEvent =
  ev_type :: string
  ev_data :: string
  ev_id :: "string option"
  ev_parsedData :: "JsonValue option"
  ev_index :: nat

datatype EventClass = Generic

definition classifyEvent :: "SSEEvent \<Rightarrow> EventClass" where
  "classifyEvent event = Generic"

text \<open>The three variables of the line loop of \<open>parseSSEBlock\<close>.\<close>

record sse_fields =
  sf_type :: string
  sf_dataLines :: "string list"
  sf_id :: "string option"

definition sse_line :: "sse_fields \<Rightarrow> string \<Rightarrow> sse_fields" where
  "sse_line st line =
     (if startsWith line '':'' then st
      else case indexOf line (CHR '':'') of
        None \<Rightarrow> st
      | Some colonIdx \<Rightarrow>
          let field = trim (take colonIdx line);
              value = trimStart (drop (Suc colonIdx) line)
          in if field = ''event'' then st\<lparr>sf_type := value\<rparr>
             else if field = ''data'' then st\<lparr>sf_dataLines := sf_dataLines st @ [value]\<rparr>
             else if field = ''id'' then st\<lparr>sf_id := Some value\<rparr>
             else st)"

definition sse_fields_init :: sse_fields where
  "sse_fields_init = \<lparr>sf_type = ''message'', sf_dataLines = [], sf_id = None\<rparr>"

definition parseSSEBlock :: "'a platform_scheme \<Rightarrow> string \<Rightarrow> nat \<Rightarrow> SSEEvent option" where
  "parseSSEBlock P block index =
     (let trimmed = trim block in
      if trimmed = [] then None
      else let st = foldl sse_line sse_fields_init (split_on newline trimmed) in
        if sf_dataLines st = [] then None
        else let data = join [newline] (sf_dataLines st) in
          Some \<lparr>ev_type = sf_type st, ev_data = data, ev_id = sf_id st,
                ev_parsedData = json_parse P data, ev_index = index\<rparr>)"

section \<open>Splitting at blank lines\<close>

fun split_blank :: "string \<Rightarrow> string list" where
  "split_blank [] = [[]]"
| "split_blank [x] = [[x]]"
| "split_blank (x # y # r) =
     (if x = newline \<and> y = newline then [] # split_blank r
      else (case split_blank (y # r) of p # ps \<Rightarrow> (x # p) # ps | [] \<Rightarrow> [[x]]))"

function split_blanks :: "string \<Rightarrow> string list" where
  "split_blanks [] = [[]]"
| "split_blanks [x] = [[x]]"
| "split_blanks (x # y # r) =
     (if x = newline \<and> y = newline then [] # split_blanks (dropWhile (\<lambda>c. c = newline) r)
      else (case split_blanks (y # r) of p # ps \<Rightarrow> (x # p) # ps | [] \<Rightarrow> [[x]]))"
  by pat_completeness auto
termination
  by (relation "measure length") (auto simp: less_Suc_eq_le le_SucI length_dropWhile_le)

text \<open>The loop both parsers run over the blocks: number the events, skip empty blocks.\<close>

fun parse_blocks :: "'a platform_scheme \<Rightarrow> nat \<Rightarrow> string list \<Rightarrow> SSEEvent list \<times> nat" where
  "parse_blocks P index [] = ([], index)"
| "parse_blocks P index (block # blocks) =
     (case parseSSEBlock P block index of
        None \<Rightarrow> parse_blocks P index blocks
      | Some event \<Rightarrow> (let (events, next) = parse_blocks P (Suc index) blocks in (event # events, next)))"

definition parseSSEBody :: "'a platform_scheme \<Rightarrow> string \<Rightarrow> SSEEvent list" where
  "parseSSEBody P text = fst (parse_blocks P 0 (split_blanks text))"

section \<open>The incremental parser\<close>

record SSEStreamState =
  ss_events :: "SSEEvent list"
  ss_totalEventCount :: nat
  ss_parserRemainder :: string

definition MAX_SSE_EVENTS :: nat where
  "MAX_SSE_EVENTS = 10000"

definition createSSEStreamState :: SSEStreamState where
  "createSSEStreamState = \<lparr>ss_events = [], ss_totalEventCount = 0, ss_parserRemainder = []\<rparr>"

definition feedChunk :: "'a platform_scheme \<Rightarrow> SSEStreamState \<Rightarrow> string \<Rightarrow> SSEStreamState" where
  "feedChunk P prev chunkText =
     (let text = ss_parserRemainder prev @ chunkText;
          parts = split_blank text;
          remainder = last parts;
          (newEvents, nextIndex) = parse_blocks P (ss_totalEventCount prev) (butlast parts);
          events = (if newEvents \<noteq> [] then ss_events prev @ newEvents else ss_events prev)
      in \<lparr>ss_events = events, ss_totalEventCount = nextIndex, ss_parserRemainder = remainder\<rparr>)"

definition applyRetention :: "nat \<Rightarrow> SSEStreamState \<Rightarrow> SSEStreamState" where
  "applyRetention cap state =
     (if length (ss_events state) \<le> cap then state
      else state\<lparr>ss_events := take_last cap (ss_events state)\<rparr>)"

section \<open>One block\<close>

lemma parseSSEBlock_trim: "trim a = trim b \<Longrightarrow> parseSSEBlock P a n = parseSSEBlock P b n"
  by (simp add: parseSSEBlock_def)

lemma parseSSEBlock_newline: "parseSSEBlock P (newline # b) n = parseSSEBlock P b n"
  using trim_ws_prefix [of "[newline]" b] by (intro parseSSEBlock_trim) simp

lemma parseSSEBlock_Nil [simp]: "parseSSEBlock P [] n = None"
  by (simp add: parseSSEBlock_def)

lemma parseSSEBlock_index: "parseSSEBlock P b n = Some e \<Longrightarrow> ev_index e = n"
  by (auto simp: parseSSEBlock_def Let_def split: if_splits)

lemma parse_blocks_append:
  "parse_blocks P n (xs @ ys) =
     (let (e, m) = parse_blocks P n xs; (f, k) = parse_blocks P m ys in (e @ f, k))"
  by (induction xs arbitrary: n) (simp_all add: Let_def split: option.split prod.split)

lemma parse_blocks_index:
  "parse_blocks P n bs = (es, m) \<Longrightarrow> map ev_index es = [n..<m] \<and> m = n + length es"
proof (induction bs arbitrary: n es m)
  case (Cons b bs)
  show ?case
  proof (cases "parseSSEBlock P b n")
    case None
    with Cons show ?thesis by simp
  next
    case (Some e)
    with Cons.prems obtain es' where p: "parse_blocks P (Suc n) bs = (es', m)" and es: "es = e # es'"
      by (auto split: prod.splits)
    from Cons.IH [OF p] Some es show ?thesis
      by (simp add: parseSSEBlock_index upt_conv_Cons del: upt_Suc)
  qed
qed simp

section \<open>Blank lines\<close>

lemma split_blank_not_Nil [simp]: "split_blank s \<noteq> []"
  by (induction s rule: split_blank.induct) (auto split: list.splits)

lemma split_blanks_not_Nil [simp]: "split_blanks s \<noteq> []"
  by (induction s rule: split_blanks.induct) (auto split: list.splits)

lemma split_blank_single: "split_blank s = [p] \<Longrightarrow> p = s"
  by (induction s arbitrary: p rule: split_blank.induct) (auto split: if_splits list.splits)

lemma split_blank_append:
  "split_blank (a @ b) = butlast (split_blank a) @ split_blank (last (split_blank a) @ b)"
proof (induction a rule: split_blank.induct)
  case (3 x y r)
  show ?case
  proof (cases "x = newline \<and> y = newline")
    case True
    with 3 show ?thesis by simp
  next
    case False
    obtain p ps where s: "split_blank (y # r) = p # ps"
      by (metis list.exhaust split_blank_not_Nil)
    show ?thesis
    proof (cases "ps = []")
      case True
      then have "p = y # r" using s split_blank_single by blast
      with True s False show ?thesis by (auto split: list.splits)
    next
      case ps: False
      with "3.IH"(2) [OF False] s False show ?thesis by (auto split: list.splits)
    qed
  qed
qed simp_all

text \<open>A part holds no blank line, so splitting the remainder again changes nothing.\<close>

lemma split_blank_last: "split_blank (last (split_blank a)) = [last (split_blank a)]"
proof -
  have "split_blank a = butlast (split_blank a) @ split_blank (last (split_blank a))"
    using split_blank_append [of a "[]"] by simp
  moreover have "split_blank a = butlast (split_blank a) @ [last (split_blank a)]" by simp
  ultimately show ?thesis by (metis same_append_eq)
qed

lemma parse_blocks_leading_newline:
  "parse_blocks P n (split_blank (newline # r)) = parse_blocks P n (split_blank r)"
proof (induction r arbitrary: n rule: split_blank.induct)
  case (3 x y r)
  show ?case
  proof (cases "x = newline")
    case True
    have "parse_blocks P n (split_blank (newline # x # y # r)) = parse_blocks P n (split_blank (y # r))"
      using True by simp
    also have "\<dots> = parse_blocks P n (split_blank (x # y # r))"
      using "3.IH" True by (cases "y = newline") (auto split: list.splits simp: parseSSEBlock_newline)
    finally show ?thesis .
  next
    case False
    then show ?thesis by (auto split: list.splits simp: parseSSEBlock_newline)
  qed
next
  case (2 x)
  then show ?case by (auto simp: parseSSEBlock_newline)
qed (simp add: parseSSEBlock_newline)

lemma parse_blocks_leading_newlines:
  "parse_blocks P n (split_blank (dropWhile (\<lambda>c. c = newline) r)) = parse_blocks P n (split_blank r)"
  by (induction r) (auto simp: parse_blocks_leading_newline)

section \<open>The whole-body parser against the incremental one\<close>

lemma split_blanks_vs_blank:
  "hd (split_blanks t) = hd (split_blank t) \<and>
   (\<forall>n. parse_blocks P n (tl (split_blanks t)) = parse_blocks P n (tl (split_blank t)))"
proof (induction t rule: split_blanks.induct)
  case (3 x y r)
  show ?case
  proof (cases "x = newline \<and> y = newline")
    case True
    let ?r = "dropWhile (\<lambda>c. c = newline) r"
    have "parse_blocks P n (split_blanks ?r) = parse_blocks P n (split_blank ?r)" for n
    proof -
      obtain p ps q qs where s: "split_blanks ?r = p # ps" "split_blank ?r = q # qs"
        by (metis list.exhaust split_blank_not_Nil split_blanks_not_Nil)
      have "p = q" "\<And>k. parse_blocks P k ps = parse_blocks P k qs"
        using "3.IH"(1) [OF True] s by auto
      then show ?thesis by (simp add: s split: option.split)
    qed
    then show ?thesis using True by (simp add: parse_blocks_leading_newlines)
  next
    case False
    obtain p ps q qs where s: "split_blanks (y # r) = p # ps" "split_blank (y # r) = q # qs"
      by (metis list.exhaust split_blank_not_Nil split_blanks_not_Nil)
    with "3.IH"(2) [OF False] False show ?thesis by auto
  qed
qed simp_all

lemma parse_blocks_split_blanks:
  "parse_blocks P n (split_blanks t) = parse_blocks P n (split_blank t)"
proof -
  obtain p ps q qs where s: "split_blanks t = p # ps" "split_blank t = q # qs"
    by (metis list.exhaust split_blank_not_Nil split_blanks_not_Nil)
  have "p = q" "\<And>k. parse_blocks P k ps = parse_blocks P k qs"
    using split_blanks_vs_blank [of t P] s by auto
  then show ?thesis by (simp add: s split: option.split)
qed

section \<open>The laws of the incremental parser\<close>

lemma feedChunk_alt:
  "feedChunk P s t =
     (let parts = split_blank (ss_parserRemainder s @ t);
          (es, m) = parse_blocks P (ss_totalEventCount s) (butlast parts)
      in \<lparr>ss_events = ss_events s @ es, ss_totalEventCount = m, ss_parserRemainder = last parts\<rparr>)"
  by (auto simp: feedChunk_def Let_def split: prod.splits)

lemma feedChunk_append: "feedChunk P (feedChunk P s a) b = feedChunk P s (a @ b)"
proof -
  let ?p = "split_blank (ss_parserRemainder s @ a)"
  have "split_blank (ss_parserRemainder s @ a @ b) = butlast ?p @ split_blank (last ?p @ b)"
    using split_blank_append [of "ss_parserRemainder s @ a" b] by simp
  then show ?thesis
    by (simp add: feedChunk_alt Let_def butlast_append parse_blocks_append split: prod.split)
qed

definition sse_inv :: "SSEStreamState \<Rightarrow> bool" where
  "sse_inv s \<longleftrightarrow>
     length (ss_events s) \<le> ss_totalEventCount s \<and>
     map ev_index (ss_events s) = [ss_totalEventCount s - length (ss_events s)..<ss_totalEventCount s] \<and>
     split_blank (ss_parserRemainder s) = [ss_parserRemainder s]"

lemma sse_inv_create: "sse_inv createSSEStreamState"
  by (simp add: sse_inv_def createSSEStreamState_def)

lemma sse_inv_feed: "sse_inv s \<Longrightarrow> sse_inv (feedChunk P s t)"
proof -
  assume i: "sse_inv s"
  let ?p = "split_blank (ss_parserRemainder s @ t)"
  obtain es m where p: "parse_blocks P (ss_totalEventCount s) (butlast ?p) = (es, m)" by force
  from parse_blocks_index [OF p]
  have es: "map ev_index es = [ss_totalEventCount s..<m]" and m: "m = ss_totalEventCount s + length es"
    by auto
  have "[ss_totalEventCount s - length (ss_events s)..<ss_totalEventCount s] @ [ss_totalEventCount s..<m]
        = [ss_totalEventCount s - length (ss_events s)..<m]"
    using m by (simp add: upt_add_eq_append [symmetric])
  then show ?thesis
    using i p es m by (simp add: feedChunk_alt Let_def sse_inv_def split_blank_last)
qed

lemma sse_inv_retain: "sse_inv s \<Longrightarrow> sse_inv (applyRetention cap s)"
  by (auto simp: sse_inv_def applyRetention_def length_take_last take_last_def drop_map [symmetric] min_def)

lemma feedChunk_nothing: "sse_inv s \<Longrightarrow> feedChunk P s [] = s"
  by (simp add: feedChunk_alt sse_inv_def)

lemma applyRetention_alt: "applyRetention cap s = s\<lparr>ss_events := take_last cap (ss_events s)\<rparr>"
  by (simp add: applyRetention_def take_last_all)

lemma applyRetention_idem: "applyRetention cap (applyRetention cap s) = applyRetention cap s"
  by (simp add: applyRetention_alt)

lemma applyRetention_feed:
  "applyRetention cap (feedChunk P (applyRetention cap s) t) = applyRetention cap (feedChunk P s t)"
  by (simp add: applyRetention_alt feedChunk_alt Let_def take_last_append split: prod.split)

interpretation sse: bounded_stream_parser createSSEStreamState "feedChunk P" "applyRetention cap"
    sse_inv "\<lambda>s. length (ss_events s)" cap
  for P :: "'a platform_scheme" and cap :: nat
  by unfold_locales
     (simp_all add: sse_inv_create sse_inv_feed sse_inv_retain feedChunk_append feedChunk_nothing
       applyRetention_idem applyRetention_feed,
      simp_all add: applyRetention_alt length_take_last createSSEStreamState_def)

lemma retain_create [simp]: "applyRetention cap createSSEStreamState = createSSEStreamState"
  by (simp add: applyRetention_def createSSEStreamState_def)

section \<open>Texts without a blank line\<close>

fun no_blank :: "string \<Rightarrow> bool" where
  "no_blank (x # y # r) \<longleftrightarrow> \<not> (x = newline \<and> y = newline) \<and> no_blank (y # r)"
| "no_blank _ \<longleftrightarrow> True"

lemma no_blank_split: "no_blank s \<Longrightarrow> split_blank s = [s]"
  by (induction s rule: no_blank.induct) auto

lemma no_blank_line: "newline \<notin> set l \<Longrightarrow> no_blank l"
  by (induction l rule: no_blank.induct) auto

lemma no_blank_Cons: "x \<noteq> newline \<or> s = [] \<or> hd s \<noteq> newline \<Longrightarrow> no_blank s \<Longrightarrow> no_blank (x # s)"
  by (cases s) auto

lemma no_blank_append:
  "newline \<notin> set l \<Longrightarrow> no_blank s \<Longrightarrow> no_blank (l @ s)"
  by (induction l) (auto intro: no_blank_Cons)

lemma split_blank_terminated:
  "no_blank w \<Longrightarrow> w = [] \<or> last w \<noteq> newline \<Longrightarrow>
   split_blank (w @ newline # newline # r) = w # split_blank r"
  by (induction w rule: no_blank.induct) (auto split: if_splits)

section \<open>Printing events\<close>

text \<open>The block a server sends for an event: its type, its id, and one line per line of data.\<close>

definition sse_lines :: "SSEEvent \<Rightarrow> string list" where
  "sse_lines e = (''event:'' @ ev_type e)
     # (case ev_id e of None \<Rightarrow> [] | Some i \<Rightarrow> [''id:'' @ i])
     @ map ((@) ''data:'') (split_on newline (ev_data e))"

definition sse_print :: "SSEEvent \<Rightarrow> string" where
  "sse_print e = join [newline] (sse_lines e) @ [newline, newline]"

text \<open>
  The events a block can carry: no line break in the type or the id, no white space at the
  start of a field value or at the end of the data.
\<close>

definition sse_printable :: "SSEEvent \<Rightarrow> bool" where
  "sse_printable e \<longleftrightarrow>
     newline \<notin> set (ev_type e) \<and> trimStart (ev_type e) = ev_type e \<and>
     (case ev_id e of None \<Rightarrow> True | Some i \<Rightarrow> newline \<notin> set i \<and> trimStart i = i) \<and>
     (\<forall>l\<in>set (split_on newline (ev_data e)). trimStart l = l) \<and>
     trimEnd (last (split_on newline (ev_data e))) = last (split_on newline (ev_data e))"

lemma sse_line_field:
  assumes "CHR '':'' \<notin> set f" "f \<noteq> []" "trim f = f" "trimStart v = v"
  shows "sse_line st (f @ CHR '':'' # v) =
     (if f = ''event'' then st\<lparr>sf_type := v\<rparr>
      else if f = ''data'' then st\<lparr>sf_dataLines := sf_dataLines st @ [v]\<rparr>
      else if f = ''id'' then st\<lparr>sf_id := Some v\<rparr> else st)"
proof -
  have "\<not> startsWith (f @ CHR '':'' # v) '':''"
    using assms(1,2) by (cases f) (auto simp: startsWith_def)
  then show ?thesis
    using assms by (simp add: sse_line_def indexOf_append_notin)
qed

lemma not_ws_letters [simp]:
  "\<not> is_ws (CHR ''e'')" "\<not> is_ws (CHR ''t'')" "\<not> is_ws (CHR ''d'')" "\<not> is_ws (CHR ''a'')"
  "\<not> is_ws (CHR ''i'')" "\<not> is_ws (CHR '':'')" "newline \<noteq> CHR '':''" "CHR '':'' \<noteq> newline"
  "newline \<noteq> CHR 0x0D" "CHR 0x0D \<noteq> newline"
  by (simp_all add: is_ws_def charCode_def newline_def)

lemma sse_line_event: "trimStart v = v \<Longrightarrow> sse_line st (''event:'' @ v) = st\<lparr>sf_type := v\<rparr>"
  using sse_line_field [of "''event''" v st] by (simp add: trim_id)

lemma sse_line_data:
  "trimStart v = v \<Longrightarrow> sse_line st (''data:'' @ v) = st\<lparr>sf_dataLines := sf_dataLines st @ [v]\<rparr>"
  using sse_line_field [of "''data''" v st] by (simp add: trim_id)

lemma sse_line_id: "trimStart v = v \<Longrightarrow> sse_line st (''id:'' @ v) = st\<lparr>sf_id := Some v\<rparr>"
  using sse_line_field [of "''id''" v st] by (simp add: trim_id)

lemma sse_data_lines:
  "\<forall>l\<in>set ls. trimStart l = l \<Longrightarrow>
   foldl sse_line st (map ((@) ''data:'') ls) = st\<lparr>sf_dataLines := sf_dataLines st @ ls\<rparr>"
  by (induction ls arbitrary: st) (simp_all add: sse_line_data [simplified])

lemma no_blank_join:
  "\<forall>l\<in>set ls. l \<noteq> [] \<and> newline \<notin> set l \<Longrightarrow> no_blank (join [newline] ls)"
proof (induction "[newline]" ls rule: join.induct)
  case (3 p q ps)
  moreover from 3 have "hd q \<noteq> newline" by (cases q) auto
  ultimately have "no_blank (join [newline] (q # ps))" "hd (join [newline] (q # ps)) \<noteq> newline"
    by (simp_all add: hd_join)
  then have "no_blank (newline # join [newline] (q # ps))"
    by (intro no_blank_Cons) auto
  then show ?case using "3.prems" by (simp add: no_blank_append)
qed (simp_all add: no_blank_line)

lemma sse_lines_facts:
  assumes "sse_printable e"
  shows "sse_lines e \<noteq> []" "\<forall>l\<in>set (sse_lines e). l \<noteq> [] \<and> newline \<notin> set l"
    "hd (sse_lines e) = ''event:'' @ ev_type e"
    "last (sse_lines e) = ''data:'' @ last (split_on newline (ev_data e))"
proof -
  have "newline \<notin> set p" if "p \<in> set (split_on newline (ev_data e))" for p
    using that by (rule split_on_no_sep)
  then show "\<forall>l\<in>set (sse_lines e). l \<noteq> [] \<and> newline \<notin> set l"
    using assms by (auto simp: sse_lines_def sse_printable_def newline_def split: option.splits)
qed (simp_all add: sse_lines_def last_map)

lemma sse_lines_trim:
  assumes "sse_printable e"
  shows "trim (join [newline] (sse_lines e)) = join [newline] (sse_lines e)"
proof (rule trim_id)
  note facts = sse_lines_facts [OF assms]
  let ?l = "last (split_on newline (ev_data e))"
  show "join [newline] (sse_lines e) \<noteq> []" by (rule join_Nil_iff) (simp_all add: facts)
  show "\<not> is_ws (hd (join [newline] (sse_lines e)))" by (simp add: hd_join facts)
  have "\<not> is_ws (last (''data:'' @ ?l))"
    using assms trimEnd_last [of ?l] by (cases "?l = []") (auto simp: sse_printable_def)
  moreover have "last (join [newline] (sse_lines e)) = last (last (sse_lines e))"
    by (rule last_join) (simp_all add: facts)
  ultimately show "\<not> is_ws (last (join [newline] (sse_lines e)))"
    by (simp add: facts)
qed

lemma parseSSEBlock_print:
  assumes "sse_printable e"
  shows "parseSSEBlock P (join [newline] (sse_lines e)) n =
    Some (e\<lparr>ev_parsedData := json_parse P (ev_data e), ev_index := n\<rparr>)"
proof -
  note facts = sse_lines_facts [OF assms]
  have "foldl sse_line sse_fields_init (sse_lines e) =
    \<lparr>sf_type = ev_type e, sf_dataLines = split_on newline (ev_data e), sf_id = ev_id e\<rparr>"
    using assms
    by (auto simp: sse_lines_def sse_printable_def sse_fields_init_def sse_data_lines
        sse_line_event [simplified] sse_line_id [simplified] split: option.splits)
  moreover have "split_on newline (join [newline] (sse_lines e)) = sse_lines e"
    by (rule split_on_join) (use facts in auto)
  moreover have "join [newline] (sse_lines e) \<noteq> []"
    by (rule join_Nil_iff) (simp_all add: facts)
  ultimately show ?thesis
    by (simp add: parseSSEBlock_def sse_lines_trim [OF assms] join_split_on Let_def)
qed

interpretation sse_block: codec sse_printable "\<lambda>e. join [newline] (sse_lines e)" "\<lambda>b. parseSSEBlock P b n"
    "\<lambda>e. e\<lparr>ev_parsedData := json_parse P (ev_data e), ev_index := n\<rparr>"
  for P :: "'a platform_scheme" and n :: nat
  by unfold_locales (rule parseSSEBlock_print)

lemma split_blank_print:
  assumes "sse_printable e"
  shows "split_blank (sse_print e @ r) = join [newline] (sse_lines e) # split_blank r"
proof -
  note facts = sse_lines_facts [OF assms]
  have "no_blank (join [newline] (sse_lines e))"
    by (rule no_blank_join) (rule facts)
  moreover have "last (join [newline] (sse_lines e)) \<noteq> newline"
    using facts(1,2) last_in_set [of "sse_lines e"]
    by (metis last_in_set last_join)
  ultimately show ?thesis by (simp add: sse_print_def split_blank_terminated)
qed

lemma parse_blocks_print:
  "\<forall>e\<in>set es. sse_printable e \<Longrightarrow>
   parse_blocks P n (split_blank (concat (map sse_print es))) =
     (map2 (\<lambda>e i. e\<lparr>ev_parsedData := json_parse P (ev_data e), ev_index := i\<rparr>) es [n..<n + length es],
      n + length es)"
  by (induction es arbitrary: n)
     (simp_all add: split_blank_print parseSSEBlock_print upt_conv_Cons del: upt_Suc)

section \<open>Properties\<close>

text \<open>
  Property C4. The state of a stream body depends on the text received, not on how the network
  cut it into chunks: feeding the chunks one by one, dropping old events after each, is feeding
  the whole text and dropping once.
\<close>

theorem sse_chunking_independent:
  "foldl (\<lambda>s t. applyRetention MAX_SSE_EVENTS (feedChunk P s t)) createSSEStreamState ts
   = applyRetention MAX_SSE_EVENTS (feedChunk P createSSEStreamState (concat ts))"
  by (rule sse.run_retained_init) simp

text \<open>
  Property C5. The incremental parser agrees with the whole-body parser: the events of
  \<open>parseSSEBody\<close> are those of the stream, followed by the event of the unterminated last block
  when it has one.
\<close>

theorem sse_incremental_equals_batch:
  "parseSSEBody P text =
     (let s = feedChunk P createSSEStreamState text in
      ss_events s @ (case parseSSEBlock P (ss_parserRemainder s) (ss_totalEventCount s) of
                       None \<Rightarrow> [] | Some e \<Rightarrow> [e]))"
proof -
  let ?p = "split_blank text"
  have "parse_blocks P 0 (split_blanks text) = parse_blocks P 0 (butlast ?p @ [last ?p])"
    by (simp add: parse_blocks_split_blanks)
  then show ?thesis
    unfolding parseSSEBody_def parse_blocks_append
    by (simp add: feedChunk_alt createSSEStreamState_def Let_def split: prod.split option.split)
qed

text \<open>
  Property C16. After any sequence of chunks the stream holds the newest events only, at most
  \<open>MAX_SSE_EVENTS\<close> of them, and their indices are their consecutive positions in the stream,
  ending just below the total count, which eviction does not change.
\<close>

theorem sse_retained_events_are_newest:
  "let s = foldl (\<lambda>s t. applyRetention MAX_SSE_EVENTS (feedChunk P s t)) createSSEStreamState ts;
       all = feedChunk P createSSEStreamState (concat ts)
   in ss_totalEventCount s = length (ss_events all) \<and>
      ss_events s = take_last MAX_SSE_EVENTS (ss_events all) \<and>
      length (ss_events s) \<le> 10000 \<and>
      map ev_index (ss_events s) = [ss_totalEventCount s - length (ss_events s)..<ss_totalEventCount s]"
proof -
  let ?all = "feedChunk P createSSEStreamState (concat ts)"
  let ?s = "applyRetention MAX_SSE_EVENTS ?all"
  obtain es m where p: "parse_blocks P 0 (butlast (split_blank (concat ts))) = (es, m)" by force
  have "ss_totalEventCount ?s = length (ss_events ?all)"
    using p parse_blocks_index [OF p]
    by (simp add: applyRetention_alt feedChunk_alt createSSEStreamState_def Let_def)
  moreover have "sse_inv ?s" by (simp add: sse_inv_retain sse_inv_feed sse_inv_create)
  moreover have "length (ss_events ?s) \<le> 10000"
    by (simp add: applyRetention_alt length_take_last MAX_SSE_EVENTS_def)
  ultimately show ?thesis
    unfolding sse.run_retained_init [OF retain_create] Let_def
    by (simp add: sse_inv_def applyRetention_alt)
qed

text \<open>
  Property C6. Round trip: printing a list of events as an event stream and parsing the text
  gives the events back in order, numbered from 0, with their data parsed.
\<close>

theorem sse_print_parse:
  assumes "\<forall>e\<in>set es. sse_printable e"
  shows "parseSSEBody P (concat (map sse_print es)) =
    map2 (\<lambda>e i. e\<lparr>ev_parsedData := json_parse P (ev_data e), ev_index := i\<rparr>) es [0..<length es]"
  using parse_blocks_print [OF assms, of P 0]
  by (simp add: parseSSEBody_def parse_blocks_split_blanks)

theorem sse_print_parse_witness:
  "let e = \<lparr>ev_type = ''ping'', ev_data = ''a'' @ [newline] @ ''b'', ev_id = Some ''7'',
            ev_parsedData = None, ev_index = 0\<rparr>;
       P = \<lparr>json_parse = (\<lambda>s. Some (JString s)), decode_utf8 = (\<lambda>_. [])\<rparr>
   in sse_printable e \<and>
      parseSSEBody P (concat (map sse_print [e])) = [e\<lparr>ev_parsedData := Some (JString (ev_data e))\<rparr>]"
proof -
  let ?e = "\<lparr>ev_type = ''ping'', ev_data = ''a'' @ [newline] @ ''b'', ev_id = Some ''7'',
            ev_parsedData = None, ev_index = 0\<rparr>"
  have p: "sse_printable ?e" by code_simp
  then have "\<forall>e\<in>set [?e]. sse_printable e" by simp
  from sse_print_parse [OF this, of "\<lparr>json_parse = (\<lambda>s. Some (JString s)), decode_utf8 = (\<lambda>_. [])\<rparr>"] p
  show ?thesis by (simp add: Let_def upt_rec)
qed

text \<open>
  Property C40. A stream whose lines all end in CR LF, which the event stream format allows,
  contains no blank line in the sense of the code, so no event is ever delivered and the whole
  text stays in the parser's remainder.
\<close>

theorem sse_crlf_stream_delivers_nothing:
  assumes "\<forall>l\<in>set ls. newline \<notin> set l"
  shows "ss_events (feedChunk P createSSEStreamState (concat (map (\<lambda>l. l @ [CHR 0x0D, newline]) ls))) = []
    \<and> ss_parserRemainder (feedChunk P createSSEStreamState (concat (map (\<lambda>l. l @ [CHR 0x0D, newline]) ls)))
      = concat (map (\<lambda>l. l @ [CHR 0x0D, newline]) ls)"
proof -
  have "no_blank (concat (map (\<lambda>l. l @ [CHR 0x0D, newline]) ls)) \<and>
        (concat (map (\<lambda>l. l @ [CHR 0x0D, newline]) ls) = [] \<or>
         hd (concat (map (\<lambda>l. l @ [CHR 0x0D, newline]) ls)) \<noteq> newline)"
    using assms
  proof (induction ls)
    case (Cons l ls)
    then have "no_blank (newline # concat (map (\<lambda>l. l @ [CHR 0x0D, newline]) ls))"
      by (intro no_blank_Cons) auto
    then have "no_blank (CHR 0x0D # newline # concat (map (\<lambda>l. l @ [CHR 0x0D, newline]) ls))"
      by (rule no_blank_Cons [rotated]) simp
    then have "no_blank (l @ CHR 0x0D # newline # concat (map (\<lambda>l. l @ [CHR 0x0D, newline]) ls))"
      using Cons.prems by (intro no_blank_append) auto
    then show ?case using Cons.prems by (cases l) auto
  qed simp
  then show ?thesis
    by (simp add: feedChunk_alt createSSEStreamState_def no_blank_split)
qed

theorem sse_crlf_stream_delivers_nothing_witness:
  "ss_events (feedChunk \<lparr>json_parse = (\<lambda>_. None), decode_utf8 = (\<lambda>_. [])\<rparr> createSSEStreamState
     (concat (map (\<lambda>l. l @ [CHR 0x0D, newline]) [''data: 1'', [], ''data: 2'', []]))) = []"
proof -
  have "\<forall>l\<in>set [''data: 1'', [], ''data: 2'', []]. newline \<notin> set l"
    by (simp add: newline_def)
  from sse_crlf_stream_delivers_nothing [OF this] show ?thesis by blast
qed

end
