(* ===== verification/Chunk.thy ===== *)
theory Chunk
  imports Wire Codec
begin

text \<open>
  Body chunks as bytes and text: \<open>chunkToBytes\<close> and \<open>concatenate\<close> of \<open>body/decode.ts\<close>,
  \<open>chunksToText\<close> of \<open>body/sse.ts\<close> and \<open>chunkToText\<close> of \<open>body/sse-stream.ts\<close>, with the
  platform's \<open>atob\<close> (forgiving base64) and \<open>TextEncoder\<close> written out. \<open>None\<close> is the
  \<open>InvalidCharacterError\<close> that \<open>atob\<close> throws.
\<close>

named_theorems base64_simps

section \<open>atob\<close>

definition b64_value :: "char \<Rightarrow> nat option" where
  "b64_value c = (let n = charCode c in
     if 65 \<le> n \<and> n \<le> 90 then Some (n - 65)
     else if 97 \<le> n \<and> n \<le> 122 then Some (n - 71)
     else if 48 \<le> n \<and> n \<le> 57 then Some (n + 4)
     else if n = 43 then Some 62
     else if n = 47 then Some 63
     else None)"

fun b64_values :: "string \<Rightarrow> nat list option" where
  "b64_values [] = Some []"
| "b64_values (c # s) =
     (case b64_value c of None \<Rightarrow> None | Some v \<Rightarrow> map_option ((#) v) (b64_values s))"

text \<open>Sextets to octets; the bits left over at the end are dropped.\<close>

fun sextets_to_octets :: "nat list \<Rightarrow> nat list" where
  "sextets_to_octets (a # b # c # d # r) =
     (a * 4 + b div 16) # ((b mod 16) * 16 + c div 4) # ((c mod 4) * 64 + d) # sextets_to_octets r"
| "sextets_to_octets [a, b, c] = [a * 4 + b div 16, (b mod 16) * 16 + c div 4]"
| "sextets_to_octets [a, b] = [a * 4 + b div 16]"
| "sextets_to_octets _ = []"

definition is_ascii_ws :: "char \<Rightarrow> bool" where
  "is_ascii_ws c = (charCode c \<in> {9, 10, 12, 13, 32})"

definition strip_padding :: "string \<Rightarrow> string" where
  "strip_padding s =
     (if length s mod 4 = 0 then
        (if endsWith s ''=='' then take (length s - 2) s
         else if endsWith s ''='' then take (length s - 1) s
         else s)
      else s)"

definition atob :: "string \<Rightarrow> nat list option" where
  "atob data = (let s = strip_padding (filter (\<lambda>c. \<not> is_ascii_ws c) data) in
     if length s mod 4 = 1 then None
     else map_option sextets_to_octets (b64_values s))"

section \<open>TextEncoder\<close>

definition octet :: "nat \<Rightarrow> byte" where
  "octet n = of_nat n"

definition utf8_char :: "char \<Rightarrow> byte list" where
  "utf8_char c = (let n = charCode c in
     if n < 128 then [octet n] else [octet (192 + n div 64), octet (128 + n mod 64)])"

definition TextEncoder_encode :: "string \<Rightarrow> byte list" where
  "TextEncoder_encode s = concat (map utf8_char s)"

section \<open>Chunks\<close>

fun chunkToBytes :: "BodyChunk \<Rightarrow> byte list option" where
  "chunkToBytes (ChunkText t) = Some (TextEncoder_encode t)"
| "chunkToBytes (ChunkBinary b) = map_option (map octet) (atob b)"

text \<open>\<open>concatenate\<close> allocates the total length and copies each array at a running offset.\<close>

definition setAt :: "byte list \<Rightarrow> byte list \<Rightarrow> nat \<Rightarrow> byte list" where
  "setAt target source offset =
     take offset target @ source @ drop (offset + length source) target"

fun concat_loop :: "byte list list \<Rightarrow> byte list \<Rightarrow> nat \<Rightarrow> byte list" where
  "concat_loop [] result offset = result"
| "concat_loop (arr # arrs) result offset =
     concat_loop arrs (setAt result arr offset) (offset + length arr)"

definition concatenate :: "byte list list \<Rightarrow> byte list" where
  "concatenate arrays =
     (let totalLength = foldl (\<lambda>sum a. sum + length a) 0 arrays
      in concat_loop arrays (replicate totalLength 0) 0)"

fun chunksToBytes :: "BodyChunk list \<Rightarrow> byte list list option" where
  "chunksToBytes [] = Some []"
| "chunksToBytes (c # cs) =
     (case chunkToBytes c of None \<Rightarrow> None | Some b \<Rightarrow> map_option ((#) b) (chunksToBytes cs))"

definition chunksToText :: "'a platform_scheme \<Rightarrow> BodyChunk list \<Rightarrow> string option" where
  "chunksToText P chunks = map_option (\<lambda>arrays. decode_utf8 P (concatenate arrays)) (chunksToBytes chunks)"

fun chunkToText :: "'a platform_scheme \<Rightarrow> BodyChunk \<Rightarrow> string option" where
  "chunkToText P (ChunkText t) = Some t"
| "chunkToText P (ChunkBinary b) = map_option (\<lambda>os. decode_utf8 P (map octet os)) (atob b)"

section \<open>concatenate is concatenation\<close>

lemma total_length: "foldl (\<lambda>sum a. sum + length a) n arrays = n + length (concat arrays)"
  by (induction arrays arbitrary: n) auto

lemma concat_loop_eq:
  "length result = offset + length (concat arrays) \<Longrightarrow>
   concat_loop arrays result offset = take offset result @ concat arrays"
proof (induction arrays arbitrary: result offset)
  case (Cons arr arrs)
  have "length (setAt result arr offset) = offset + length arr + length (concat arrs)"
    using Cons.prems by (simp add: setAt_def)
  then have "concat_loop arrs (setAt result arr offset) (offset + length arr)
             = take (offset + length arr) (setAt result arr offset) @ concat arrs"
    by (rule Cons.IH)
  moreover have "take (offset + length arr) (setAt result arr offset) = take offset result @ arr"
    using Cons.prems by (simp add: setAt_def)
  ultimately show ?case by simp
qed simp

lemma concatenate_eq: "concatenate arrays = concat arrays"
  by (simp add: concatenate_def total_length concat_loop_eq)

section \<open>Base64 round trip\<close>

text \<open>The RFC 4648 encoder, as a reference: what the proxy sends as a binary chunk.\<close>

definition b64_char :: "nat \<Rightarrow> char" where
  "b64_char v =
     (if v < 26 then fromCharCode (v + 65)
      else if v < 52 then fromCharCode (v + 71)
      else if v < 62 then fromCharCode (v - 4)
      else if v = 62 then CHR 0x2B else CHR 0x2F)"

fun b64_encode :: "byte list \<Rightarrow> string" where
  "b64_encode (x # y # z # r) = (let a = unat x; b = unat y; c = unat z in
     b64_char (a div 4) # b64_char ((a mod 4) * 16 + b div 16)
     # b64_char ((b mod 16) * 4 + c div 64) # b64_char (c mod 64) # b64_encode r)"
| "b64_encode [x, y] = (let a = unat x; b = unat y in
     [b64_char (a div 4), b64_char ((a mod 4) * 16 + b div 16), b64_char ((b mod 16) * 4), CHR ''=''])"
| "b64_encode [x] = (let a = unat x in
     [b64_char (a div 4), b64_char ((a mod 4) * 16), CHR ''='', CHR ''=''])"
| "b64_encode [] = []"

text \<open>The sextets of an encoding and the encoding without its padding.\<close>

fun b64_sextets :: "byte list \<Rightarrow> nat list" where
  "b64_sextets (x # y # z # r) = (let a = unat x; b = unat y; c = unat z in
     a div 4 # ((a mod 4) * 16 + b div 16) # ((b mod 16) * 4 + c div 64) # (c mod 64) # b64_sextets r)"
| "b64_sextets [x, y] = (let a = unat x; b = unat y in
     [a div 4, (a mod 4) * 16 + b div 16, (b mod 16) * 4])"
| "b64_sextets [x] = (let a = unat x in [a div 4, (a mod 4) * 16])"
| "b64_sextets [] = []"

lemma unat_byte: "unat (x :: byte) < 256"
  using unsigned_less [of x] by simp

lemma b64_value_char: "v < 64 \<Longrightarrow> b64_value (b64_char v) = Some v"
proof -
  assume "v < 64"
  then consider "v < 26" | "26 \<le> v" "v < 52" | "52 \<le> v" "v < 62" | "v = 62" | "v = 63"
    by linarith
  then show ?thesis
    by cases (simp_all add: b64_value_def b64_char_def Let_def charCode_def fromCharCode_def
      of_char_of take_bit_eq_mod, arith)
qed

lemma b64_char_class: "\<not> is_ascii_ws (b64_char v) \<and> b64_char v \<noteq> CHR ''=''" if "v < 64"
proof -
  have "b64_value (b64_char v) \<noteq> None" using that by (simp add: b64_value_char)
  then show ?thesis
    by (auto simp: is_ascii_ws_def b64_value_def Let_def charCode_def split: if_splits)
qed

lemmas b64_char_not_ws [base64_simps] = b64_char_class [THEN conjunct1]
lemmas b64_char_not_pad [base64_simps] = b64_char_class [THEN conjunct2]

lemma sextet_bounds [base64_simps]:
  fixes x y :: byte
  shows "unat x div 4 < 64" "unat x mod 64 < 64"
    "(unat x mod 4) * 16 + unat y div 16 < 64" "(unat x mod 16) * 4 + unat y div 64 < 64"
    "(unat x mod 4) * 16 < 64" "(unat x mod 16) * 4 < 64"
proof -
  have b: "unat x < 256" "unat y < 256" by (rule unat_byte)+
  have m: "unat x mod 4 < 4" "unat x mod 16 < 16" by simp_all
  from b have d: "unat y div 16 < 16" "unat y div 64 < 4" by simp_all
  show "unat x div 4 < 64" "unat x mod 64 < 64" using b by simp_all
  show "(unat x mod 4) * 16 + unat y div 16 < 64" using m d by linarith
  show "(unat x mod 16) * 4 + unat y div 64 < 64" using m d by linarith
  show "(unat x mod 4) * 16 < 64" "(unat x mod 16) * 4 < 64" using m by linarith+
qed

lemma b64_sextets_less: "v \<in> set (b64_sextets bs) \<Longrightarrow> v < 64"
  by (induction bs rule: b64_sextets.induct) (auto simp: Let_def base64_simps)

lemma b64_values_sextets: "b64_values (map b64_char (b64_sextets bs)) = Some (b64_sextets bs)"
proof -
  have "\<forall>v\<in>set vs. v < 64 \<Longrightarrow> b64_values (map b64_char vs) = Some vs" for vs
    by (induction vs) (auto simp: b64_value_char)
  then show ?thesis using b64_sextets_less by blast
qed

lemma sextets_octets: "sextets_to_octets (b64_sextets bs) = map unat bs"
proof (induction bs rule: b64_sextets.induct)
  case (1 x y z r)
  have "unat x < 256" "unat y < 256" "unat z < 256" by (rule unat_byte)+
  then show ?case using "1.IH" by (simp add: Let_def)
next
  case (2 x y)
  have "unat x < 256" "unat y < 256" by (rule unat_byte)+
  then show ?case by (simp add: Let_def)
next
  case (3 x)
  have "unat x < 256" by (rule unat_byte)
  then show ?case by (simp add: Let_def)
qed simp

lemma b64_sextets_length: "length (b64_sextets bs) mod 4 \<noteq> 1"
proof (induction bs rule: b64_sextets.induct)
  case (1 x y z r)
  then show ?case by (simp add: Let_def)
qed (simp_all add: Let_def)

lemma is_ascii_ws_pad: "\<not> is_ascii_ws (CHR ''='')"
  by (simp add: is_ascii_ws_def charCode_def)

lemma b64_encode_class: "c \<in> set (b64_encode bs) \<Longrightarrow> \<not> is_ascii_ws c"
  by (induction bs rule: b64_encode.induct)
     (auto simp: Let_def base64_simps is_ascii_ws_pad)

lemma b64_encode_length: "length (b64_encode bs) mod 4 = 0"
  by (induction bs rule: b64_encode.induct) (simp_all add: Let_def mod_simps)

lemma endsWith_append: "length p \<le> length r \<Longrightarrow> endsWith (x @ r) p = endsWith r p"
  by (simp add: endsWith_def startsWith_def)

lemma strip_padding_append:
  assumes "length x mod 4 = 0" "2 \<le> length r"
  shows "strip_padding (x @ r) = x @ strip_padding r"
proof -
  have l: "length (x @ r) mod 4 = length r mod 4"
    using assms(1) by (simp add: mod_add_eq) presburger
  have "take (length (x @ r) - 2) (x @ r) = x @ take (length r - 2) r"
    "take (length (x @ r) - 1) (x @ r) = x @ take (length r - 1) r"
    using assms(2) by auto
  then show ?thesis
    using l assms(2) by (simp only: strip_padding_def endsWith_append) (simp add: endsWith_append)
qed

lemma strip_padding_encode: "strip_padding (b64_encode bs) = map b64_char (b64_sextets bs)"
proof (induction bs rule: b64_encode.induct)
  case (1 x y z r)
  let ?q = "map b64_char (b64_sextets [x, y, z])"
  have e: "b64_encode (x # y # z # r) = ?q @ b64_encode r"
    by (simp add: Let_def)
  show ?case
  proof (cases r)
    case Nil
    have "b64_char (unat z mod 64) \<noteq> CHR ''=''" by (simp add: base64_simps)
    then show ?thesis
      by (simp add: Nil Let_def strip_padding_def endsWith_def startsWith_def)
  next
    case (Cons a s)
    have "r \<noteq> [] \<Longrightarrow> 2 \<le> length (b64_encode r)"
      by (cases r rule: b64_encode.cases) (simp_all add: Let_def)
    then have "2 \<le> length (b64_encode r)" using Cons by simp
    moreover have "length ?q mod 4 = 0" by (simp add: Let_def)
    ultimately have "strip_padding (b64_encode (x # y # z # r)) = ?q @ strip_padding (b64_encode r)"
      unfolding e by (intro strip_padding_append)
    then show ?thesis using "1.IH" by (simp add: Let_def)
  qed
next
  case (2 x y)
  have "b64_char ((unat y mod 16) * 4) \<noteq> CHR ''=''" by (simp add: base64_simps)
  then show ?case by (simp add: Let_def strip_padding_def endsWith_def startsWith_def)
qed (simp_all add: Let_def strip_padding_def endsWith_def startsWith_def)

lemma atob_encode: "atob (b64_encode bs) = Some (map unat bs)"
proof -
  have "filter (\<lambda>c. \<not> is_ascii_ws c) (b64_encode bs) = b64_encode bs"
    by (simp add: filter_id_conv b64_encode_class)
  then show ?thesis
    using b64_sextets_length [of bs]
    by (simp add: atob_def strip_padding_encode b64_values_sextets sextets_octets)
qed

lemma octet_unat [simp]: "octet (unat b) = b"
  by (simp add: octet_def)

section \<open>Properties\<close>

text \<open>Base64 chunks as a codec.\<close>

lemma chunksToBytes_those: "chunksToBytes cs = those (map chunkToBytes cs)"
  by (induction cs) (simp_all split: option.split)

interpretation b64: lossless_codec "\<lambda>_. True" "\<lambda>bs. ChunkBinary (b64_encode bs)" chunkToBytes
  by unfold_locales (simp add: atob_encode comp_def)

text \<open>
  Property C25. Round trip: the bytes of a body sent as base64 chunks are the bytes that were
  encoded, in order.
\<close>

theorem chunks_round_trip:
  "map_option concatenate (chunksToBytes (map (\<lambda>bs. ChunkBinary (b64_encode bs)) bss)) = Some (concat bss)"
proof -
  have "list_all (\<lambda>_. True) bss" by (simp add: list_all_iff)
  from b64.parse_all_values [OF this] show ?thesis by (simp add: chunksToBytes_those concatenate_eq)
qed

end
