(* ===== verification/Exchange_Types.thy ===== *)
theory Exchange_Types
  imports Sse Chunk
begin

text \<open>
  The UI's domain model, \<open>state/types.ts\<close>: a body, a transport failure, an exchange. An optional
  field is an \<open>option\<close>; \<open>kind\<close> of an error has the one variant \<open>generic\<close>.
\<close>

record BodyState =
  bs_chunks :: "BodyChunk list"
  bs_atEnd :: bool
  bs_wireBytes :: nat
  bs_decodedBytes :: "nat option"
  bs_contentEncoding :: "string option"
  bs_contentType :: "string option"
  bs_sseState :: "SSEStreamState option"

datatype ErrorKind = GenericError

record ExchangeError =
  xe_kind :: ErrorKind
  xe_direction :: Direction
  xe_message :: string

record Exchange =
  ex_id :: nat
  ex_timestamp :: string
  ex_method :: "string option"
  ex_uri :: "string option"
  ex_version :: "string option"
  ex_requestHeaders :: "ProxyHeaders option"
  ex_requestBody :: "BodyState option"
  ex_status :: "string option"
  ex_responseVersion :: "string option"
  ex_responseHeaders :: "ProxyHeaders option"
  ex_elapsedMs :: "int option"
  ex_responseBody :: "BodyState option"
  ex_error :: "ExchangeError option"
  ex_traceId :: "string option"

definition fresh_exchange :: "nat \<Rightarrow> string \<Rightarrow> Exchange" where
  "fresh_exchange i t =
     \<lparr>ex_id = i, ex_timestamp = t, ex_method = None, ex_uri = None, ex_version = None,
      ex_requestHeaders = None, ex_requestBody = None, ex_status = None, ex_responseVersion = None,
      ex_responseHeaders = None, ex_elapsedMs = None, ex_responseBody = None, ex_error = None,
      ex_traceId = None\<rparr>"

definition empty_body :: BodyState where
  "empty_body = \<lparr>bs_chunks = [], bs_atEnd = False, bs_wireBytes = 0, bs_decodedBytes = None,
     bs_contentEncoding = None, bs_contentType = None, bs_sseState = None\<rparr>"

text \<open>
  The storage rule of \<open>BodyState\<close>: a body with a stream state keeps no chunks, and its stream
  state is one the incremental parser reaches, within its cap.
\<close>

definition body_ok :: "BodyState \<Rightarrow> bool" where
  "body_ok b \<longleftrightarrow> (case bs_sseState b of None \<Rightarrow> True
     | Some s \<Rightarrow> bs_chunks b = [] \<and> sse_inv s \<and> length (ss_events s) \<le> MAX_SSE_EVENTS)"

definition exchange_ok :: "Exchange \<Rightarrow> bool" where
  "exchange_ok x \<longleftrightarrow> pred_option body_ok (ex_requestBody x) \<and> pred_option body_ok (ex_responseBody x)"

lemma empty_body_ok [simp]: "body_ok empty_body"
  by (simp add: body_ok_def empty_body_def)

lemma fresh_exchange_ok [simp]: "exchange_ok (fresh_exchange i t)"
  by (simp add: exchange_ok_def fresh_exchange_def)

lemma fresh_exchange_id [simp]: "ex_id (fresh_exchange i t) = i"
  by (simp add: fresh_exchange_def)

end
