(* ===== verification/Bounded_Store.thy ===== *)
theory Bounded_Store
  imports Main
begin

text \<open>
  The interface between the store and the reducer: a store of keyed entries takes messages with
  \<open>ingest\<close> (which may throw: \<open>None\<close>) and is brought back under its caps with \<open>evict\<close>, which
  spares one protected key. Theory Store is the client; theory Reducer provides the operations.
\<close>

locale bounded_store =
  fixes ingest :: "'m \<Rightarrow> 's \<Rightarrow> 's option"
    and evict :: "'k option \<Rightarrow> 's \<Rightarrow> 's"
    and wf :: "'s \<Rightarrow> bool"
    and within :: "'s \<Rightarrow> bool"
    and lookup :: "'s \<Rightarrow> 'k \<Rightarrow> 'e option"
    and target :: "'m \<Rightarrow> 'k"
  assumes wf_ingest: "wf s \<Longrightarrow> ingest m s = Some s' \<Longrightarrow> wf s'"
    and wf_evict: "wf s \<Longrightarrow> wf (evict p s)"
    and within_evict: "wf s \<Longrightarrow> within (evict p s)"
    and lookup_ingest: "ingest m s = Some s' \<Longrightarrow> k \<noteq> target m \<Longrightarrow> lookup s' k = lookup s k"
    and ingest_target: "ingest m s = Some s' \<Longrightarrow> lookup s (target m) \<noteq> None \<Longrightarrow> lookup s' (target m) \<noteq> None"
    and lookup_evict: "wf s \<Longrightarrow> lookup (evict p s) k = lookup s k \<or> lookup (evict p s) k = None"
    and evict_spares: "wf s \<Longrightarrow> lookup (evict (Some k) s) k = lookup s k"
begin

text \<open>One message: ingest and evict; a throwing ingest leaves the store as it was.\<close>

definition accept :: "'k option \<Rightarrow> 's \<Rightarrow> 'm \<Rightarrow> 's" where
  "accept p s m = (case ingest m s of None \<Rightarrow> s | Some s' \<Rightarrow> evict p s')"

lemma wf_accept: "wf s \<Longrightarrow> wf (accept p s m)"
  by (auto simp: accept_def wf_ingest wf_evict split: option.split)

lemma within_accept: "wf s \<Longrightarrow> within s \<Longrightarrow> within (accept p s m)"
  by (auto simp: accept_def wf_ingest within_evict split: option.split)

lemma accept_run: "wf s \<Longrightarrow> within s \<Longrightarrow> wf (foldl (accept p) s ms) \<and> within (foldl (accept p) s ms)"
  by (induction ms arbitrary: s) (simp_all add: wf_accept within_accept)

lemma accept_spares:
  "wf s \<Longrightarrow> lookup s k \<noteq> None \<Longrightarrow> lookup (accept (Some k) s m) k \<noteq> None"
proof (cases "ingest m s")
  case (Some s')
  assume "wf s" and k: "lookup s k \<noteq> None"
  then have "wf s'" using Some wf_ingest by blast
  moreover have "lookup s' k \<noteq> None"
    using Some k lookup_ingest ingest_target by (cases "k = target m") auto
  ultimately show ?thesis using Some by (simp add: accept_def evict_spares)
qed (simp add: accept_def)

lemma accept_run_spares:
  "wf s \<Longrightarrow> lookup s k \<noteq> None \<Longrightarrow> lookup (foldl (accept (Some k)) s ms) k \<noteq> None"
proof (induction ms arbitrary: s)
  case (Cons m ms)
  from Cons.prems have "lookup (accept (Some k) s m) k \<noteq> None" by (rule accept_spares)
  with Cons show ?case by (simp add: wf_accept)
qed simp

lemma accept_other:
  "wf s \<Longrightarrow> k \<noteq> target m \<Longrightarrow> lookup (accept p s m) k \<in> {lookup s k, None}"
proof (cases "ingest m s")
  case (Some s')
  assume "wf s" and "k \<noteq> target m"
  then have "wf s'" "lookup s' k = lookup s k"
    using Some wf_ingest lookup_ingest by blast+
  then show ?thesis using Some lookup_evict [of s' p k] by (auto simp: accept_def)
qed (simp add: accept_def)

text \<open>An entry that is spared and not addressed is the same entry at the end of the run.\<close>

lemma accept_run_unaddressed:
  "wf s \<Longrightarrow> \<forall>m\<in>set ms. target m \<noteq> k \<Longrightarrow> lookup (foldl (accept (Some k)) s ms) k = lookup s k"
proof (induction ms arbitrary: s)
  case (Cons m ms)
  then have "lookup (accept (Some k) s m) k = lookup s k"
    using wf_ingest evict_spares lookup_ingest
    by (cases "ingest m s") (auto simp: accept_def)
  with Cons show ?case by (simp add: wf_accept)
qed simp

end

end
