(* ===== verification/Reducer.thy ===== *)
theory Reducer
  imports Exchange_Types Bounded_Store
begin

text \<open>
  The pure reducer, \<open>state/reducer.ts\<close>: \<open>apply\<close> folds one \<open>EventMessage\<close> into the exchanges
  (\<open>reducer_apply\<close>), \<open>evict\<close> keeps the store within its caps. The pair of the \<open>Map\<close> and the
  \<open>ids\<close> array, which the code mutates in place on copies the caller owns, is passed and
  returned. \<open>None\<close> as a whole result is the exception \<open>atob\<close> throws on a malformed binary
  chunk of an event stream.

  Shown: the well-formedness of the store is kept; each event updates exactly its exchange;
  chunks accumulate in order; eviction removes the least number of oldest unprotected exchanges
  that brings the store under both caps.
\<close>

type_synonym exchanges = "nat \<rightharpoonup> Exchange"
type_synonym exchange_store = "exchanges \<times> nat list"

section \<open>Definitions\<close>

definition MAX_EXCHANGES :: nat where
  "MAX_EXCHANGES = 1024"

definition MAX_PAYLOAD_BYTES :: int where
  "MAX_PAYLOAD_BYTES = 512 * 1024 * 1024"

definition getHeader :: "ProxyHeaders \<Rightarrow> string \<Rightarrow> string option" where
  "getHeader headers name =
     map_option h_value (find (\<lambda>h. toLowerCase (h_name h) = toLowerCase name) headers)"

definition body_bytes :: "BodyState option \<Rightarrow> nat" where
  "body_bytes b = (case b of None \<Rightarrow> 0 | Some x \<Rightarrow> bs_wireBytes x)"

definition exchangeBytes :: "Exchange \<Rightarrow> nat" where
  "exchangeBytes ex = body_bytes (ex_requestBody ex) + body_bytes (ex_responseBody ex)"

definition isSSEContentType :: "string option \<Rightarrow> bool" where
  "isSSEContentType ct = (case ct of None \<Rightarrow> False
     | Some t \<Rightarrow> startsWith (toLowerCase t) ''text/event-stream'')"

text \<open>The three lines both SSE paths share: feed the payload, when there is one, and retain.\<close>

definition feed_payload ::
  "'a platform_scheme \<Rightarrow> SSEStreamState \<Rightarrow> BodyContent option \<Rightarrow> SSEStreamState option" where
  "feed_payload P s content = (case content of
     None \<Rightarrow> Some s
   | Some c \<Rightarrow> map_option (\<lambda>t. applyRetention MAX_SSE_EVENTS (feedChunk P s t))
                 (chunkToText P (bc_payload c)))"

fun initialBodyToState ::
  "'a platform_scheme \<Rightarrow> InitialBody \<Rightarrow> ProxyHeaders \<Rightarrow> BodyState option option" where
  "initialBodyToState P NoBody headers = Some None"
| "initialBodyToState P NotRead headers =
     (let contentType = getHeader headers ''content-type'';
          contentEncoding = getHeader headers ''content-encoding''
      in Some (Some \<lparr>bs_chunks = [], bs_atEnd = False, bs_wireBytes = 0, bs_decodedBytes = None,
           bs_contentEncoding = contentEncoding, bs_contentType = contentType,
           bs_sseState = (if isSSEContentType contentType then Some createSSEStreamState else None)\<rparr>))"
| "initialBodyToState P (Data d) headers =
     (let contentType = getHeader headers ''content-type'';
          contentEncoding = getHeader headers ''content-encoding''
      in if isSSEContentType contentType then
           map_option (\<lambda>sseState. Some \<lparr>bs_chunks = [], bs_atEnd = bd_at_end d,
               bs_wireBytes = bd_total_bytes d, bs_decodedBytes = None,
               bs_contentEncoding = contentEncoding, bs_contentType = contentType,
               bs_sseState = Some sseState\<rparr>)
             (feed_payload P createSSEStreamState (bd_content d))
         else
           Some (Some \<lparr>bs_chunks = (case bd_content d of Some c \<Rightarrow> [bc_payload c] | None \<Rightarrow> []),
             bs_atEnd = bd_at_end d, bs_wireBytes = bd_total_bytes d, bs_decodedBytes = None,
             bs_contentEncoding = contentEncoding, bs_contentType = contentType,
             bs_sseState = None\<rparr>))"

definition appendBodyData ::
  "'a platform_scheme \<Rightarrow> BodyState option \<Rightarrow> BodyData \<Rightarrow> BodyState option" where
  "appendBodyData P prev d =
     (let base = (case prev of Some b \<Rightarrow> b | None \<Rightarrow> empty_body) in
      case bs_sseState base of
        Some s \<Rightarrow>
          map_option (\<lambda>sseState. base\<lparr>bs_sseState := Some sseState, bs_atEnd := bd_at_end d,
                                       bs_wireBytes := bd_total_bytes d\<rparr>)
            (feed_payload P s (bd_content d))
      | None \<Rightarrow>
          let chunks = (case bd_content d of Some c \<Rightarrow> bs_chunks base @ [bc_payload c]
                                           | None \<Rightarrow> bs_chunks base)
          in Some (base\<lparr>bs_chunks := chunks, bs_atEnd := bd_at_end d,
                        bs_wireBytes := bd_total_bytes d\<rparr>))"

text \<open>
  The trace id of a request: the second dash-separated part of \<open>traceparent\<close>, when the header
  is present, non-empty and has a dash.
\<close>

definition traceparent_id :: "ProxyHeaders \<Rightarrow> string option" where
  "traceparent_id headers = (case getHeader headers ''traceparent'' of
     None \<Rightarrow> None
   | Some tp \<Rightarrow> if tp = [] then None
       else let parts = split_on (CHR ''-'') tp in
         if 2 \<le> length parts then Some (parts ! 1) else None)"

text \<open>The event chain of \<open>apply\<close>; the inner \<open>None\<close> is the early return of its last branch.\<close>

fun update_exchange ::
  "'a platform_scheme \<Rightarrow> Exchange \<Rightarrow> Direction \<Rightarrow> Event \<Rightarrow> Exchange option option" where
  "update_exchange P ex dir (EvRequest rmethod uri version headers body) =
     map_option (\<lambda>b. Some (ex\<lparr>ex_method := Some rmethod, ex_uri := Some uri,
         ex_version := Some version, ex_requestHeaders := Some headers, ex_requestBody := b,
         ex_traceId := (case traceparent_id headers of Some t \<Rightarrow> Some t | None \<Rightarrow> ex_traceId ex)\<rparr>))
       (initialBodyToState P body headers)"
| "update_exchange P ex dir (EvResponse status version headers elapsed body) =
     map_option (\<lambda>b. Some (ex\<lparr>ex_status := Some status, ex_responseVersion := Some version,
         ex_responseHeaders := Some headers, ex_elapsedMs := Some elapsed, ex_responseBody := b\<rparr>))
       (initialBodyToState P body headers)"
| "update_exchange P ex dir (EvBodyData d) =
     (case dir of
        DirRequest \<Rightarrow> map_option (\<lambda>b. Some (ex\<lparr>ex_requestBody := Some b\<rparr>))
                        (appendBodyData P (ex_requestBody ex) d)
      | DirResponse \<Rightarrow> map_option (\<lambda>b. Some (ex\<lparr>ex_responseBody := Some b\<rparr>))
                        (appendBodyData P (ex_responseBody ex) d))"
| "update_exchange P ex dir (EvError direction message) =
     Some (Some (ex\<lparr>ex_error := Some \<lparr>xe_kind = GenericError, xe_direction = direction,
                                       xe_message = message\<rparr>\<rparr>))"
| "update_exchange P ex dir (EvOther t) = Some None"

definition reducer_apply ::
  "'a platform_scheme \<Rightarrow> EventMessage \<Rightarrow> exchange_store \<Rightarrow> exchange_store option" where
  "reducer_apply P msg store =
     (let (exchanges, ids) = store;
          i = em_exchange_id (msg_exchange msg);
          timestamp = em_timestamp (msg_exchange msg);
          prev = exchanges i;
          ex = (case prev of None \<Rightarrow> fresh_exchange i timestamp | Some p \<Rightarrow> p)
      in case update_exchange P ex (msg_direction msg) (msg_event msg) of
           None \<Rightarrow> None
         | Some None \<Rightarrow> Some (exchanges, ids)
         | Some (Some ex') \<Rightarrow>
             let ids' = (if prev = None then ids @ [i] else ids)
             in Some (exchanges(i \<mapsto> ex'), ids'))"

definition oldestEvictable :: "nat option \<Rightarrow> nat list \<Rightarrow> nat option" where
  "oldestEvictable protectedId ids = findIndex (\<lambda>i. Some i \<noteq> protectedId) ids"

lemma oldestEvictable_less: "oldestEvictable p ids = Some i \<Longrightarrow> i < length ids"
  by (simp add: oldestEvictable_def list_facts)

function evict_count :: "nat option \<Rightarrow> exchanges \<Rightarrow> nat list \<Rightarrow> exchange_store" where
  "evict_count p exchanges ids =
     (if MAX_EXCHANGES < length ids then
        (case oldestEvictable p ids of
           None \<Rightarrow> (exchanges, ids)
         | Some i \<Rightarrow> evict_count p (exchanges(ids ! i := None)) (splice1 i ids))
      else (exchanges, ids))"
  by pat_completeness auto
termination
  by (relation "measure (\<lambda>(p, e, ids). length ids)") (auto simp: length_splice1 dest: oldestEvictable_less)

definition entry_bytes :: "Exchange option \<Rightarrow> int" where
  "entry_bytes e = (case e of None \<Rightarrow> 0 | Some ex \<Rightarrow> int (exchangeBytes ex))"

function evict_payload :: "nat option \<Rightarrow> exchanges \<Rightarrow> nat list \<Rightarrow> int \<Rightarrow> exchange_store" where
  "evict_payload p exchanges ids bytes =
     (if MAX_PAYLOAD_BYTES < bytes \<and> 1 < length ids then
        (case oldestEvictable p ids of
           None \<Rightarrow> (exchanges, ids)
         | Some i \<Rightarrow> evict_payload p (exchanges(ids ! i := None)) (splice1 i ids)
                       (bytes - entry_bytes (exchanges (ids ! i))))
      else (exchanges, ids))"
  by pat_completeness auto
termination
  by (relation "measure (\<lambda>(p, e, ids, t). length ids)") (auto simp: length_splice1 dest: oldestEvictable_less)

definition evict :: "nat option \<Rightarrow> exchange_store \<Rightarrow> exchange_store" where
  "evict protectedId store =
     (let (exchanges, ids) = evict_count protectedId (fst store) (snd store);
          bytes = foldl (\<lambda>sum i. sum + entry_bytes (exchanges i)) 0 ids
      in evict_payload protectedId exchanges ids bytes)"

declare evict_count.simps [simp del] evict_payload.simps [simp del]

section \<open>Bodies keep their storage rule\<close>

definition stream_ok :: "SSEStreamState \<Rightarrow> bool" where
  "stream_ok s \<longleftrightarrow> sse_inv s \<and> length (ss_events s) \<le> MAX_SSE_EVENTS"

lemma stream_ok_create [simp]: "stream_ok createSSEStreamState"
  by (simp add: stream_ok_def sse_inv_create) (simp add: createSSEStreamState_def)

lemma feed_payload_ok: "stream_ok s \<Longrightarrow> feed_payload P s c = Some s' \<Longrightarrow> stream_ok s'"
  using sse.kept_retain [of MAX_SSE_EVENTS]
  by (auto simp: feed_payload_def stream_ok_def sse_inv_feed sse_inv_retain split: option.splits)

lemma body_ok_stream: "body_ok b \<Longrightarrow> bs_sseState b = Some s \<Longrightarrow> bs_chunks b = [] \<and> stream_ok s"
  by (simp add: body_ok_def stream_ok_def)

lemma body_okI: "(\<And>s. bs_sseState b = Some s \<Longrightarrow> bs_chunks b = [] \<and> stream_ok s) \<Longrightarrow> body_ok b"
  by (simp add: body_ok_def stream_ok_def split: option.split)

lemma initialBodyToState_ok: "initialBodyToState P body headers = Some b \<Longrightarrow> pred_option body_ok b"
proof (cases body)
  case (Data d)
  assume b: "initialBodyToState P body headers = Some b"
  show ?thesis
  proof (cases "isSSEContentType (getHeader headers ''content-type'')")
    case True
    with b Data obtain s where s: "feed_payload P createSSEStreamState (bd_content d) = Some s"
      by (auto simp: Let_def)
    have "stream_ok s" by (rule feed_payload_ok [OF stream_ok_create s])
    with b Data True s show ?thesis by (auto simp: Let_def intro!: body_okI)
  next
    case False
    with b Data show ?thesis by (auto simp: Let_def intro!: body_okI)
  qed
qed (auto simp: Let_def intro!: body_okI)

lemma appendBodyData_ok:
  "pred_option body_ok prev \<Longrightarrow> appendBodyData P prev d = Some b \<Longrightarrow> body_ok b"
proof -
  assume prev: "pred_option body_ok prev" and b: "appendBodyData P prev d = Some b"
  let ?base = "case prev of Some b \<Rightarrow> b | None \<Rightarrow> empty_body"
  have base: "body_ok ?base" using prev by (cases prev) simp_all
  show ?thesis
  proof (cases "bs_sseState ?base")
    case None
    with b show ?thesis by (auto simp: appendBodyData_def Let_def intro!: body_okI)
  next
    case (Some s)
    note body_ok_stream [OF base Some]
    with b Some show ?thesis
      by (auto simp: appendBodyData_def Let_def intro!: body_okI dest: feed_payload_ok)
  qed
qed

lemma update_exchange_ok:
  assumes "exchange_ok ex" "update_exchange P ex dir ev = Some (Some ex')"
  shows "exchange_ok ex'"
  using assms
  by (cases ev)
     (auto simp: exchange_ok_def dest: initialBodyToState_ok appendBodyData_ok split: Direction.splits)

lemma update_exchange_frame:
  "update_exchange P ex dir ev = Some (Some ex') \<Longrightarrow> ex_id ex' = ex_id ex \<and> ex_timestamp ex' = ex_timestamp ex"
  by (cases ev) (auto split: Direction.splits)

section \<open>Well-formed stores\<close>

text \<open>
  The \<open>ids\<close> array lists each key of the map once; every exchange is stored under its own id
  and its bodies obey the storage rule.
\<close>

definition store_wf :: "exchange_store \<Rightarrow> bool" where
  "store_wf store \<longleftrightarrow> distinct (snd store) \<and> set (snd store) = dom (fst store) \<and>
     (\<forall>i x. fst store i = Some x \<longrightarrow> ex_id x = i \<and> exchange_ok x)"

lemma store_wf_empty: "store_wf (Map.empty, [])"
  by (simp add: store_wf_def)

lemma store_wf_entry: "store_wf (e, ids) \<Longrightarrow> e i = Some x \<Longrightarrow> ex_id x = i \<and> exchange_ok x"
  by (simp add: store_wf_def)

lemma reducer_apply_cases:
  assumes "reducer_apply P msg (e, ids) = Some store'"
  obtains (ignored) "store' = (e, ids)" "update_exchange P (case e (msg_id msg) of None \<Rightarrow>
      fresh_exchange (msg_id msg) (em_timestamp (msg_exchange msg)) | Some p \<Rightarrow> p)
      (msg_direction msg) (msg_event msg) = Some None"
  | (updated) ex' where "update_exchange P (case e (msg_id msg) of None \<Rightarrow>
      fresh_exchange (msg_id msg) (em_timestamp (msg_exchange msg)) | Some p \<Rightarrow> p)
      (msg_direction msg) (msg_event msg) = Some (Some ex')"
    "store' = (e(msg_id msg \<mapsto> ex'), if e (msg_id msg) = None then ids @ [msg_id msg] else ids)"
  using assms by (auto simp: reducer_apply_def Let_def split: option.splits if_splits)

lemma reducer_apply_wf:
  assumes "store_wf store" "reducer_apply P msg store = Some store'"
  shows "store_wf store'"
proof -
  obtain e ids where s: "store = (e, ids)" by (cases store)
  from assms(2) [unfolded s] show ?thesis
  proof (cases rule: reducer_apply_cases)
    case ignored
    with assms s show ?thesis by simp
  next
    case (updated ex')
    let ?ex = "case e (msg_id msg) of None \<Rightarrow> fresh_exchange (msg_id msg) (em_timestamp (msg_exchange msg))
      | Some p \<Rightarrow> p"
    have "ex_id ?ex = msg_id msg" "exchange_ok ?ex"
      using assms(1) s by (auto simp: store_wf_def split: option.split)
    then have "ex_id ex' = msg_id msg" "exchange_ok ex'"
      using update_exchange_frame [OF updated(1)] update_exchange_ok [OF _ updated(1)] by auto
    then show ?thesis
      using assms(1) updated(2) s by (auto simp: store_wf_def dom_def)
  qed
qed

section \<open>Eviction\<close>

text \<open>Dropping the first \<open>k\<close> unprotected ids.\<close>

fun drop_oldest :: "nat option \<Rightarrow> nat \<Rightarrow> nat list \<Rightarrow> nat list" where
  "drop_oldest p 0 ids = ids"
| "drop_oldest p (Suc k) [] = []"
| "drop_oldest p (Suc k) (i # ids) =
     (if Some i = p then i # drop_oldest p (Suc k) ids else drop_oldest p k ids)"

lemma drop_oldest_Nil [simp]: "drop_oldest p k [] = []"
  by (cases k) simp_all

lemma drop_oldest_add: "drop_oldest p j (drop_oldest p k ids) = drop_oldest p (k + j) ids"
  by (induction p k ids rule: drop_oldest.induct) (simp, simp, cases j, simp_all)

lemma oldestEvictable_drop: "oldestEvictable p ids = Some i \<Longrightarrow> splice1 i ids = drop_oldest p 1 ids"
  unfolding oldestEvictable_def by (induction ids arbitrary: i) (auto split: if_splits)

lemma drop_oldest_keeps: "p = Some i \<Longrightarrow> i \<in> set (drop_oldest p k ids) \<longleftrightarrow> i \<in> set ids"
  by (induction p k ids rule: drop_oldest.induct) auto

lemma drop_oldest_subset: "set (drop_oldest p k ids) \<subseteq> set ids"
  by (induction p k ids rule: drop_oldest.induct) auto

lemma drop_oldest_distinct: "distinct ids \<Longrightarrow> distinct (drop_oldest p k ids)"
  using drop_oldest_subset by (induction p k ids rule: drop_oldest.induct) auto

lemma oldestEvictable_exists:
  "distinct ids \<Longrightarrow> 1 < length ids \<Longrightarrow> \<exists>i. oldestEvictable p ids = Some i"
  by (cases ids; cases "tl ids") (auto simp: oldestEvictable_def)

lemma drop_oldest_one_left: "distinct ids \<Longrightarrow> 1 < length ids \<Longrightarrow> drop_oldest p 1 ids \<noteq> []"
  by (cases ids; cases "tl ids") auto

definition payload :: "exchanges \<Rightarrow> nat list \<Rightarrow> int" where
  "payload e ids = sum_list (map (\<lambda>i. entry_bytes (e i)) ids)"

text \<open>The two caps, on the ids that remain.\<close>

definition within_caps :: "exchanges \<Rightarrow> nat list \<Rightarrow> bool" where
  "within_caps e ids \<longleftrightarrow> length ids \<le> MAX_EXCHANGES \<and> (payload e ids \<le> MAX_PAYLOAD_BYTES \<or> length ids \<le> 1)"

lemma payload_foldl: "foldl (\<lambda>sum i. sum + entry_bytes (e i)) n ids = n + payload e ids"
  by (induction ids arbitrary: n) (simp_all add: payload_def)

lemma payload_splice1:
  "i < length ids \<Longrightarrow> distinct ids \<Longrightarrow>
   payload (e(ids ! i := None)) (splice1 i ids) = payload e ids - entry_bytes (e (ids ! i))"
proof -
  assume i: "i < length ids" "distinct ids"
  then have "ids ! i \<notin> set (splice1 i ids)" by (simp add: set_splice1)
  then have "payload (e(ids ! i := None)) (splice1 i ids) = payload e (splice1 i ids)"
    unfolding payload_def by (intro arg_cong [of _ _ sum_list] map_cong) auto
  then show ?thesis
    using sum_list_splice1 [OF i(1), of "\<lambda>i. entry_bytes (e i)"] by (simp add: payload_def)
qed


text \<open>One removal: the map and the ids stay in step, and the ids are those of one more drop.\<close>

lemma evict_step:
  assumes "distinct ids" "set ids = dom e" "oldestEvictable p ids = Some i"
  shows "distinct (splice1 i ids)" "set (splice1 i ids) = dom (e(ids ! i := None))"
    "splice1 i ids = drop_oldest p 1 ids"
    "(e(ids ! i := None)) |` set (drop_oldest p k (splice1 i ids)) = e |` set (drop_oldest p k (splice1 i ids))"
    "drop_oldest p k (splice1 i ids) = drop_oldest p (Suc k) ids"
proof -
  have i: "i < length ids" by (rule oldestEvictable_less) (rule assms)
  then have s: "set (splice1 i ids) = set ids - {ids ! i}" by (simp add: set_splice1 assms)
  then have "ids ! i \<notin> set (drop_oldest p k (splice1 i ids))"
    using drop_oldest_subset by blast
  then show "(e(ids ! i := None)) |` set (drop_oldest p k (splice1 i ids))
      = e |` set (drop_oldest p k (splice1 i ids))"
    by (auto simp: restrict_map_def)
  show "set (splice1 i ids) = dom (e(ids ! i := None))" using s assms(2) by auto
  show d: "splice1 i ids = drop_oldest p 1 ids" by (rule oldestEvictable_drop) (rule assms)
  show "drop_oldest p k (splice1 i ids) = drop_oldest p (Suc k) ids"
    by (simp add: d drop_oldest_add)
qed (simp add: distinct_splice1 assms)

lemma restrict_dom [simp]: "e |` dom e = e"
  by (rule ext) (simp add: restrict_map_def domIff)

lemma evict_count_spec:
  "distinct ids \<Longrightarrow> set ids = dom e \<Longrightarrow>
   \<exists>k. evict_count p e ids = (e |` set (drop_oldest p k ids), drop_oldest p k ids) \<and>
     length (drop_oldest p k ids) \<le> MAX_EXCHANGES \<and>
     (\<forall>j<k. MAX_EXCHANGES < length (drop_oldest p j ids))"
proof (induction p e ids rule: evict_count.induct)
  case (1 p e ids)
  show ?case
  proof (cases "MAX_EXCHANGES < length ids")
    case False
    then show ?thesis using 1 by (intro exI [of _ 0]) (simp add: evict_count.simps)
  next
    case True
    then have "1 < length ids" by (simp add: MAX_EXCHANGES_def)
    then obtain i where i: "oldestEvictable p ids = Some i"
      using oldestEvictable_exists 1 by blast
    note step = evict_step [OF "1.prems" i]
    obtain k where k: "evict_count p (e(ids ! i := None)) (splice1 i ids) =
          ((e(ids ! i := None)) |` set (drop_oldest p k (splice1 i ids)), drop_oldest p k (splice1 i ids))"
        "length (drop_oldest p k (splice1 i ids)) \<le> MAX_EXCHANGES"
        "\<forall>j<k. MAX_EXCHANGES < length (drop_oldest p j (splice1 i ids))"
      using "1.IH" [OF True i step(1,2)] by blast
    have "\<forall>j<Suc k. MAX_EXCHANGES < length (drop_oldest p j ids)"
      using k(3) True step(5) by (auto simp: less_Suc_eq_0_disj)
    then show ?thesis
      using k True i step(4,5) by (intro exI [of _ "Suc k"]) (subst evict_count.simps, simp)
  qed
qed

lemma evict_payload_spec:
  "distinct ids \<Longrightarrow> set ids = dom e \<Longrightarrow> b = payload e ids \<Longrightarrow>
   \<exists>k. evict_payload p e ids b = (e |` set (drop_oldest p k ids), drop_oldest p k ids) \<and>
     (payload e (drop_oldest p k ids) \<le> MAX_PAYLOAD_BYTES \<or> length (drop_oldest p k ids) \<le> 1) \<and>
     (\<forall>j<k. MAX_PAYLOAD_BYTES < payload e (drop_oldest p j ids) \<and> 1 < length (drop_oldest p j ids))"
proof (induction p e ids b rule: evict_payload.induct)
  case (1 p e ids b)
  show ?case
  proof (cases "MAX_PAYLOAD_BYTES < b \<and> 1 < length ids")
    case False
    then show ?thesis using 1 by (intro exI [of _ 0]) (auto simp: evict_payload.simps)
  next
    case True
    then obtain i where i: "oldestEvictable p ids = Some i"
      using oldestEvictable_exists 1 by blast
    note step = evict_step [OF "1.prems"(1,2) i]
    let ?e = "e(ids ! i := None)"
    have less: "i < length ids" by (rule oldestEvictable_less) (rule i)
    have pay: "payload ?e (drop_oldest p j (splice1 i ids)) = payload e (drop_oldest p j (splice1 i ids))" for j
    proof -
      have "ids ! i \<notin> set (drop_oldest p j (splice1 i ids))"
        using drop_oldest_subset [of p j "splice1 i ids"] set_splice1 [OF "1.prems"(1) less] by blast
      then show ?thesis
        unfolding payload_def by (intro arg_cong [of _ _ sum_list] map_cong) auto
    qed
    obtain k where k: "evict_payload p ?e (splice1 i ids) (b - entry_bytes (e (ids ! i))) =
          (?e |` set (drop_oldest p k (splice1 i ids)), drop_oldest p k (splice1 i ids))"
        "payload ?e (drop_oldest p k (splice1 i ids)) \<le> MAX_PAYLOAD_BYTES \<or>
         length (drop_oldest p k (splice1 i ids)) \<le> 1"
        "\<forall>j<k. MAX_PAYLOAD_BYTES < payload ?e (drop_oldest p j (splice1 i ids)) \<and>
               1 < length (drop_oldest p j (splice1 i ids))"
      using "1.IH" [OF True i step(1,2)] payload_splice1 [OF less "1.prems"(1)] "1.prems"(3)
      by metis
    have "\<forall>j<Suc k. MAX_PAYLOAD_BYTES < payload e (drop_oldest p j ids) \<and> 1 < length (drop_oldest p j ids)"
      using k(3) True "1.prems"(3) step(5) pay by (auto simp: less_Suc_eq_0_disj)
    then show ?thesis
      using k True i step(4,5) pay by (intro exI [of _ "Suc k"]) (subst evict_payload.simps, simp)
  qed
qed

text \<open>
  The contract of \<open>evict\<close>: the least number of oldest unprotected exchanges whose removal
  brings the store under both caps is removed, and nothing else changes.
\<close>

lemma evict_spec:
  assumes "store_wf (e, ids)"
  shows "\<exists>k. evict p (e, ids) = (e |` set (drop_oldest p k ids), drop_oldest p k ids) \<and>
     within_caps e (drop_oldest p k ids) \<and> (\<forall>j<k. \<not> within_caps e (drop_oldest p j ids))"
proof -
  have wf: "distinct ids" "set ids = dom e" using assms by (simp_all add: store_wf_def)
  obtain k where k: "evict_count p e ids = (e |` set (drop_oldest p k ids), drop_oldest p k ids)"
      "length (drop_oldest p k ids) \<le> MAX_EXCHANGES"
      "\<forall>j<k. MAX_EXCHANGES < length (drop_oldest p j ids)"
    using evict_count_spec [OF wf] by blast
  let ?ids = "drop_oldest p k ids"
  let ?e = "e |` set ?ids"
  have wf': "distinct ?ids" "set ?ids = dom ?e"
    using wf drop_oldest_subset [of p k ids] by (auto simp: drop_oldest_distinct)
  obtain j where j: "evict_payload p ?e ?ids (payload ?e ?ids) =
        (?e |` set (drop_oldest p j ?ids), drop_oldest p j ?ids)"
      "payload ?e (drop_oldest p j ?ids) \<le> MAX_PAYLOAD_BYTES \<or> length (drop_oldest p j ?ids) \<le> 1"
      "\<forall>i<j. MAX_PAYLOAD_BYTES < payload ?e (drop_oldest p i ?ids) \<and> 1 < length (drop_oldest p i ?ids)"
    using evict_payload_spec [OF wf' refl] by blast
  have pay: "payload ?e (drop_oldest p i ?ids) = payload e (drop_oldest p i ?ids)" for i
    unfolding payload_def using drop_oldest_subset [of p i ?ids]
    by (intro arg_cong [of _ _ sum_list] map_cong) auto
  have len: "length (drop_oldest p i xs) \<le> length xs" for i xs
    by (induction p i xs rule: drop_oldest.induct) auto
  have "evict p (e, ids) = (?e |` set (drop_oldest p j ?ids), drop_oldest p j ?ids)"
    by (simp add: evict_def k(1) payload_foldl j(1))
  also have "?e |` set (drop_oldest p j ?ids) = e |` set (drop_oldest p j ?ids)"
    using drop_oldest_subset [of p j ?ids] by (auto simp: restrict_map_def fun_eq_iff)
  finally have ev: "evict p (e, ids) = (e |` set (drop_oldest p (k + j) ids), drop_oldest p (k + j) ids)"
    by (simp add: drop_oldest_add)
  have within: "within_caps e (drop_oldest p (k + j) ids)"
    using j(2) pay [of j] len [of j ?ids] k(2) by (simp add: within_caps_def drop_oldest_add)
  have "\<not> within_caps e (drop_oldest p i ids)" if "i < k + j" for i
  proof (cases "i < k")
    case True
    then show ?thesis using k(3) by (auto simp: within_caps_def)
  next
    case False
    then obtain i' where i': "i = k + i'" by (metis le_Suc_ex not_less)
    then have "i' < j" using that by simp
    then show ?thesis using j(3) pay [of i'] i' by (auto simp: within_caps_def drop_oldest_add)
  qed
  with ev within show ?thesis by blast
qed

definition store_within :: "exchange_store \<Rightarrow> bool" where
  "store_within store \<longleftrightarrow> within_caps (fst store) (snd store)"

lemma within_caps_restrict: "within_caps (e |` set ids) ids \<longleftrightarrow> within_caps e ids"
proof -
  have "payload (e |` set ids) ids = payload e ids"
    unfolding payload_def by (intro arg_cong [of _ _ sum_list] map_cong) auto
  then show ?thesis by (simp add: within_caps_def)
qed

lemma evict_wf: "store_wf store \<Longrightarrow> store_wf (evict p store)"
  and evict_within: "store_wf store \<Longrightarrow> store_within (evict p store)"
  and evict_lookup: "store_wf store \<Longrightarrow>
    fst (evict p store) i = fst store i \<or> fst (evict p store) i = None"
  and evict_protected: "store_wf store \<Longrightarrow> fst (evict (Some i) store) i = fst store i"
proof -
  obtain e ids where s: "store = (e, ids)" by (cases store)
  assume wf: "store_wf store"
  obtain k where k: "evict p store = (e |` set (drop_oldest p k ids), drop_oldest p k ids)"
      "within_caps e (drop_oldest p k ids)"
    using evict_spec [of e ids p] wf s by blast
  show "store_wf (evict p store)"
    using k wf s drop_oldest_subset [of p k ids]
    by (auto simp: store_wf_def drop_oldest_distinct restrict_map_def split: if_splits)
  show "store_within (evict p store)"
    using k by (simp add: store_within_def within_caps_restrict)
  show "fst (evict p store) i = fst store i \<or> fst (evict p store) i = None"
    using k s by (simp add: restrict_map_def)
  obtain j where j: "evict (Some i) store = (e |` set (drop_oldest (Some i) j ids), drop_oldest (Some i) j ids)"
    using evict_spec [of e ids "Some i"] wf s by blast
  show "fst (evict (Some i) store) i = fst store i"
    using j wf s drop_oldest_keeps [of "Some i" i j ids]
    by (auto simp: restrict_map_def store_wf_def domIff)
qed

lemma reducer_apply_other:
  "reducer_apply P m s = Some s' \<Longrightarrow> i \<noteq> msg_id m \<Longrightarrow> fst s' i = fst s i"
  by (cases s) (auto elim!: reducer_apply_cases)

lemma reducer_apply_target:
  "reducer_apply P m s = Some s' \<Longrightarrow> fst s (msg_id m) \<noteq> None \<Longrightarrow> fst s' (msg_id m) \<noteq> None"
  by (cases s) (auto elim!: reducer_apply_cases)

interpretation rs: bounded_store "reducer_apply P" evict store_wf store_within fst msg_id
  for P :: "'a platform_scheme"
  by unfold_locales
     (simp_all add: reducer_apply_wf evict_wf evict_within evict_lookup evict_protected
       reducer_apply_other reducer_apply_target)

section \<open>Streams of body data\<close>

text \<open>The body after a sequence of \<open>BodyData\<close> events.\<close>

fun append_all :: "'a platform_scheme \<Rightarrow> BodyState \<Rightarrow> BodyData list \<Rightarrow> BodyState option" where
  "append_all P b [] = Some b"
| "append_all P b (d # ds) =
     (case appendBodyData P (Some b) d of None \<Rightarrow> None | Some b' \<Rightarrow> append_all P b' ds)"

definition data_payloads :: "BodyData list \<Rightarrow> BodyChunk list" where
  "data_payloads ds = concat (map (\<lambda>d. case bd_content d of None \<Rightarrow> [] | Some c \<Rightarrow> [bc_payload c]) ds)"

lemma append_all_plain:
  "bs_sseState b = None \<Longrightarrow>
   append_all P b (ds @ [d]) =
     Some (b\<lparr>bs_chunks := bs_chunks b @ data_payloads (ds @ [d]), bs_atEnd := bd_at_end d,
             bs_wireBytes := bd_total_bytes d\<rparr>)"
proof (induction ds arbitrary: b)
  case Nil
  then show ?case by (simp add: appendBodyData_def data_payloads_def Let_def split: option.split)
next
  case (Cons d' ds)
  obtain b' where b': "appendBodyData P (Some b) d' = Some b'" "bs_sseState b' = None"
      "bs_chunks b' = bs_chunks b @ data_payloads [d']"
      "bs_decodedBytes b' = bs_decodedBytes b" "bs_contentEncoding b' = bs_contentEncoding b"
      "bs_contentType b' = bs_contentType b"
    using Cons.prems by (simp add: appendBodyData_def data_payloads_def Let_def split: option.split)
  then show ?case
    using Cons.IH [OF b'(2)] Cons.prems by (simp add: data_payloads_def)
qed

text \<open>The text of the payloads, when every binary one is valid base64.\<close>

fun data_texts :: "'a platform_scheme \<Rightarrow> BodyData list \<Rightarrow> string list option" where
  "data_texts P [] = Some []"
| "data_texts P (d # ds) =
     (case bd_content d of
        None \<Rightarrow> data_texts P ds
      | Some c \<Rightarrow> (case chunkToText P (bc_payload c) of
          None \<Rightarrow> None | Some t \<Rightarrow> map_option ((#) t) (data_texts P ds)))"

lemma append_all_stream:
  assumes "bs_sseState b = Some s"
  shows "map_option (\<lambda>b'. (bs_sseState b', bs_chunks b')) (append_all P b ds) =
    map_option (\<lambda>ts. (Some (foldl (\<lambda>s t. applyRetention MAX_SSE_EVENTS (feedChunk P s t)) s ts), bs_chunks b))
      (data_texts P ds)"
  using assms
proof (induction ds arbitrary: b s)
  case (Cons d ds)
  show ?case
  proof (cases "bd_content d")
    case None
    with Cons show ?thesis by (simp add: appendBodyData_def feed_payload_def Let_def)
  next
    case (Some c)
    with Cons show ?thesis
      by (cases "chunkToText P (bc_payload c)")
         (simp_all add: appendBodyData_def feed_payload_def Let_def option.map_comp comp_def)
  qed
qed simp

section \<open>Properties\<close>

text \<open>
  Property C3. \<open>evict\<close> removes the least number of oldest unprotected exchanges that brings the
  store within the count cap and the payload cap, in the map and in the id list alike, and
  keeps every other exchange as it was.
\<close>

theorem evict_removes_least_oldest:
  assumes "store_wf (exchanges, ids)"
  shows "\<exists>k. evict protectedId (exchanges, ids) =
      (exchanges |` set (drop_oldest protectedId k ids), drop_oldest protectedId k ids) \<and>
    within_caps exchanges (drop_oldest protectedId k ids) \<and>
    (\<forall>j<k. \<not> within_caps exchanges (drop_oldest protectedId j ids))"
  by (rule evict_spec) (rule assms)

definition big_exchange :: "nat \<Rightarrow> nat \<Rightarrow> Exchange" where
  "big_exchange i n = (fresh_exchange i [])\<lparr>ex_responseBody := Some (empty_body\<lparr>bs_wireBytes := n\<rparr>)\<rparr>"

definition big_exchanges :: exchanges where
  "big_exchanges = [7 \<mapsto> big_exchange 7 600000000, 8 \<mapsto> big_exchange 8 5]"

lemma big_store_wf: "store_wf (big_exchanges, [7, 8])"
  by (auto simp: store_wf_def big_exchanges_def big_exchange_def fresh_exchange_def exchange_ok_def
      body_ok_def empty_body_def split: if_splits)

theorem evict_removes_least_oldest_witness:
  "\<exists>k. evict (Some 7) (big_exchanges, [7, 8]) =
      (big_exchanges |` set (drop_oldest (Some 7) k [7, 8]), drop_oldest (Some 7) k [7, 8])"
  using evict_removes_least_oldest [OF big_store_wf, of "Some 7"] by blast

text \<open>
  After \<open>evict\<close> there are at most 1024 exchanges, and either at most 512 MB of
  body bytes or a single exchange; the protected exchange is untouched, every survivor is the
  exchange it was, and a store that held something still does.
\<close>

theorem evict_caps_and_protection:
  assumes "store_wf store"
  shows "length (snd (evict p store)) \<le> 1024
    \<and> (payload (fst (evict p store)) (snd (evict p store)) \<le> 536870912 \<or> length (snd (evict p store)) \<le> 1)
    \<and> (\<forall>i. fst (evict p store) i = fst store i \<or> fst (evict p store) i = None \<and> p \<noteq> Some i)
    \<and> (snd (evict p store) = [] \<longrightarrow> snd store = [])"
proof -
  have w: "store_within (evict p store)" by (rule evict_within) (rule assms)
  have l: "fst (evict p store) i = fst store i \<or> fst (evict p store) i = None \<and> p \<noteq> Some i" for i
    using evict_lookup [OF assms, of p i] evict_protected [OF assms, of i] by auto
  have "snd (evict p store) = [] \<longrightarrow> snd store = []"
  proof (cases store)
    case (Pair e ids)
    obtain k where k: "snd (evict p store) = drop_oldest p k ids" "\<forall>j<k. \<not> within_caps e (drop_oldest p j ids)"
      using evict_spec [of e ids p] assms Pair by auto
    show ?thesis
    proof (cases k)
      case (Suc j)
      then have "\<not> within_caps e (drop_oldest p j ids)" using k(2) by simp
      then have "1 < length (drop_oldest p j ids)"
        by (auto simp: within_caps_def MAX_EXCHANGES_def not_le)
      moreover have "distinct (drop_oldest p j ids)"
        using assms Pair by (simp add: store_wf_def drop_oldest_distinct)
      ultimately have "drop_oldest p 1 (drop_oldest p j ids) \<noteq> []"
        by (intro drop_oldest_one_left)
      then show ?thesis using k Suc by (simp add: drop_oldest_add)
    qed (use k Pair in simp)
  qed
  with w l show ?thesis
    by (simp add: store_within_def within_caps_def MAX_EXCHANGES_def MAX_PAYLOAD_BYTES_def)
qed

theorem evict_caps_and_protection_witness:
  "length (snd (evict (Some 7) (big_exchanges, [7, 8]))) \<le> 1024 \<and>
   fst (evict (Some 7) (big_exchanges, [7, 8])) 7 = big_exchanges 7"
  using evict_caps_and_protection [OF big_store_wf, of "Some 7"] by (metis fst_conv)

text \<open>
  Property C14. One message changes at most the exchange it names, and keeps the store
  well-formed: ids stay distinct and in step with the map, each exchange keeps its id, and the
  order of the ids already there does not change.
\<close>

theorem reducer_apply_local:
  assumes "store_wf store" "reducer_apply P msg store = Some store'"
  shows "store_wf store' \<and> (\<forall>i. i \<noteq> msg_id msg \<longrightarrow> fst store' i = fst store i)
    \<and> (snd store' = snd store \<or> fst store (msg_id msg) = None \<and> snd store' = snd store @ [msg_id msg])"
proof -
  obtain e ids where s: "store = (e, ids)" by (cases store)
  have "snd store' = snd store \<or> fst store (msg_id msg) = None \<and> snd store' = snd store @ [msg_id msg]"
    using assms(2) unfolding s by (cases rule: reducer_apply_cases) auto
  with assms show ?thesis by (auto simp: reducer_apply_wf reducer_apply_other)
qed

definition error_message :: EventMessage where
  "error_message = \<lparr>msg_exchange = \<lparr>em_exchange_id = 4, em_timestamp = ''t''\<rparr>,
     msg_direction = DirResponse, msg_event = EvError DirResponse ''refused''\<rparr>"

definition no_platform :: platform where
  "no_platform = \<lparr>json_parse = (\<lambda>_. None), decode_utf8 = (\<lambda>_. [])\<rparr>"

theorem reducer_apply_local_witness:
  "\<exists>s. reducer_apply no_platform error_message (Map.empty, []) = Some s \<and> store_wf s \<and> snd s = [4]"
proof -
  obtain s where s: "reducer_apply no_platform error_message (Map.empty, []) = Some s" "snd s = [4]"
    by (simp add: reducer_apply_def error_message_def)
  from reducer_apply_local [OF store_wf_empty s(1)] s show ?thesis by blast
qed

text \<open>
  The chunks of a plain body accumulate in arrival order, whatever came before,
  and the end flag and the wire size are those of the last event.
\<close>

theorem plain_body_accumulates:
  assumes "bs_sseState b = None"
  shows "append_all P b (ds @ [d]) =
    Some (b\<lparr>bs_chunks := bs_chunks b @ data_payloads (ds @ [d]), bs_atEnd := bd_at_end d,
            bs_wireBytes := bd_total_bytes d\<rparr>)"
  by (rule append_all_plain) (rule assms)

theorem plain_body_accumulates_witness:
  "let d = \<lambda>t n. \<lparr>bd_content = Some \<lparr>bc_offset = 0, bc_length = 1, bc_payload = ChunkText t\<rparr>,
                  bd_trailers = None, bd_at_end = n = 2, bd_total_bytes = n\<rparr>
   in map_option bs_chunks (append_all no_platform empty_body [d ''a'' 1, d ''b'' 2])
      = Some [ChunkText ''a'', ChunkText ''b'']"
proof -
  have "bs_sseState empty_body = None" by (simp add: empty_body_def)
  from plain_body_accumulates [OF this, of no_platform "[d]" d' for d d']
  show ?thesis by (simp add: data_payloads_def empty_body_def)
qed

text \<open>
  An event-stream body keeps no chunks, and its events depend only on the text
  received: whatever the chunking, the stream state is that of the whole text, fed once and
  trimmed once.
\<close>

theorem stream_body_accumulates:
  assumes "bs_sseState b = Some createSSEStreamState" "bs_chunks b = []"
    and "data_texts P ds = Some ts" "append_all P b ds = Some b'"
  shows "bs_chunks b' = [] \<and> bs_sseState b' =
    Some (applyRetention MAX_SSE_EVENTS (feedChunk P createSSEStreamState (concat ts)))"
  using append_all_stream [OF assms(1), of P ds] assms(2-4)
  by (simp add: sse.run_retained_init)

theorem stream_body_accumulates_witness:
  "let d = \<lambda>t. \<lparr>bd_content = Some \<lparr>bc_offset = 0, bc_length = 1, bc_payload = ChunkText t\<rparr>,
                  bd_trailers = None, bd_at_end = True, bd_total_bytes = 1\<rparr>;
       b = empty_body\<lparr>bs_sseState := Some createSSEStreamState\<rparr>
   in \<exists>b'. append_all no_platform b [d ''data'', d '':1''] = Some b' \<and>
        bs_sseState b' = Some (applyRetention MAX_SSE_EVENTS
          (feedChunk no_platform createSSEStreamState (concat [''data'', '':1''])))"
proof -
  let ?d = "\<lambda>t. \<lparr>bd_content = Some \<lparr>bc_offset = 0, bc_length = 1, bc_payload = ChunkText t\<rparr>,
                  bd_trailers = None, bd_at_end = True, bd_total_bytes = 1\<rparr>"
  let ?b = "empty_body\<lparr>bs_sseState := Some createSSEStreamState\<rparr>"
  have h: "bs_sseState ?b = Some createSSEStreamState" "bs_chunks ?b = []"
    "data_texts no_platform [?d ''data'', ?d '':1''] = Some [''data'', '':1'']"
    by (simp_all add: empty_body_def)
  obtain b' where b': "append_all no_platform ?b [?d ''data'', ?d '':1''] = Some b'"
    by (simp add: appendBodyData_def feed_payload_def empty_body_def Let_def)
  from stream_body_accumulates [OF h b'] b' show ?thesis by (simp add: Let_def)
qed

text \<open>
  When the reducer throws: the payload of a message is a malformed binary chunk and the body it
  belongs to is an event stream.
\<close>

fun malformed_chunk :: "BodyChunk \<Rightarrow> bool" where
  "malformed_chunk (ChunkBinary b) \<longleftrightarrow> atob b = None"
| "malformed_chunk (ChunkText t) \<longleftrightarrow> False"

definition malformed_data :: "BodyData \<Rightarrow> bool" where
  "malformed_data d \<longleftrightarrow> (case bd_content d of None \<Rightarrow> False | Some c \<Rightarrow> malformed_chunk (bc_payload c))"

definition streams :: "BodyState option \<Rightarrow> bool" where
  "streams b \<longleftrightarrow> (case b of None \<Rightarrow> False | Some x \<Rightarrow> bs_sseState x \<noteq> None)"

fun event_malformed :: "Exchange option \<Rightarrow> Direction \<Rightarrow> Event \<Rightarrow> bool" where
  "event_malformed prev dir (EvRequest m u v headers (Data d)) \<longleftrightarrow>
     isSSEContentType (getHeader headers ''content-type'') \<and> malformed_data d"
| "event_malformed prev dir (EvResponse st v headers el (Data d)) \<longleftrightarrow>
     isSSEContentType (getHeader headers ''content-type'') \<and> malformed_data d"
| "event_malformed prev dir (EvBodyData d) \<longleftrightarrow>
     (case prev of None \<Rightarrow> False
      | Some ex \<Rightarrow> streams (case dir of DirRequest \<Rightarrow> ex_requestBody ex | DirResponse \<Rightarrow> ex_responseBody ex))
     \<and> malformed_data d"
| "event_malformed prev dir e \<longleftrightarrow> False"

lemma chunkToText_None: "chunkToText P c = None \<longleftrightarrow> malformed_chunk c"
  by (cases c) auto

lemma feed_payload_None: "feed_payload P s (bd_content d) = None \<longleftrightarrow> malformed_data d"
  by (auto simp: feed_payload_def malformed_data_def chunkToText_None split: option.split)

lemma appendBodyData_None: "appendBodyData P b d = None \<longleftrightarrow> streams b \<and> malformed_data d"
  by (cases b)
     (auto simp: appendBodyData_def streams_def feed_payload_None empty_body_def Let_def split: option.split)

lemma initialBodyToState_None:
  "initialBodyToState P body headers = None \<longleftrightarrow>
   (\<exists>d. body = Data d \<and> isSSEContentType (getHeader headers ''content-type'') \<and> malformed_data d)"
proof (cases body)
  case (Data d)
  then show ?thesis
    by (cases "isSSEContentType (getHeader headers ''content-type'')")
       (simp_all add: Let_def feed_payload_None)
qed (simp_all add: Let_def)

lemma update_exchange_None:
  "update_exchange P (case prev of None \<Rightarrow> fresh_exchange i t | Some p \<Rightarrow> p) dir ev = None
   \<longleftrightarrow> event_malformed prev dir ev"
proof (cases ev)
  case (EvRequest m u v h b)
  then show ?thesis by (cases b) (auto simp: initialBodyToState_None simp del: initialBodyToState.simps)
next
  case (EvResponse st v h el b)
  then show ?thesis by (cases b) (auto simp: initialBodyToState_None simp del: initialBodyToState.simps)
next
  case (EvBodyData d)
  then show ?thesis
    by (cases prev; cases dir) (auto simp: appendBodyData_None fresh_exchange_def streams_def)
qed auto

text \<open>
  Property C15. \<open>apply\<close> throws exactly on a malformed base64 chunk of an event stream; in
  every other case it returns a store.
\<close>

theorem reducer_apply_throws_iff:
  "reducer_apply P msg (exchanges, ids) = None \<longleftrightarrow>
   event_malformed (exchanges (msg_id msg)) (msg_direction msg) (msg_event msg)"
proof -
  have "reducer_apply P msg (exchanges, ids) = None \<longleftrightarrow>
      update_exchange P (case exchanges (msg_id msg) of None \<Rightarrow>
        fresh_exchange (msg_id msg) (em_timestamp (msg_exchange msg)) | Some p \<Rightarrow> p)
        (msg_direction msg) (msg_event msg) = None"
    by (simp add: reducer_apply_def Let_def split: option.split)
  then show ?thesis
    by (simp only: update_exchange_None)
qed

text \<open>
  The trace id of a request is the field between the first two dashes of its
  \<open>traceparent\<close> header, found under any capitalisation of the name and before any later
  header of that name.
\<close>

theorem request_trace_id:
  assumes "msg_event msg = EvRequest rmethod uri version (before @ h # after) NoBody"
    and "\<forall>g\<in>set before. toLowerCase (h_name g) \<noteq> ''traceparent''"
    and "toLowerCase (h_name h) = ''traceparent''"
    and "h_value h = ver @ ''-'' @ trace @ ''-'' @ rest"
    and "CHR ''-'' \<notin> set ver" "CHR ''-'' \<notin> set trace"
  shows "\<exists>s x. reducer_apply P msg store = Some s \<and> fst s (msg_id msg) = Some x \<and> ex_traceId x = Some trace"
proof -
  have l: "toLowerCase ''traceparent'' = ''traceparent''"
    by (simp add: char_eval)
  have "find (\<lambda>g. toLowerCase (h_name g) = ''traceparent'') (before @ h # after) = Some h"
    using assms(2,3) by (induction before) auto
  then have "getHeader (before @ h # after) ''traceparent'' = Some (h_value h)"
    by (simp add: getHeader_def l)
  moreover have "split_on (CHR ''-'') (h_value h) = ver # trace # split_on (CHR ''-'') rest"
    using assms(4-6) by (simp add: split_on_append_sep)
  moreover have "h_value h \<noteq> []" using assms(4) by simp
  moreover have "split_on (CHR ''-'') rest \<noteq> []" by simp
  ultimately have "traceparent_id (before @ h # after) = Some trace"
    by (simp add: traceparent_id_def Let_def)
  then show ?thesis
    using assms(1) by (cases store) (simp add: reducer_apply_def Let_def split: option.split)
qed

definition trace_message :: EventMessage where
  "trace_message = \<lparr>msg_exchange = \<lparr>em_exchange_id = 4, em_timestamp = ''t''\<rparr>,
     msg_direction = DirRequest,
     msg_event = EvRequest ''GET'' ''/'' ''HTTP/1.1''
       ([\<lparr>h_name = ''Accept'', h_value = ''a''\<rparr>] @
        \<lparr>h_name = ''TraceParent'', h_value = ''00-4bf9-00f0-01''\<rparr> # []) NoBody\<rparr>"

theorem request_trace_id_witness:
  "\<exists>s x. reducer_apply no_platform trace_message (Map.empty, []) = Some s \<and>
     fst s (msg_id trace_message) = Some x \<and> ex_traceId x = Some ''4bf9''"
proof (rule request_trace_id)
  show "msg_event trace_message = EvRequest ''GET'' ''/'' ''HTTP/1.1''
       ([\<lparr>h_name = ''Accept'', h_value = ''a''\<rparr>] @
        \<lparr>h_name = ''TraceParent'', h_value = ''00-4bf9-00f0-01''\<rparr> # []) NoBody"
    by (simp add: trace_message_def)
  show "\<forall>g\<in>set [\<lparr>h_name = ''Accept'', h_value = ''a''\<rparr>]. toLowerCase (h_name g) \<noteq> ''traceparent''"
    "toLowerCase (h_name \<lparr>h_name = ''TraceParent'', h_value = ''00-4bf9-00f0-01''\<rparr>) = ''traceparent''"
    by (simp_all add: char_eval)
  show "h_value \<lparr>h_name = ''TraceParent'', h_value = ''00-4bf9-00f0-01''\<rparr> =
      ''00'' @ ''-'' @ ''4bf9'' @ ''-'' @ ''00f0-01''"
    "CHR ''-'' \<notin> set ''00''" "CHR ''-'' \<notin> set ''4bf9''"
    by simp_all
qed

end
