(* ===== verification/Format.thy ===== *)
theory Format
  imports Prelude
begin

text \<open>
  The display formatters, \<open>lib/format.ts\<close>.

  \<open>fmtBytes\<close>: a byte count is a natural number below 2^53, so the divisions by 1024 are exact and
  a value is the fraction \<open>n / d\<close>; \<open>toFixed(1)\<close> is the number of tenths nearest to it, ties up.
  \<open>fmtMs\<close>: the division by 1000 is not exact; \<open>double_div\<close> is its correctly rounded binary64
  result, from which \<open>toFixed(1)\<close> is taken. \<open>fmtClock\<close>: an epoch time is an \<open>int option\<close>, \<open>None\<close>
  for NaN, and the host's time zone is a parameter.

  Shown: the size text always names a value below 1024.0 (up to the last unit), the duration
  text is within 51 ms of the duration, and the clock text has a fixed shape.
\<close>

section \<open>Fixed-point output\<close>

text \<open>\<open>(n / d).toFixed(1)\<close>, as a number of tenths and as text.\<close>

definition tenths :: "nat \<Rightarrow> nat \<Rightarrow> nat" where
  "tenths n d = (20 * n + d) div (2 * d)"

definition show_tenths :: "nat \<Rightarrow> string" where
  "show_tenths t = showNat (t div 10) @ ''.'' @ showNat (t mod 10)"

lemma tenths_bounds: "0 < d \<Longrightarrow> 20 * n < 2 * d * tenths n d + d \<and> 2 * d * tenths n d \<le> 20 * n + d"
proof -
  assume d: "0 < d"
  let ?a = "20 * n + d"
  have "?a = 2 * d * (?a div (2 * d)) + ?a mod (2 * d)" by (rule mult_div_mod_eq [symmetric])
  moreover have "?a mod (2 * d) < 2 * d" using d by simp
  ultimately show ?thesis unfolding tenths_def by linarith
qed

lemma tenths_less: "0 < d \<Longrightarrow> 20 * n + d < 2 * d * k \<Longrightarrow> tenths n d < k"
  by (simp add: tenths_def div_less_iff_less_mult mult.commute)

section \<open>Byte sizes\<close>

definition size_units :: "string list" where
  "size_units = [''KB'', ''MB'', ''GB'', ''TB'']"

text \<open>The scaling loop: \<open>value\<close> is \<open>n / d\<close>, \<open>i\<close> the index of its unit.\<close>

function fmtBytes_scale :: "nat \<Rightarrow> nat \<Rightarrow> nat \<Rightarrow> nat \<times> nat" where
  "fmtBytes_scale n d i =
     (if 1024 * d \<le> n \<and> i < length size_units - 1 then fmtBytes_scale n (d * 1024) (i + 1) else (d, i))"
  by pat_completeness auto
termination by (relation "measure (\<lambda>(n, d, i). length size_units - 1 - i)") auto

declare fmtBytes_scale.simps [simp del]

text \<open>The roll-up of a value that rounds to 1024.0.\<close>

definition fmtBytes_rollup :: "nat \<Rightarrow> nat \<Rightarrow> nat \<Rightarrow> nat \<times> nat" where
  "fmtBytes_rollup n d i =
     (if 10240 \<le> tenths n d \<and> i < length size_units - 1 then (d * 1024, i + 1) else (d, i))"

definition fmtBytes :: "nat \<Rightarrow> string" where
  "fmtBytes n =
     (if n < 1024 then showNat n @ '' B''
      else let (d0, i0) = fmtBytes_scale n 1024 0;
               (d, i) = fmtBytes_rollup n d0 i0
           in show_tenths (tenths n d) @ '' '' @ size_units ! i)"

lemma fmtBytes_scale_spec:
  "fmtBytes_scale n d i = (d', i') \<Longrightarrow> i \<le> 3 \<Longrightarrow> d \<le> n \<Longrightarrow> d = 1024 ^ (i + 1) \<Longrightarrow>
   d' = 1024 ^ (i' + 1) \<and> i \<le> i' \<and> i' \<le> 3 \<and> d' \<le> n \<and> (i' < 3 \<longrightarrow> n < 1024 * d')"
proof (induction n d i rule: fmtBytes_scale.induct)
  case (1 n d i)
  show ?case
  proof (cases "1024 * d \<le> n \<and> i < length size_units - 1")
    case True
    then have r: "fmtBytes_scale n (d * 1024) (i + 1) = (d', i')"
      using "1.prems"(1) by (subst (asm) fmtBytes_scale.simps) simp
    have "d' = 1024 ^ (i' + 1) \<and> i + 1 \<le> i' \<and> i' \<le> 3 \<and> d' \<le> n \<and> (i' < 3 \<longrightarrow> n < 1024 * d')"
      by (rule "1.IH" [OF True r]) (use True "1.prems" in \<open>simp_all add: size_units_def mult.commute\<close>)
    then show ?thesis by linarith
  next
    case False
    then show ?thesis using "1.prems" by (subst (asm) fmtBytes_scale.simps) (auto simp: size_units_def)
  qed
qed

text \<open>The unit and the tenths a size of at least 1024 is shown with.\<close>

definition fmtBytes_parts :: "nat \<Rightarrow> nat \<times> nat" where
  "fmtBytes_parts n =
     (let (d0, i0) = fmtBytes_scale n 1024 0; (d, i) = fmtBytes_rollup n d0 i0 in (tenths n d, i))"

lemma fmtBytes_eq:
  "fmtBytes n = (if n < 1024 then showNat n @ '' B''
     else show_tenths (fst (fmtBytes_parts n)) @ '' '' @ size_units ! snd (fmtBytes_parts n))"
  by (simp add: fmtBytes_def fmtBytes_parts_def Let_def split: prod.split)

lemma fmtBytes_parts_spec:
  assumes "1024 \<le> n" "fmtBytes_parts n = (t, i)"
  shows "i \<le> 3 \<and> 10 \<le> t \<and> (i < 3 \<longrightarrow> t < 10240) \<and> t = tenths n (1024 ^ (i + 1))"
proof -
  obtain d0 i0 where s: "fmtBytes_scale n 1024 0 = (d0, i0)" by fastforce
  obtain d where r: "fmtBytes_rollup n d0 i0 = (d, i)" "t = tenths n d"
    using assms(2) s by (auto simp: fmtBytes_parts_def Let_def split: prod.splits)
  have sp: "d0 = 1024 ^ (i0 + 1)" "i0 \<le> 3" "d0 \<le> n" "i0 < 3 \<longrightarrow> n < 1024 * d0"
    using fmtBytes_scale_spec [OF s] assms(1) by auto
  have pos: "0 < d0" using sp(1) by simp
  show ?thesis
  proof (cases "10240 \<le> tenths n d0 \<and> i0 < 3")
    case True
    then have di: "d = d0 * 1024" "i = i0 + 1"
      using r(1) by (auto simp: fmtBytes_rollup_def size_units_def)
    have n: "n < 1024 * d0" using sp(4) True by simp
    have "2 * d0 * 10240 \<le> 20 * n + d0"
      using tenths_bounds [OF pos, of n] True
      by (meson le_trans mult_le_mono2 order.trans)
    then have "20 * d \<le> 20 * n + d" using di by simp
    then have "10 \<le> t"
      using r(2) di pos by (simp add: tenths_def less_eq_div_iff_mult_less_eq)
    moreover have "t < 10240"
      unfolding r(2) using n di pos by (intro tenths_less) auto
    ultimately show ?thesis using di True sp(1) r(2) by simp
  next
    case False
    then have di: "d = d0" "i = i0" using r(1) by (auto simp: fmtBytes_rollup_def size_units_def)
    have "10 \<le> t" using r(2) di pos sp(3) by (simp add: tenths_def less_eq_div_iff_mult_less_eq)
    then show ?thesis using False di sp r(2) by auto
  qed
qed

section \<open>Durations\<close>

text \<open>
  The binary64 quotient of two naturals with \<open>d \<le> n < 2^53\<close>: a 53-bit significand over a power
  of two, rounded to nearest, ties to even.
\<close>

function double_shift :: "nat \<Rightarrow> nat \<Rightarrow> nat \<Rightarrow> nat" where
  "double_shift n d s = (if n * 2 ^ s < d * 2 ^ 52 \<and> s < 52 then double_shift n d (s + 1) else s)"
  by pat_completeness auto
termination by (relation "measure (\<lambda>(n, d, s). 52 - s)") auto

declare double_shift.simps [simp del]

definition round_even :: "nat \<Rightarrow> nat \<Rightarrow> nat" where
  "round_even n d = (let q = n div d; r = n mod d in
     if 2 * r < d then q else if d < 2 * r then q + 1 else if even q then q else q + 1)"

definition double_div :: "nat \<Rightarrow> nat \<Rightarrow> nat \<times> nat" where
  "double_div n d = (let s = double_shift n d 0 in (round_even (n * 2 ^ s) d, 2 ^ s))"

text \<open>The elapsed time the proxy sends is a whole number of milliseconds.\<close>

definition fmtMs :: "nat option \<Rightarrow> glyph list" where
  "fmtMs ms = (case ms of
     None \<Rightarrow> [em_dash]
   | Some m \<Rightarrow> if m < 1000 then lat (showNat m @ '' ms'')
       else (let (q, p) = double_div m 1000 in lat (show_tenths (tenths q p) @ '' s'')))"

lemma round_even_bounds: "0 < d \<Longrightarrow> 2 * d * round_even n d \<le> 2 * n + d \<and> 2 * n \<le> 2 * d * round_even n d + d"
proof -
  assume d: "0 < d"
  define q r where "q = n div d" and "r = n mod d"
  have "n = d * q + r" by (simp add: q_def r_def)
  moreover have "r < d" using d by (simp add: r_def)
  moreover have "round_even n d = (if 2 * r < d then q else if d < 2 * r then q + 1
      else if even q then q else q + 1)"
    by (simp add: round_even_def q_def r_def Let_def)
  ultimately show ?thesis by (auto simp: algebra_simps)
qed

lemma double_shift_spec:
  "s \<le> 52 \<Longrightarrow> d \<le> n \<Longrightarrow> double_shift n d s \<le> 52 \<and> d * 2 ^ 52 \<le> n * 2 ^ double_shift n d s"
proof (induction n d s rule: double_shift.induct)
  case (1 n d s)
  show ?case
  proof (cases "n * 2 ^ s < d * 2 ^ 52 \<and> s < 52")
    case True
    then show ?thesis using "1.IH" [OF True] "1.prems" by (subst (1 2) double_shift.simps) simp
  next
    case False
    then have "double_shift n d s = s" by (subst double_shift.simps) (rule if_not_P)
    moreover have "d * 2 ^ 52 \<le> n * 2 ^ s"
      using False "1.prems" by (cases "s < 52") auto
    ultimately show ?thesis using "1.prems" by simp
  qed
qed

text \<open>The shown tenths of a second are the nearest to the duration, in milliseconds.\<close>

lemma double_div_tenths:
  assumes "1000 \<le> m" "m < 2 ^ 53" "double_div m 1000 = (q, p)"
  shows "100 * tenths q p \<le> m + 50 \<and> m \<le> 100 * tenths q p + 50"
proof -
  define t where "t = tenths q p"
  obtain s where s: "s = double_shift m 1000 0" "p = 2 ^ s" "q = round_even (m * p) 1000"
    using assms(3) by (auto simp: double_div_def Let_def)
  have "1000 * 2 ^ 52 \<le> m * p"
    using double_shift_spec [of 0 1000 m] assms(1) s by simp
  also have "\<dots> < 2 ^ 53 * p" using assms(2) s(2) by simp
  finally have p: "500 < p" by simp
  have q: "2000 * q \<le> 2 * (m * p) + 1000" "2 * (m * p) \<le> 2000 * q + 1000"
    using round_even_bounds [of 1000 "m * p"] s(3) by simp_all
  have t: "20 * q < 2 * p * t + p" "2 * p * t \<le> 20 * q + p"
    using tenths_bounds [of p q] p by (simp_all add: t_def)
  have "p * (200 * t) < p * (2 * m + 102)"
    using q(1) t(2) p by (simp add: algebra_simps)
  moreover have "p * (2 * m) < p * (200 * t + 102)"
    using q(2) t(1) p by (simp add: algebra_simps)
  ultimately have "200 * t < 2 * m + 102" "2 * m < 200 * t + 102"
    by (simp_all only: mult_less_cancel1)
  then show ?thesis by (simp add: t_def)
qed


section \<open>Clock times\<close>

datatype TimeZone = local_tz | utc_tz

text \<open>
  \<open>new Date(t)\<close>: times beyond 8.64e15 ms are NaN. The fields of a time in UTC; a local field is
  the UTC field of the time shifted by the host's offset.
\<close>

definition time_clip :: "int option \<Rightarrow> int option" where
  "time_clip t = (case t of None \<Rightarrow> None | Some x \<Rightarrow> if \<bar>x\<bar> \<le> 8640000000000000 then Some x else None)"

definition clock_fields :: "int \<Rightarrow> int \<times> int \<times> int \<times> int" where
  "clock_fields t = ((t div 3600000) mod 24, (t div 60000) mod 60, (t div 1000) mod 60, t mod 1000)"

text \<open>\<open>String(v).padStart(width, "0")\<close> of a field, \<open>None\<close> for NaN.\<close>

definition pad_field :: "nat \<Rightarrow> int option \<Rightarrow> string" where
  "pad_field width v = padStart width (CHR ''0'') (case v of None \<Rightarrow> ''NaN'' | Some x \<Rightarrow> showNat (nat x))"

definition fmtClock :: "(int \<Rightarrow> int) \<Rightarrow> int option \<Rightarrow> TimeZone \<Rightarrow> string" where
  "fmtClock offset epochMs tz =
     (let d = time_clip epochMs;
          fields = map_option (\<lambda>t. clock_fields (case tz of utc_tz \<Rightarrow> t | local_tz \<Rightarrow> t + offset t)) d;
          h = map_option fst fields; m = map_option (\<lambda>f. fst (snd f)) fields;
          s = map_option (\<lambda>f. fst (snd (snd f))) fields; ms = map_option (\<lambda>f. snd (snd (snd f))) fields
      in pad_field 2 h @ '':'' @ pad_field 2 m @ '':'' @ pad_field 2 s @ ''.'' @ pad_field 3 ms)"

lemma pad_field_length:
  "0 \<le> v \<Longrightarrow> v < 10 ^ w \<Longrightarrow> 0 < w \<Longrightarrow> length (pad_field w (Some v)) = w"
proof -
  assume "0 \<le> v" "v < 10 ^ w" "0 < w"
  then have "nat v < 10 ^ w" by (simp add: nat_less_iff)
  then have "length (showNat (nat v)) \<le> w"
    unfolding showNat_def using \<open>0 < w\<close> by (intro toRadix_length) simp_all
  then show ?thesis by (simp add: pad_field_def padStart_exact)
qed

lemma clock_recompose:
  "t = 1000 * s1 + ms \<Longrightarrow> s1 = 60 * m1 + s \<Longrightarrow> m1 = 60 * h1 + m \<Longrightarrow> h1 = 24 * d + h \<Longrightarrow>
   t = ((d * 24 + h) * 60 + m) * 60000 + s * 1000 + ms"
  for t :: int
  by simp

lemma clock_fields_range:
  "clock_fields t = (h, m, s, ms) \<Longrightarrow>
   0 \<le> h \<and> h < 24 \<and> 0 \<le> m \<and> m < 60 \<and> 0 \<le> s \<and> s < 60 \<and> 0 \<le> ms \<and> ms < 1000
   \<and> (\<exists>day. t = ((day * 24 + h) * 60 + m) * 60000 + s * 1000 + ms)"
proof -
  assume "clock_fields t = (h, m, s, ms)"
  then have f: "h = (t div 3600000) mod 24" "m = (t div 60000) mod 60" "s = (t div 1000) mod 60"
    "ms = t mod 1000"
    by (simp_all add: clock_fields_def)
  have d: "t div 60000 = t div 1000 div 60" "t div 3600000 = t div 1000 div 60 div 60"
    using zdiv_zmult2_eq [of 60 t 1000] zdiv_zmult2_eq [of 60 t 60000] by simp_all
  have "t = ((t div 1000 div 60 div 60 div 24 * 24 + h) * 60 + m) * 60000 + s * 1000 + ms"
    unfolding f d by (rule clock_recompose [OF _ _ _ _]) (simp_all only: mult_div_mod_eq)
  then have "\<exists>day. t = ((day * 24 + h) * 60 + m) * 60000 + s * 1000 + ms" by blast
  moreover have "0 \<le> h \<and> h < 24 \<and> 0 \<le> m \<and> m < 60 \<and> 0 \<le> s \<and> s < 60 \<and> 0 \<le> ms \<and> ms < 1000"
    unfolding f by simp
  ultimately show ?thesis by blast
qed

section \<open>Media types\<close>

definition mediaTypeSlug :: "string \<Rightarrow> string" where
  "mediaTypeSlug full =
     (let base = toLowerCase (trim (hd (split_on (CHR '';'') full)))
      in case indexOf base (CHR ''/'') of
           None \<Rightarrow> base
         | Some slash \<Rightarrow>
             let subtype = drop (slash + 1) base
             in case lastIndexOf subtype (CHR ''+'') of
                  None \<Rightarrow> subtype
                | Some p \<Rightarrow> if p < length subtype - 1 then drop (p + 1) subtype else subtype)"

section \<open>Properties\<close>

text \<open>
  A size of at least 1024 bytes is shown in the unit of its magnitude with a
  value that is the nearest tenth, at least 1.0, and below 1024.0 in every unit but the last.
\<close>

theorem fmtBytes_bounded_width:
  assumes "1024 \<le> n"
  shows "\<exists>t i. fmtBytes n = show_tenths t @ '' '' @ size_units ! i \<and> i < length size_units
    \<and> 10 \<le> t \<and> (i < 3 \<longrightarrow> t < 10240) \<and> \<bar>2 * int t * 1024 ^ (i + 1) - 20 * int n\<bar> \<le> 1024 ^ (i + 1)"
proof -
  obtain t i where p: "fmtBytes_parts n = (t, i)" by fastforce
  note sp = fmtBytes_parts_spec [OF assms p]
  let ?d = "(1024 :: nat) ^ (i + 1)"
  have "20 * n < 2 * ?d * t + ?d" "2 * ?d * t \<le> 20 * n + ?d"
    using tenths_bounds [of ?d n] sp by simp_all
  then have "int (20 * n) < int (2 * ?d * t + ?d)" "int (2 * ?d * t) \<le> int (20 * n + ?d)"
    by (simp_all only: of_nat_less_iff of_nat_le_iff)
  then have "\<bar>2 * int t * 1024 ^ (i + 1) - 20 * int n\<bar> \<le> 1024 ^ (i + 1)"
    by (simp add: abs_le_iff mult_ac)
  moreover have "fmtBytes n = show_tenths t @ '' '' @ size_units ! i"
    using p assms by (simp add: fmtBytes_eq)
  moreover have "i < length size_units" "10 \<le> t" "i < 3 \<longrightarrow> t < 10240"
    using sp by (auto simp: size_units_def)
  ultimately show ?thesis by blast
qed

theorem fmtBytes_bounded_width_witness:
  "\<exists>t i. fmtBytes 1048575 = show_tenths t @ '' '' @ size_units ! i \<and> i < length size_units"
  using fmtBytes_bounded_width [of 1048575] by auto

text \<open>
  A known duration of a second or more, below 2^53 ms, is shown in seconds with the
  tenth nearest to it, although the quotient is rounded to a binary64 value first.
\<close>

theorem fmtMs_nearest_tenth:
  assumes "1000 \<le> m" "m < 2 ^ 53"
  shows "\<exists>t. fmtMs (Some m) = lat (show_tenths t @ '' s'') \<and> 100 * t \<le> m + 50 \<and> m \<le> 100 * t + 50"
proof -
  obtain q p where qp: "double_div m 1000 = (q, p)" by fastforce
  show ?thesis
    using double_div_tenths [OF assms qp] assms(1) qp
    by (intro exI [of _ "tenths q p"]) (simp add: fmtMs_def)
qed

theorem fmtMs_nearest_tenth_witness:
  "\<exists>t. fmtMs (Some 1150) = lat (show_tenths t @ '' s'') \<and> 100 * t \<le> 1200 \<and> 1150 \<le> 100 * t + 50"
  using fmtMs_nearest_tenth [of 1150] by simp

text \<open>
  A clock text of a valid time is \<open>HH:MM:SS.mmm\<close>, twelve characters, and in UTC
  its fields denote the time up to whole days.
\<close>

theorem fmtClock_shape:
  assumes "\<bar>t\<bar> \<le> 8640000000000000"
  shows "\<exists>h m s ms. fmtClock offset (Some t) tz =
      pad_field 2 (Some h) @ '':'' @ pad_field 2 (Some m) @ '':'' @ pad_field 2 (Some s) @ ''.'' @ pad_field 3 (Some ms)
    \<and> length (fmtClock offset (Some t) tz) = 12
    \<and> 0 \<le> h \<and> h < 24 \<and> 0 \<le> m \<and> m < 60 \<and> 0 \<le> s \<and> s < 60 \<and> 0 \<le> ms \<and> ms < 1000
    \<and> (tz = utc_tz \<longrightarrow> (\<exists>day. t = ((day * 24 + h) * 60 + m) * 60000 + s * 1000 + ms))"
proof -
  let ?t = "case tz of utc_tz \<Rightarrow> t | local_tz \<Rightarrow> t + offset t"
  obtain h m s ms where f: "clock_fields ?t = (h, m, s, ms)" by (metis prod_cases4)
  note r = clock_fields_range [OF f]
  have e: "fmtClock offset (Some t) tz = pad_field 2 (Some h) @ '':'' @ pad_field 2 (Some m) @ '':'' @
      pad_field 2 (Some s) @ ''.'' @ pad_field 3 (Some ms)"
    using f assms by (simp add: fmtClock_def time_clip_def Let_def)
  have "length (fmtClock offset (Some t) tz) = 12"
    unfolding e using r by (simp add: pad_field_length)
  with e r show ?thesis
    by (intro exI [of _ h] exI [of _ m] exI [of _ s] exI [of _ ms]) (auto split: TimeZone.splits)
qed

theorem fmtClock_shape_witness:
  "length (fmtClock (\<lambda>_. 3600000) (Some 1700000000123) local_tz) = 12"
  using fmtClock_shape [of 1700000000123 "\<lambda>_. 3600000" local_tz] by auto

end
