(* ===== verification/Utils.thy ===== *)
theory Utils
  imports Format Exchange_Types
begin

text \<open>
  \<open>lib/utils.ts\<close>: the list filter, status and method classes, relative times, URI splitting and
  the header utilities (pinning, filtering, masking, Basic credentials). A CSS class string is
  the string itself. \<open>getTime\<close>, the parameter of the time formatters, is the host's
  \<open>new Date(timestamp).getTime()\<close>, \<open>None\<close> for NaN.

  Shown: the filter is case-insensitive substring search; pinning is a stable partition; a
  masked credential does not depend on the hidden part of the header.
\<close>

section \<open>Numbers in strings\<close>

definition is_digit :: "char \<Rightarrow> bool" where
  "is_digit c = (let n = charCode c in 48 \<le> n \<and> n \<le> 57)"

definition digits_value :: "string \<Rightarrow> nat" where
  "digits_value ds = foldl (\<lambda>n c. n * 10 + (charCode c - 48)) 0 ds"

text \<open>\<open>parseInt(s, 10)\<close>: leading white space, a sign, the longest run of digits; \<open>None\<close> for NaN.\<close>

definition parseInt10 :: "string \<Rightarrow> int option" where
  "parseInt10 s =
     (let t = trimStart s;
          (neg, u) = (case t of c # r \<Rightarrow> if c = CHR ''-'' then (True, r)
                                        else if c = CHR ''+'' then (False, r) else (False, t)
                       | [] \<Rightarrow> (False, []));
          ds = takeWhile is_digit u
      in if ds = [] then None
         else Some (if neg then - int (digits_value ds) else int (digits_value ds)))"

section \<open>Encodings, statuses, methods\<close>

definition shortEncoding :: "string option \<Rightarrow> string option" where
  "shortEncoding encoding =
     (case encoding of
        None \<Rightarrow> None
      | Some e \<Rightarrow> if e = [] then None
          else let lower = trim (toLowerCase e)
               in if lower = [] \<or> lower = ''identity'' then None else Some lower)"

datatype StatusClass = sc_ok | sc_redir | sc_cli | sc_srv | sc_pending | sc_err

definition statusClass :: "string option \<Rightarrow> StatusClass" where
  "statusClass status =
     (case status of
        None \<Rightarrow> sc_pending
      | Some s \<Rightarrow> (case parseInt10 s of
          None \<Rightarrow> sc_err
        | Some code \<Rightarrow> if 500 \<le> code then sc_srv
            else if 400 \<le> code then sc_cli
            else if 300 \<le> code then sc_redir
            else sc_ok))"

definition methodBadgeClass :: "string \<Rightarrow> string" where
  "methodBadgeClass rmethod =
     (let m = toUpperCase rmethod in
      if m = ''GET'' then ''bg-method-get-bg text-method-get''
      else if m = ''POST'' then ''bg-method-post-bg text-method-post''
      else if m = ''PUT'' then ''bg-method-put-bg text-method-put''
      else if m = ''PATCH'' then ''bg-method-patch-bg text-method-patch''
      else if m = ''DELETE'' then ''bg-method-delete-bg text-method-delete''
      else if m = ''HEAD'' then ''bg-method-head-bg text-method-head''
      else if m = ''OPTIONS'' then ''bg-method-options-bg text-method-options''
      else ''bg-secondary text-muted-foreground'')"

text \<open>A comparison with NaN is false.\<close>

definition code_in :: "int option \<Rightarrow> int \<Rightarrow> int \<Rightarrow> bool" where
  "code_in code lo hi = (case code of None \<Rightarrow> False | Some c \<Rightarrow> lo \<le> c \<and> c < hi)"

definition statusTextClass :: "string \<Rightarrow> string" where
  "statusTextClass status =
     (let code = parseInt10 status in
      if code_in code 200 300 then ''text-ok''
      else if code_in code 300 400 then ''text-redirect''
      else ''text-error'')"

definition statusChipClass :: "string \<Rightarrow> string" where
  "statusChipClass status =
     (let code = parseInt10 status in
      if code_in code 200 300 then ''border-ok text-ok''
      else if code_in code 300 400 then ''border-redirect text-redirect''
      else ''border-error text-error'')"

section \<open>Times\<close>

text \<open>\<open>String\<close> of a whole number.\<close>

definition showInt :: "int \<Rightarrow> string" where
  "showInt n = (if n < 0 then ''-'' @ showNat (nat (- n)) else showNat (nat n))"

definition formatRelative :: "(string \<Rightarrow> int option) \<Rightarrow> string \<Rightarrow> int \<Rightarrow> string" where
  "formatRelative getTime timestamp now =
     (case getTime timestamp of
        None \<Rightarrow> ''NaNh''
      | Some t \<Rightarrow>
          let diffMs = now - t;
              diffSec = diffMs div 1000
          in if diffSec < 5 then ''now''
             else if diffSec < 60 then showInt diffSec @ ''s''
             else let diffMin = diffSec div 60
                  in if diffMin < 60 then showInt diffMin @ ''m''
                     else showInt (diffMin div 60) @ ''h'')"

definition formatAbsoluteTime ::
  "(string \<Rightarrow> int option) \<Rightarrow> (int \<Rightarrow> int) \<Rightarrow> string \<Rightarrow> TimeZone \<Rightarrow> string" where
  "formatAbsoluteTime getTime offset timestamp tz = fmtClock offset (getTime timestamp) tz"

section \<open>Filtering and URIs\<close>

definition or_empty :: "string option \<Rightarrow> string" where
  "or_empty s = (case s of None \<Rightarrow> [] | Some x \<Rightarrow> x)"

definition matchesFilter :: "Exchange \<Rightarrow> string \<Rightarrow> bool" where
  "matchesFilter ex filter_text =
     (if filter_text = [] then True
      else let q = toLowerCase filter_text;
               rmethod = toLowerCase (or_empty (ex_method ex));
               uri = toLowerCase (or_empty (ex_uri ex));
               status = toLowerCase (or_empty (ex_status ex))
           in str_includes rmethod q \<or> str_includes uri q \<or> str_includes status q)"

record SplitUri =
  su_path :: string
  su_query :: string

definition splitUri :: "string \<Rightarrow> SplitUri" where
  "splitUri uri =
     (case indexOf uri (CHR ''?'') of
        None \<Rightarrow> \<lparr>su_path = uri, su_query = []\<rparr>
      | Some q \<Rightarrow> \<lparr>su_path = take q uri, su_query = drop q uri\<rparr>)"

definition isBulkOperation :: "string option \<Rightarrow> bool" where
  "isBulkOperation uri =
     (case uri of None \<Rightarrow> False | Some u \<Rightarrow> str_includes u ''_msearch'' \<or> str_includes u ''_mget'')"

section \<open>Headers\<close>

definition PINNED_HEADER_NAMES :: "string list" where
  "PINNED_HEADER_NAMES =
     [''content-type'', ''content-encoding'', ''authorization'', ''traceparent'', ''cache-control'']"

definition MASK :: string where
  "MASK = ''**********''"

definition maskHeaderValue :: "string \<Rightarrow> string \<Rightarrow> string" where
  "maskHeaderValue name v =
     (if toLowerCase name \<noteq> ''authorization'' then v
      else case indexOf v (CHR '' '') of
             Some spaceIdx \<Rightarrow> take (spaceIdx + 1) v @ MASK
           | None \<Rightarrow> take 8 v @ MASK)"

definition decodeBasicAuth :: "string \<Rightarrow> string option" where
  "decodeBasicAuth v =
     (if \<not> startsWith (toLowerCase v) ''basic '' then None
      else map_option (map char_of) (atob (trim (drop 6 v))))"

definition filterHeaders :: "'a Header_scheme list \<Rightarrow> string \<Rightarrow> 'a Header_scheme list" where
  "filterHeaders headers query =
     (if query = [] then headers
      else let q = toLowerCase query
           in filter (\<lambda>h. str_includes (toLowerCase (h_name h)) q \<or> str_includes (toLowerCase (h_value h)) q)
                headers)"

text \<open>\<open>PINNED_HEADER_NAMES.indexOf\<close> of the lowercased name, -1 when absent.\<close>

definition pin_index :: "'a Header_scheme \<Rightarrow> int" where
  "pin_index h = (case indexOf PINNED_HEADER_NAMES (toLowerCase (h_name h)) of Some i \<Rightarrow> int i | None \<Rightarrow> -1)"

fun pin_split ::
  "'a Header_scheme list \<Rightarrow> 'a Header_scheme list \<Rightarrow> 'a Header_scheme list \<Rightarrow>
   'a Header_scheme list \<times> 'a Header_scheme list" where
  "pin_split [] pinned rest = (pinned, rest)"
| "pin_split (h # hs) pinned rest =
     (if toLowerCase (h_name h) \<in> set PINNED_HEADER_NAMES then pin_split hs (pinned @ [h]) rest
      else pin_split hs pinned (rest @ [h]))"

text \<open>\<open>Array.prototype.sort\<close> is stable, as \<open>sort_key\<close> is.\<close>

definition sortHeadersByPin :: "'a Header_scheme list \<Rightarrow> 'a Header_scheme list" where
  "sortHeadersByPin headers = (let (pinned, rest) = pin_split headers [] [] in sort_key pin_index pinned @ rest)"

section \<open>Lemmas\<close>

lemma str_includes_trans: "str_includes s q \<Longrightarrow> str_includes q r \<Longrightarrow> str_includes s r"
  by (auto simp: str_includes_iff) (metis append.assoc)

lemma pin_split_eq:
  "pin_split hs p r =
   (p @ filter (\<lambda>h. toLowerCase (h_name h) \<in> set PINNED_HEADER_NAMES) hs,
    r @ filter (\<lambda>h. toLowerCase (h_name h) \<notin> set PINNED_HEADER_NAMES) hs)"
  by (induction hs arbitrary: p r) auto

lemma sortHeadersByPin_eq:
  "sortHeadersByPin hs =
   sort_key pin_index (filter (\<lambda>h. toLowerCase (h_name h) \<in> set PINNED_HEADER_NAMES) hs) @
   filter (\<lambda>h. toLowerCase (h_name h) \<notin> set PINNED_HEADER_NAMES) hs"
  by (simp add: sortHeadersByPin_def pin_split_eq)

lemma mset_sortHeadersByPin: "mset (sortHeadersByPin hs) = mset hs"
  by (simp add: sortHeadersByPin_eq)

lemma pin_index_inject:
  "toLowerCase (h_name g) \<in> set PINNED_HEADER_NAMES \<Longrightarrow> pin_index h = pin_index g \<Longrightarrow>
   toLowerCase (h_name h) = toLowerCase (h_name g)"
proof -
  assume g: "toLowerCase (h_name g) \<in> set PINNED_HEADER_NAMES" and e: "pin_index h = pin_index g"
  then obtain i where i: "indexOf PINNED_HEADER_NAMES (toLowerCase (h_name g)) = Some i"
    using indexOf_mem by metis
  with e have j: "indexOf PINNED_HEADER_NAMES (toLowerCase (h_name h)) = Some i"
    by (simp add: pin_index_def split: option.splits)
  show ?thesis using indexOf_Some [OF i] indexOf_Some [OF j] by simp
qed

lemma pin_index_cong: "toLowerCase (h_name h) = toLowerCase (h_name g) \<Longrightarrow> pin_index h = pin_index g"
  by (simp add: pin_index_def)

lemma b64_char_no_space: "v < 64 \<Longrightarrow> \<not> is_ws (b64_char v)"
proof -
  assume "v < 64"
  then have "b64_value (b64_char v) \<noteq> None" by (simp add: b64_value_char)
  then show ?thesis
    by (auto simp: is_ws_def b64_value_def Let_def charCode_def split: if_splits)
qed

lemma b64_encode_not_ws: "c \<in> set (b64_encode bs) \<Longrightarrow> \<not> is_ws c"
proof -
  have "\<not> is_ws (CHR ''='')" by (simp add: is_ws_def charCode_def)
  then show "c \<in> set (b64_encode bs) \<Longrightarrow> \<not> is_ws c"
    by (induction bs rule: b64_encode.induct) (auto simp: Let_def base64_simps b64_char_no_space)
qed

section \<open>Properties\<close>

text \<open>
  The list filter is case-insensitive and narrowing: an exchange that matches a
  filter matches every filter whose text occurs in it, whatever the capitalisation.
\<close>

theorem matchesFilter_narrows:
  assumes "matchesFilter ex f" "str_includes (toLowerCase f) (toLowerCase g)"
  shows "matchesFilter ex g"
proof (cases "f = []")
  case True
  with assms(2) have "g = []" by (auto simp: startsWith_def)
  then show ?thesis by (simp add: matchesFilter_def)
next
  case False
  then show ?thesis
    using assms str_includes_trans by (auto simp: matchesFilter_def Let_def)
qed

theorem matchesFilter_narrows_witness:
  "matchesFilter ((fresh_exchange 2 [])\<lparr>ex_method := Some ''POST''\<rparr>) ''oS''"
proof (rule matchesFilter_narrows)
  show "matchesFilter ((fresh_exchange 2 [])\<lparr>ex_method := Some ''POST''\<rparr>) ''pos''"
    by (simp add: matchesFilter_def or_empty_def char_eval startsWith_def)
  show "str_includes (toLowerCase ''pos'') (toLowerCase ''oS'')"
    by (simp add: char_eval startsWith_def)
qed

text \<open>
  \<open>splitUri\<close> cuts a URI at its first question mark: the parts make the URI again,
  the path has no question mark, and the query is empty or starts with one.
\<close>

theorem splitUri_roundtrip:
  "su_path (splitUri uri) @ su_query (splitUri uri) = uri
   \<and> CHR ''?'' \<notin> set (su_path (splitUri uri))
   \<and> (su_query (splitUri uri) = [] \<or> hd (su_query (splitUri uri)) = CHR ''?'')"
proof (cases "indexOf uri (CHR ''?'')")
  case None
  then show ?thesis by (simp add: splitUri_def)
next
  case (Some q)
  from indexOf_Some [OF Some] Some show ?thesis by (simp add: splitUri_def hd_drop_conv_nth)
qed

text \<open>
  \<open>sortHeadersByPin\<close> permutes the headers: the pinned ones come first, in the
  display order of their names, every other header follows in its original order, and headers
  with the same pinned name keep their order.
\<close>

theorem sortHeadersByPin_stable_partition:
  fixes hs :: "'a Header_scheme list"
  shows "mset (sortHeadersByPin hs) = mset hs \<and>
   (\<exists>pinned. sortHeadersByPin hs = pinned @ filter (\<lambda>h. toLowerCase (h_name h) \<notin> set PINNED_HEADER_NAMES) hs
      \<and> sorted (map pin_index pinned)
      \<and> set pinned = {h \<in> set hs. toLowerCase (h_name h) \<in> set PINNED_HEADER_NAMES}
      \<and> (\<forall>n. filter (\<lambda>h. toLowerCase (h_name h) = n) (sortHeadersByPin hs)
            = filter (\<lambda>h. toLowerCase (h_name h) = n) hs))"
proof -
  let ?pin = "\<lambda>h :: 'a Header_scheme. toLowerCase (h_name h) \<in> set PINNED_HEADER_NAMES"
  let ?p = "sort_key pin_index (filter ?pin hs)"
  have stable: "filter (\<lambda>h. toLowerCase (h_name h) = n) (sortHeadersByPin hs)
      = filter (\<lambda>h. toLowerCase (h_name h) = n) hs" for n
  proof (cases "n \<in> set PINNED_HEADER_NAMES \<and> (\<exists>g\<in>set hs. toLowerCase (h_name g) = n)")
    case True
    then obtain g :: "'a Header_scheme" where "toLowerCase (h_name g) = n" by blast
    with True have g: "toLowerCase (h_name g) = n" "?pin g" by simp_all
    have key: "toLowerCase (h_name h) = n \<longleftrightarrow> pin_index h = pin_index g" for h :: "'a Header_scheme"
      using pin_index_inject [OF g(2), of h] pin_index_cong [of h g] g(1) by auto
    have "filter (\<lambda>h. toLowerCase (h_name h) = n) ?p = filter (\<lambda>h. pin_index h = pin_index g) (filter ?pin hs)"
      unfolding key by (rule sort_key_stable)
    also have "\<dots> = filter (\<lambda>h. toLowerCase (h_name h) = n) hs"
      using g by (auto simp: key [symmetric] intro!: filter_cong)
    finally have p: "filter (\<lambda>h. toLowerCase (h_name h) = n) ?p = filter (\<lambda>h. toLowerCase (h_name h) = n) hs" .
    have "filter (\<lambda>h. toLowerCase (h_name h) = n) (filter (\<lambda>h. \<not> ?pin h) hs) = []"
      using g by (auto simp: filter_empty_conv)
    with p show ?thesis by (simp add: sortHeadersByPin_eq)
  next
    case False
    then have "filter (\<lambda>h. toLowerCase (h_name h) = n) ?p = []"
      by (auto simp: filter_empty_conv)
    moreover have "filter (\<lambda>h. toLowerCase (h_name h) = n) (filter (\<lambda>h. \<not> ?pin h) hs)
        = filter (\<lambda>h. toLowerCase (h_name h) = n) hs"
      using False by (auto intro!: filter_cong)
    ultimately show ?thesis by (simp add: sortHeadersByPin_eq)
  qed
  show ?thesis
    using stable by (auto simp: sortHeadersByPin_eq intro!: exI [of _ ?p])
qed

text \<open>
  The masked text of an \<open>authorization\<close> header shows its scheme and nothing of
  the credential: two credentials under one scheme are shown alike. Other headers are shown as
  they are.
\<close>

theorem maskHeaderValue_hides:
  assumes "CHR '' '' \<notin> set scheme"
  shows "(toLowerCase name = ''authorization'' \<longrightarrow>
      maskHeaderValue name (scheme @ '' '' @ credential) = scheme @ '' '' @ MASK)
    \<and> (toLowerCase name \<noteq> ''authorization'' \<longrightarrow> maskHeaderValue name v = v)"
proof -
  have "indexOf (scheme @ CHR '' '' # credential) (CHR '' '') = Some (length scheme)"
    by (rule indexOf_append_notin) (rule assms)
  then show ?thesis by (simp add: maskHeaderValue_def)
qed

theorem maskHeaderValue_hides_witness:
  "maskHeaderValue ''Authorization'' (''Bearer'' @ '' '' @ ''s3cret'') = ''Bearer'' @ '' '' @ MASK"
proof -
  have "CHR '' '' \<notin> set ''Bearer''" "toLowerCase ''Authorization'' = ''authorization''"
    by (simp_all add: char_eval)
  then show ?thesis using maskHeaderValue_hides [of "''Bearer''" "''Authorization''" "''s3cret''"] by simp
qed

text \<open>
  A credential without a scheme is not hidden: its first eight characters are
  shown, so one of at most eight characters is shown whole, before the mask.
\<close>

theorem maskHeaderValue_short_credential_shown:
  assumes "toLowerCase name = ''authorization''" "CHR '' '' \<notin> set credential"
  shows "maskHeaderValue name credential = take 8 credential @ MASK
    \<and> (length credential \<le> 8 \<longrightarrow> maskHeaderValue name credential = credential @ MASK)"
proof -
  have "indexOf credential (CHR '' '') = None" using assms(2) by simp
  then show ?thesis using assms(1) by (simp add: maskHeaderValue_def)
qed

theorem maskHeaderValue_short_credential_shown_witness:
  "maskHeaderValue ''authorization'' ''hunter2'' = ''hunter2'' @ MASK"
proof -
  have "toLowerCase ''authorization'' = ''authorization''" by (simp add: char_eval)
  then show ?thesis
    using maskHeaderValue_short_credential_shown [of "''authorization''" "''hunter2''"] by simp
qed

text \<open>
  The reveal of Basic credentials decodes what a client encodes, under any
  capitalisation of the scheme.
\<close>

theorem decodeBasicAuth_encoded:
  assumes "toLowerCase scheme = ''basic''" "bs \<noteq> []"
  shows "decodeBasicAuth (scheme @ '' '' @ b64_encode bs) = Some (map (\<lambda>b. char_of (unat b)) bs)"
proof -
  have len: "length scheme = 5"
    using arg_cong [OF assms(1), of length] by simp
  have "startsWith (toLowerCase (scheme @ '' '' @ b64_encode bs)) ''basic ''"
  proof -
    have "toLowerCase '' '' = '' ''" by (simp add: char_eval)
    then have "toLowerCase (scheme @ '' '' @ b64_encode bs) = ''basic '' @ toLowerCase (b64_encode bs)"
      by (simp only: toLowerCase_append assms(1)) simp
    then show ?thesis by (simp only: startsWith_append)
  qed
  moreover have "trim (drop 6 (scheme @ '' '' @ b64_encode bs)) = b64_encode bs"
  proof -
    have "b64_encode bs \<noteq> []" using assms(2) by (cases bs rule: b64_encode.cases) (auto simp: Let_def)
    then have "trim (b64_encode bs) = b64_encode bs"
      by (intro trim_id b64_encode_not_ws [OF hd_in_set] b64_encode_not_ws [OF last_in_set])
    then show ?thesis using len by simp
  qed
  ultimately show ?thesis
    by (simp add: decodeBasicAuth_def atob_encode comp_def)
qed

theorem decodeBasicAuth_encoded_witness:
  "decodeBasicAuth (''BASIC'' @ '' '' @ b64_encode [117, 58, 112]) = Some ''u:p''"
proof -
  have "toLowerCase ''BASIC'' = ''basic''" by (simp add: char_eval)
  then have "decodeBasicAuth (''BASIC'' @ '' '' @ b64_encode [117, 58, 112]) =
      Some (map (\<lambda>b :: byte. char_of (unat b)) [117, 58, 112])"
    by (rule decodeBasicAuth_encoded) simp
  also have "map (\<lambda>b :: byte. char_of (unat b)) [117, 58, 112] = ''u:p''" by (simp add: char_eval)
  finally show ?thesis .
qed

end
