(* ===== verification/View_Modes.thy ===== *)
theory View_Modes
  imports Exchange_Types
begin

text \<open>
  The body view modes, \<open>body/view-modes.ts\<close>, and the initial request/response split,
  \<open>body/split-sizing.ts\<close>. Shown: a stored mode resolves to one that can be selected for the
  body, it is kept whenever it can, and the default is a richest one.
\<close>

datatype ViewMode = vm_tree | vm_formatted | vm_rendered | vm_text | vm_summary | vm_hex

datatype ContentKind = ck_json | ck_ndjson | ck_html | ck_xml | ck_image | ck_text | ck_binary

fun MODE_LABELS :: "ViewMode \<Rightarrow> string" where
  "MODE_LABELS vm_tree = ''Tree''"
| "MODE_LABELS vm_formatted = ''Formatted''"
| "MODE_LABELS vm_rendered = ''Rendered''"
| "MODE_LABELS vm_text = ''Text''"
| "MODE_LABELS vm_summary = ''Summary''"
| "MODE_LABELS vm_hex = ''Hex''"

fun MODE_PRECEDENCE :: "ViewMode \<Rightarrow> nat" where
  "MODE_PRECEDENCE vm_tree = 10"
| "MODE_PRECEDENCE vm_formatted = 10"
| "MODE_PRECEDENCE vm_rendered = 10"
| "MODE_PRECEDENCE vm_text = 30"
| "MODE_PRECEDENCE vm_hex = 40"
| "MODE_PRECEDENCE vm_summary = 50"

definition withTextAndHex :: "ViewMode list \<Rightarrow> bool \<Rightarrow> ViewMode list" where
  "withTextAndHex base textAvailable = base @ (if textAvailable then [vm_text] else []) @ [vm_hex]"

fun selectableModes :: "ContentKind \<Rightarrow> bool \<Rightarrow> ViewMode list" where
  "selectableModes ck_json textAvailable = withTextAndHex [vm_tree] textAvailable"
| "selectableModes ck_ndjson textAvailable = withTextAndHex [vm_tree] textAvailable"
| "selectableModes ck_html textAvailable = withTextAndHex [vm_formatted] textAvailable"
| "selectableModes ck_xml textAvailable = withTextAndHex [vm_formatted] textAvailable"
| "selectableModes ck_image textAvailable = [vm_rendered, vm_hex]"
| "selectableModes ck_text textAvailable = [vm_text, vm_hex]"
| "selectableModes ck_binary textAvailable = [vm_summary, vm_hex]"

text \<open>\<open>reduce\<close> without an initial value: the first mode is the first accumulator.\<close>

definition defaultMode :: "ContentKind \<Rightarrow> bool \<Rightarrow> ViewMode" where
  "defaultMode kind textAvailable =
     (if kind = ck_binary then vm_summary
      else let modes = selectableModes kind textAvailable
           in foldl (\<lambda>best m. if MODE_PRECEDENCE m < MODE_PRECEDENCE best then m else best)
                (hd modes) (tl modes))"

definition resolveMode :: "ViewMode option \<Rightarrow> ContentKind \<Rightarrow> bool \<Rightarrow> ViewMode" where
  "resolveMode stored kind textAvailable =
     (case stored of
        Some m \<Rightarrow> if m \<in> set (selectableModes kind textAvailable) then m
                  else defaultMode kind textAvailable
      | None \<Rightarrow> defaultMode kind textAvailable)"

definition BODY_SPLIT_MIN_PCT :: nat where
  "BODY_SPLIT_MIN_PCT = 15"

definition computeBodySplitPercent :: "BodyState option \<Rightarrow> nat" where
  "computeBodySplitPercent requestBody = (if requestBody = None then BODY_SPLIT_MIN_PCT else 50)"

lemma defaultMode_selectable: "defaultMode kind t \<in> set (selectableModes kind t)"
  by (cases kind) (auto simp: defaultMode_def withTextAndHex_def)

lemma hex_selectable: "vm_hex \<in> set (selectableModes kind t)"
  by (cases kind) (auto simp: withTextAndHex_def)

text \<open>
  Whatever mode is stored, the resolved mode can be selected for the body; a stored
  mode that can be selected is kept, and otherwise the mode is a default that no selectable
  mode precedes, except for binary bodies, which show their summary.
\<close>

theorem resolveMode_selectable:
  "resolveMode stored kind t \<in> set (selectableModes kind t)
   \<and> (\<forall>m. stored = Some m \<longrightarrow> m \<in> set (selectableModes kind t) \<longrightarrow> resolveMode stored kind t = m)
   \<and> (kind \<noteq> ck_binary \<longrightarrow>
        (\<forall>m\<in>set (selectableModes kind t). MODE_PRECEDENCE (resolveMode None kind t) \<le> MODE_PRECEDENCE m))"
proof -
  have "kind \<noteq> ck_binary \<Longrightarrow> \<forall>m\<in>set (selectableModes kind t). MODE_PRECEDENCE (defaultMode kind t) \<le> MODE_PRECEDENCE m"
    by (cases kind) (auto simp: defaultMode_def withTextAndHex_def)
  then show ?thesis
    by (auto simp: resolveMode_def defaultMode_selectable split: option.split)
qed

theorem resolveMode_selectable_witness:
  "resolveMode (Some vm_hex) ck_json True = vm_hex"
  using resolveMode_selectable [of "Some vm_hex" ck_json True] hex_selectable [of ck_json True] by blast

end
