(* ===== verification/Connection.thy ===== *)
theory Connection
  imports Wire
begin

text \<open>
  The connection to the proxy as the UI sees it: \<open>api/sse.ts\<close> (the subscription),
  \<open>lib/connection-toast.ts\<close>, \<open>lib/tickSource.ts\<close> (the shared one-second timer), the display
  status of \<open>components/connection-dot.tsx\<close>, the stream state of
  \<open>components/live-indicator.tsx\<close> and the scroll follower \<open>hooks/useStreamFollow.ts\<close>.

  Shown: a lost connection is announced once and its recovery once, however often the transport
  reports them; the timer runs exactly while somebody listens.
\<close>

section \<open>The subscription\<close>

datatype ConnectionStatus = conn_connecting | conn_open | conn_reconnecting

text \<open>
  What the browser's \<open>EventSource\<close> delivers, and what the handlers do: report a status, post a
  message to the parent frame, or hand a message on. \<open>parse\<close> stands for \<open>JSON.parse\<close> and the
  cast to \<open>EventMessage\<close>.
\<close>

datatype es_event = es_open | es_error | es_report string

datatype es_effect =
    es_status ConnectionStatus
  | es_post string
  | es_message EventMessage

definition subscribe_effects :: "es_effect list" where
  "subscribe_effects = [es_status conn_connecting]"

fun es_handle :: "(string \<Rightarrow> EventMessage option) \<Rightarrow> es_event \<Rightarrow> es_effect list" where
  "es_handle parse es_open = [es_status conn_open, es_post ''proxy_connected'']"
| "es_handle parse es_error = [es_status conn_reconnecting, es_post ''proxy_disconnected'']"
| "es_handle parse (es_report data) = (case parse data of Some m \<Rightarrow> [es_message m] | None \<Rightarrow> [])"

section \<open>Toasts\<close>

datatype ToastKind = toast_success | toast_error

record Toast =
  toast_kind :: ToastKind
  toast_message :: "glyph list"

definition connectionToast :: "ConnectionStatus option \<Rightarrow> ConnectionStatus \<Rightarrow> Toast option" where
  "connectionToast prev next_status =
     (if next_status = conn_reconnecting \<and> prev \<noteq> Some conn_reconnecting then
        Some \<lparr>toast_kind = toast_error,
              toast_message = lat ''Connection lost '' @ [em_dash] @ lat '' reconnecting'' @ [ellipsis]\<rparr>
      else if next_status = conn_open \<and> prev = Some conn_reconnecting then
        Some \<lparr>toast_kind = toast_success, toast_message = lat ''Reconnected''\<rparr>
      else None)"

text \<open>The status callback of the shell: notify, then remember the status.\<close>

fun notify_run :: "ConnectionStatus option \<Rightarrow> ConnectionStatus list \<Rightarrow> Toast list" where
  "notify_run prev [] = []"
| "notify_run prev (s # ss) =
     (case connectionToast prev s of None \<Rightarrow> [] | Some t \<Rightarrow> [t]) @ notify_run (Some s) ss"

section \<open>Display status\<close>

datatype DotStatus = dot_open | dot_connecting | dot_down

fun connDotStatus :: "ConnectionStatus \<Rightarrow> DotStatus" where
  "connDotStatus conn_reconnecting = dot_connecting"
| "connDotStatus conn_open = dot_open"
| "connDotStatus conn_connecting = dot_connecting"

fun CONNECTION_LABEL :: "DotStatus \<Rightarrow> glyph list" where
  "CONNECTION_LABEL dot_open = lat ''connected''"
| "CONNECTION_LABEL dot_connecting = lat ''connecting'' @ [ellipsis]"
| "CONNECTION_LABEL dot_down = lat ''disconnected''"

datatype StreamState = stream_live | stream_paused | stream_complete | stream_disconnected

definition deriveStreamState :: "bool \<Rightarrow> bool \<Rightarrow> Direction option \<Rightarrow> StreamState" where
  "deriveStreamState atEnd isFollowing errorDirection =
     (let hasResponseError = (errorDirection = Some DirResponse) in
      if hasResponseError \<and> \<not> atEnd then stream_disconnected
      else if atEnd then stream_complete
      else if isFollowing then stream_live
      else stream_paused)"

section \<open>Following a stream\<close>

record ScrollBox =
  scrollTop :: int
  scrollHeight :: int
  clientHeight :: int

record FollowState =
  isFollowing :: bool
  scroll_box :: ScrollBox

text \<open>
  Setting \<open>scrollTop\<close> clamps it to the scrollable range, as the DOM does. The effect of the hook
  runs after a render whose dependencies changed, with the content's new height.
\<close>

definition set_scrollTop :: "int \<Rightarrow> ScrollBox \<Rightarrow> ScrollBox" where
  "set_scrollTop y b = b\<lparr>scrollTop := max 0 (min y (scrollHeight b - clientHeight b))\<rparr>"

definition follow_content :: "int \<Rightarrow> FollowState \<Rightarrow> FollowState" where
  "follow_content height s =
     (let b = (scroll_box s)\<lparr>scrollHeight := height\<rparr>
      in if isFollowing s then s\<lparr>scroll_box := set_scrollTop (scrollHeight b) b\<rparr> else s\<lparr>scroll_box := b\<rparr>)"

definition handleScroll :: "FollowState \<Rightarrow> FollowState" where
  "handleScroll s =
     (let el = scroll_box s;
          distFromBottom = scrollHeight el - scrollTop el - clientHeight el
      in s\<lparr>isFollowing := distFromBottom < 40\<rparr>)"

definition jumpToLatest :: "FollowState \<Rightarrow> FollowState" where
  "jumpToLatest s =
     (let el = scroll_box s in s\<lparr>scroll_box := set_scrollTop (scrollHeight el) el, isFollowing := True\<rparr>)"

section \<open>The shared timer\<close>

text \<open>
  \<open>tick_listeners\<close> is the module's \<open>Set\<close> in insertion order, \<open>tick_intervalId\<close> its variable;
  \<open>tick_running\<close> are the host's intervals that have not been cleared and \<open>tick_next\<close> the id
  the host hands out next.
\<close>

record TickSource =
  tick_listeners :: "nat list"
  tick_intervalId :: "nat option"
  tick_running :: "nat list"
  tick_next :: nat

definition tick_init :: TickSource where
  "tick_init = \<lparr>tick_listeners = [], tick_intervalId = None, tick_running = [], tick_next = 0\<rparr>"

definition tick_subscribe :: "nat \<Rightarrow> TickSource \<Rightarrow> TickSource" where
  "tick_subscribe l s =
     (let listeners = (if l \<in> set (tick_listeners s) then tick_listeners s else tick_listeners s @ [l]);
          s' = s\<lparr>tick_listeners := listeners\<rparr>
      in if length listeners = 1
         then s'\<lparr>tick_intervalId := Some (tick_next s), tick_running := tick_running s @ [tick_next s],
                 tick_next := tick_next s + 1\<rparr>
         else s')"

definition tick_unsubscribe :: "nat \<Rightarrow> TickSource \<Rightarrow> TickSource" where
  "tick_unsubscribe l s =
     (let listeners = filter (\<lambda>x. x \<noteq> l) (tick_listeners s);
          s' = s\<lparr>tick_listeners := listeners\<rparr>
      in case tick_intervalId s of
           Some i \<Rightarrow> if length listeners = 0
                     then s'\<lparr>tick_running := filter (\<lambda>x. x \<noteq> i) (tick_running s), tick_intervalId := None\<rparr>
                     else s'
         | None \<Rightarrow> s')"

text \<open>
  The states the module reaches: a component subscribes the setter of its own state, which is
  not subscribed yet, and unsubscribes it when it unmounts.
\<close>

inductive tick_reachable :: "TickSource \<Rightarrow> bool" where
  tick_start: "tick_reachable tick_init"
| tick_sub: "tick_reachable s \<Longrightarrow> l \<notin> set (tick_listeners s) \<Longrightarrow> tick_reachable (tick_subscribe l s)"
| tick_unsub: "tick_reachable s \<Longrightarrow> tick_reachable (tick_unsubscribe l s)"

definition tick_inv :: "TickSource \<Rightarrow> bool" where
  "tick_inv s \<longleftrightarrow> distinct (tick_listeners s) \<and>
     (if tick_listeners s = [] then tick_running s = [] \<and> tick_intervalId s = None
      else \<exists>i. tick_running s = [i] \<and> tick_intervalId s = Some i)"

lemma tick_inv_subscribe: "tick_inv s \<Longrightarrow> l \<notin> set (tick_listeners s) \<Longrightarrow> tick_inv (tick_subscribe l s)"
  by (auto simp: tick_inv_def tick_subscribe_def Let_def split: if_splits)

lemma tick_inv_unsubscribe: "tick_inv s \<Longrightarrow> tick_inv (tick_unsubscribe l s)"
  by (auto simp: tick_inv_def tick_unsubscribe_def Let_def split: if_splits option.splits)

section \<open>Properties\<close>

text \<open>
  The timer runs exactly while there are listeners: one interval when there is at
  least one, none when there is none, and the variable names the running one.
\<close>

theorem tick_timer_runs_while_listened:
  assumes "tick_reachable s"
  shows "tick_inv s"
  using assms
proof (induction rule: tick_reachable.induct)
  case tick_start
  show ?case by (simp add: tick_inv_def tick_init_def)
qed (simp_all add: tick_inv_subscribe tick_inv_unsubscribe)

theorem tick_timer_runs_while_listened_witness:
  "tick_inv (tick_unsubscribe 7 (tick_subscribe 8 (tick_subscribe 7 tick_init)))"
proof (rule tick_timer_runs_while_listened)
  have "tick_reachable (tick_subscribe 7 tick_init)"
    by (intro tick_reachable.intros) (simp add: tick_init_def)
  then have "tick_reachable (tick_subscribe 8 (tick_subscribe 7 tick_init))"
    by (rule tick_sub) (simp add: tick_subscribe_def tick_init_def)
  then show "tick_reachable (tick_unsubscribe 7 (tick_subscribe 8 (tick_subscribe 7 tick_init)))"
    by (rule tick_unsub)
qed

text \<open>Toasts of the two kinds in turn, starting with \<open>k\<close>.\<close>

fun alternating :: "ToastKind \<Rightarrow> Toast list \<Rightarrow> bool" where
  "alternating k [] = True"
| "alternating k (t # ts) = (toast_kind t = k \<and>
     alternating (case k of toast_error \<Rightarrow> toast_success | toast_success \<Rightarrow> toast_error) ts)"

text \<open>
  The statuses a subscription can report: \<open>connecting\<close> only as the first one, as the effects of
  \<open>subscribeToEvents\<close> show.
\<close>

fun statuses :: "es_effect list \<Rightarrow> ConnectionStatus list" where
  "statuses [] = []"
| "statuses (es_status s # es) = s # statuses es"
| "statuses (e # es) = statuses es"

lemma statuses_append: "statuses (a @ b) = statuses a @ statuses b"
  by (induction a rule: statuses.induct) simp_all

lemma notify_alternating:
  "conn_connecting \<notin> set ss \<Longrightarrow>
   alternating (if prev = Some conn_reconnecting then toast_success else toast_error) (notify_run prev ss)"
proof (induction ss arbitrary: prev)
  case (Cons s ss)
  then show ?case using Cons.IH [of "Some s"] by (cases s) (auto simp: connectionToast_def)
qed simp

lemma es_handle_statuses: "conn_connecting \<notin> set (statuses (concat (map (es_handle parse) es)))"
proof (induction es)
  case (Cons e es)
  then show ?case by (cases e) (auto simp: statuses_append split: option.split)
qed simp

text \<open>
  Toasts: an error is shown exactly at the moves into \<open>reconnecting\<close> from another
  status, a success exactly at the moves from \<open>reconnecting\<close> to \<open>open\<close>; so errors and successes
  alternate, and the first connect is silent.
\<close>

theorem connection_toasts_alternate:
  "alternating toast_error
     (notify_run None (statuses (subscribe_effects @ concat (map (es_handle parse) es))))"
  using notify_alternating [OF es_handle_statuses, of "Some conn_connecting" parse es]
  by (simp add: subscribe_effects_def connectionToast_def)

end
