(* ===== verification/Machine.thy ===== *)
theory Machine
  imports Main
begin

text \<open>
  The interface of a component as a state machine: events change the state, a property of the
  state is kept by every event (\<open>machine\<close>), holds at the start (\<open>started_machine\<close>), or some part of
  the state is left alone by the events of one kind (\<open>framed_machine\<close>). The lemmas lift each law
  from one event to a run. The store, the stream panes and the capture pool are interpretations.
\<close>

locale machine =
  fixes step :: "'e \<Rightarrow> 's \<Rightarrow> 's"
    and ok :: "'s \<Rightarrow> bool"
  assumes ok_step: "ok s \<Longrightarrow> ok (step e s)"
begin

lemma ok_run: "ok s \<Longrightarrow> ok (fold step es s)"
  by (induction es arbitrary: s) (simp_all add: ok_step)

lemma ok_foldl: "ok s \<Longrightarrow> ok (foldl (\<lambda>s e. step e s) s es)"
  by (induction es arbitrary: s) (simp_all add: ok_step)

end

locale started_machine = machine step ok
  for step :: "'e \<Rightarrow> 's \<Rightarrow> 's" and ok :: "'s \<Rightarrow> bool" +
  fixes start :: 's
  assumes ok_start: "ok start"
begin

lemma ok_reached: "ok (fold step es start)"
  by (rule ok_run) (rule ok_start)

end

locale framed_machine =
  fixes step :: "'e \<Rightarrow> 's \<Rightarrow> 's"
    and part :: "'s \<Rightarrow> 'p"
    and quiet :: "'e \<Rightarrow> bool"
  assumes part_step: "quiet e \<Longrightarrow> part (step e s) = part s"
begin

lemma part_run: "list_all quiet es \<Longrightarrow> part (fold step es s) = part s"
  by (induction es arbitrary: s) (simp_all add: part_step)

lemma part_foldl: "list_all quiet es \<Longrightarrow> part (foldl (\<lambda>s e. step e s) s es) = part s"
  by (induction es arbitrary: s) (simp_all add: part_step)

end

end
