(* ===== verification/Store.thy ===== *)
theory Store
  imports Reducer Utils View_Modes Connection Machine
begin

text \<open>
  The Zustand store, \<open>state/store.ts\<close>: the state with its defaults, every action, what is
  persisted, and the selectors. An action is a function on the state; \<open>set\<close> merges the fields it
  is given, so each action is a record update. \<open>applyEvent\<close> runs inside the \<open>try\<close> of
  \<open>api/sse.ts\<close>, so a throwing reducer leaves the state as it was.

  The reducer enters through the contract of theory Bounded_Store (interpretation \<open>rs\<close>). Shown:
  in every reachable state the store is well-formed and within its caps; a selected exchange
  that is in the store stays there while messages arrive; the visible list is the filtered ids
  in order.
\<close>

datatype Density = density_regular | density_compact
datatype Order = order_newest | order_oldest
datatype ListMode = mode_rows | mode_table

text \<open>Widths are pixels, possibly fractional.\<close>

record ListWidth =
  lw_rows :: rat
  lw_table :: rat

record PersistedPrefs =
  pp_listWidth :: ListWidth
  pp_density :: Density
  pp_order :: Order
  pp_listMode :: ListMode
  pp_traceGroupOn :: bool
  pp_timeZone :: TimeZone

record StoreState = PersistedPrefs +
  st_exchanges :: exchanges
  st_ids :: "nat list"
  st_connection :: ConnectionStatus
  st_service :: "string option"
  st_protocol :: "Protocol option"
  st_selectedId :: "nat option"
  st_filter :: string
  st_traceFilter :: "string option"
  st_hoverTraceId :: "string option"
  st_cmdKOpen :: bool
  st_helpOpen :: bool
  st_requestViewMode :: "ViewMode option"
  st_responseViewMode :: "ViewMode option"

definition initial_store :: StoreState where
  "initial_store =
     \<lparr>pp_listWidth = \<lparr>lw_rows = 290, lw_table = 640\<rparr>, pp_density = density_regular,
      pp_order = order_newest, pp_listMode = mode_rows, pp_traceGroupOn = False, pp_timeZone = local_tz,
      st_exchanges = Map.empty, st_ids = [], st_connection = conn_connecting, st_service = None,
      st_protocol = None, st_selectedId = None, st_filter = [], st_traceFilter = None,
      st_hoverTraceId = None, st_cmdKOpen = False, st_helpOpen = False, st_requestViewMode = None,
      st_responseViewMode = None\<rparr>"

section \<open>Actions\<close>

abbreviation exchange_store_of :: "StoreState \<Rightarrow> exchange_store" where
  "exchange_store_of s \<equiv> (st_exchanges s, st_ids s)"

definition applyEvent :: "'a platform_scheme \<Rightarrow> EventMessage \<Rightarrow> StoreState \<Rightarrow> StoreState" where
  "applyEvent P msg s =
     (case reducer_apply P msg (exchange_store_of s) of
        None \<Rightarrow> s
      | Some store \<Rightarrow> (let (exchanges, ids) = evict (st_selectedId s) store
                      in s\<lparr>st_exchanges := exchanges, st_ids := ids\<rparr>))"

definition setBodyDecodedBytes :: "nat \<Rightarrow> Direction \<Rightarrow> nat \<Rightarrow> StoreState \<Rightarrow> StoreState" where
  "setBodyDecodedBytes exchangeId direction decodedBytes s =
     (case st_exchanges s exchangeId of
        None \<Rightarrow> s
      | Some ex \<Rightarrow>
          (case (if direction = DirRequest then ex_requestBody ex else ex_responseBody ex) of
             None \<Rightarrow> s
           | Some body \<Rightarrow>
               if bs_decodedBytes body = Some decodedBytes then s
               else let updatedBody = body\<lparr>bs_decodedBytes := Some decodedBytes\<rparr>;
                        updatedEx = (if direction = DirRequest
                                     then ex\<lparr>ex_requestBody := Some updatedBody\<rparr>
                                     else ex\<lparr>ex_responseBody := Some updatedBody\<rparr>)
                    in s\<lparr>st_exchanges := (st_exchanges s)(exchangeId \<mapsto> updatedEx)\<rparr>))"

definition setConnection :: "ConnectionStatus \<Rightarrow> StoreState \<Rightarrow> StoreState" where
  "setConnection status s = s\<lparr>st_connection := status\<rparr>"

definition setService :: "string \<Rightarrow> StoreState \<Rightarrow> StoreState" where
  "setService name s = s\<lparr>st_service := Some name\<rparr>"

definition setProtocol :: "Protocol option \<Rightarrow> StoreState \<Rightarrow> StoreState" where
  "setProtocol protocol s = s\<lparr>st_protocol := protocol\<rparr>"

definition setSelectedId :: "nat option \<Rightarrow> StoreState \<Rightarrow> StoreState" where
  "setSelectedId i s = s\<lparr>st_selectedId := i\<rparr>"

definition setFilter :: "string \<Rightarrow> StoreState \<Rightarrow> StoreState" where
  "setFilter f s = s\<lparr>st_filter := f\<rparr>"

definition setTraceFilter :: "string option \<Rightarrow> StoreState \<Rightarrow> StoreState" where
  "setTraceFilter traceId s = s\<lparr>st_traceFilter := traceId\<rparr>"

definition setHoverTraceId :: "string option \<Rightarrow> StoreState \<Rightarrow> StoreState" where
  "setHoverTraceId traceId s = s\<lparr>st_hoverTraceId := traceId\<rparr>"

definition setListMode :: "ListMode \<Rightarrow> StoreState \<Rightarrow> StoreState" where
  "setListMode mode s = s\<lparr>pp_listMode := mode\<rparr>"

definition setListWidth :: "ListMode \<Rightarrow> rat \<Rightarrow> StoreState \<Rightarrow> StoreState" where
  "setListWidth mode width s =
     s\<lparr>pp_listWidth := (case mode of mode_rows \<Rightarrow> (pp_listWidth s)\<lparr>lw_rows := width\<rparr>
                                  | mode_table \<Rightarrow> (pp_listWidth s)\<lparr>lw_table := width\<rparr>)\<rparr>"

definition setOrder :: "Order \<Rightarrow> StoreState \<Rightarrow> StoreState" where
  "setOrder order s = s\<lparr>pp_order := order\<rparr>"

definition setDensity :: "Density \<Rightarrow> StoreState \<Rightarrow> StoreState" where
  "setDensity density s = s\<lparr>pp_density := density\<rparr>"

definition toggleTraceGroup :: "StoreState \<Rightarrow> StoreState" where
  "toggleTraceGroup s = s\<lparr>pp_traceGroupOn := \<not> pp_traceGroupOn s\<rparr>"

definition setCmdKOpen :: "bool \<Rightarrow> StoreState \<Rightarrow> StoreState" where
  "setCmdKOpen is_open s = s\<lparr>st_cmdKOpen := is_open\<rparr>"

definition setHelpOpen :: "bool \<Rightarrow> StoreState \<Rightarrow> StoreState" where
  "setHelpOpen is_open s = s\<lparr>st_helpOpen := is_open\<rparr>"

definition setTimeZone :: "TimeZone \<Rightarrow> StoreState \<Rightarrow> StoreState" where
  "setTimeZone tz s = s\<lparr>pp_timeZone := tz\<rparr>"

definition setRequestViewMode :: "ViewMode option \<Rightarrow> StoreState \<Rightarrow> StoreState" where
  "setRequestViewMode mode s = s\<lparr>st_requestViewMode := mode\<rparr>"

definition setResponseViewMode :: "ViewMode option \<Rightarrow> StoreState \<Rightarrow> StoreState" where
  "setResponseViewMode mode s = s\<lparr>st_responseViewMode := mode\<rparr>"

section \<open>Persistence\<close>

definition partialize :: "StoreState \<Rightarrow> PersistedPrefs" where
  "partialize s =
     \<lparr>pp_listWidth = pp_listWidth s, pp_density = pp_density s, pp_order = pp_order s,
      pp_listMode = pp_listMode s, pp_traceGroupOn = pp_traceGroupOn s, pp_timeZone = pp_timeZone s\<rparr>"

text \<open>Rehydration merges the stored preferences over the current state.\<close>

definition rehydrate :: "PersistedPrefs \<Rightarrow> StoreState \<Rightarrow> StoreState" where
  "rehydrate p s =
     s\<lparr>pp_listWidth := pp_listWidth p, pp_density := pp_density p, pp_order := pp_order p,
       pp_listMode := pp_listMode p, pp_traceGroupOn := pp_traceGroupOn p, pp_timeZone := pp_timeZone p\<rparr>"

section \<open>Selectors\<close>

definition selectVisibleExchanges :: "StoreState \<Rightarrow> Exchange list" where
  "selectVisibleExchanges s =
     (let visible = filter (\<lambda>ex. st_traceFilter s = None \<or> ex_traceId ex = st_traceFilter s)
            (filter (\<lambda>ex. matchesFilter ex (st_filter s))
              (List.map_filter (st_exchanges s) (st_ids s)))
      in if pp_order s = order_newest then rev visible else visible)"

definition selectVisibleIds :: "StoreState \<Rightarrow> nat list" where
  "selectVisibleIds s = map ex_id (selectVisibleExchanges s)"

definition selectSelected :: "StoreState \<Rightarrow> Exchange option" where
  "selectSelected s = (case st_selectedId s of None \<Rightarrow> None | Some i \<Rightarrow> st_exchanges s i)"

text \<open>The loop over the ids: an absent or empty trace id is skipped.\<close>

fun trace_ids_seen :: "exchanges \<Rightarrow> nat list \<Rightarrow> string set \<Rightarrow> string set" where
  "trace_ids_seen e [] seen = seen"
| "trace_ids_seen e (i # ids) seen =
     trace_ids_seen e ids
       (case e i of
          None \<Rightarrow> seen
        | Some x \<Rightarrow> (case ex_traceId x of
            None \<Rightarrow> seen
          | Some t \<Rightarrow> if t = [] then seen else insert t seen))"

definition selectTraceCount :: "StoreState \<Rightarrow> nat" where
  "selectTraceCount s = card (trace_ids_seen (st_exchanges s) (st_ids s) {})"

section \<open>Runs of the store\<close>

datatype store_action =
    act_applyEvent EventMessage
  | act_setBodyDecodedBytes nat Direction nat
  | act_setConnection ConnectionStatus
  | act_setService string
  | act_setProtocol "Protocol option"
  | act_setSelectedId "nat option"
  | act_setFilter string
  | act_setTraceFilter "string option"
  | act_setHoverTraceId "string option"
  | act_setListMode ListMode
  | act_setListWidth ListMode rat
  | act_setOrder Order
  | act_setDensity Density
  | act_toggleTraceGroup
  | act_setCmdKOpen bool
  | act_setHelpOpen bool
  | act_setTimeZone TimeZone
  | act_setRequestViewMode "ViewMode option"
  | act_setResponseViewMode "ViewMode option"
  | act_rehydrate PersistedPrefs

fun store_step :: "'a platform_scheme \<Rightarrow> store_action \<Rightarrow> StoreState \<Rightarrow> StoreState" where
  "store_step P (act_applyEvent m) s = applyEvent P m s"
| "store_step P (act_setBodyDecodedBytes i d n) s = setBodyDecodedBytes i d n s"
| "store_step P (act_setConnection c) s = setConnection c s"
| "store_step P (act_setService n) s = setService n s"
| "store_step P (act_setProtocol p) s = setProtocol p s"
| "store_step P (act_setSelectedId i) s = setSelectedId i s"
| "store_step P (act_setFilter f) s = setFilter f s"
| "store_step P (act_setTraceFilter t) s = setTraceFilter t s"
| "store_step P (act_setHoverTraceId t) s = setHoverTraceId t s"
| "store_step P (act_setListMode m) s = setListMode m s"
| "store_step P (act_setListWidth m w) s = setListWidth m w s"
| "store_step P (act_setOrder r) s = setOrder r s"
| "store_step P (act_setDensity d) s = setDensity d s"
| "store_step P act_toggleTraceGroup s = toggleTraceGroup s"
| "store_step P (act_setCmdKOpen b) s = setCmdKOpen b s"
| "store_step P (act_setHelpOpen b) s = setHelpOpen b s"
| "store_step P (act_setTimeZone z) s = setTimeZone z s"
| "store_step P (act_setRequestViewMode m) s = setRequestViewMode m s"
| "store_step P (act_setResponseViewMode m) s = setResponseViewMode m s"
| "store_step P (act_rehydrate p) s = rehydrate p s"

inductive store_reachable :: "'a platform_scheme \<Rightarrow> StoreState \<Rightarrow> bool" for P where
  store_start: "store_reachable P initial_store"
| store_next: "store_reachable P s \<Longrightarrow> store_reachable P (store_step P a s)"

lemmas setter_defs = setConnection_def setService_def setProtocol_def setSelectedId_def setFilter_def
  setTraceFilter_def setHoverTraceId_def setListMode_def setListWidth_def setOrder_def setDensity_def
  toggleTraceGroup_def setCmdKOpen_def setHelpOpen_def setTimeZone_def setRequestViewMode_def
  setResponseViewMode_def rehydrate_def

text \<open>The actions that touch the exchanges, and the frame of all the others.\<close>

fun data_action :: "store_action \<Rightarrow> bool" where
  "data_action (act_applyEvent m) = True"
| "data_action (act_setBodyDecodedBytes i d n) = True"
| "data_action a = False"

lemma store_step_frame:
  "\<not> data_action a \<Longrightarrow> exchange_store_of (store_step P a s) = exchange_store_of s"
  by (cases a) (simp_all add: setter_defs)

text \<open>The contract's step, ingest then evict, on the reducer.\<close>

abbreviation receive ::
  "'a platform_scheme \<Rightarrow> nat option \<Rightarrow> exchange_store \<Rightarrow> EventMessage \<Rightarrow> exchange_store" where
  "receive P \<equiv> bounded_store.accept (reducer_apply P) evict"

lemma applyEvent_accept:
  "exchange_store_of (applyEvent P m s) = receive P (st_selectedId s) (exchange_store_of s) m"
  by (simp add: applyEvent_def rs.accept_def Let_def split: option.split prod.split)

lemma applyEvent_selected: "st_selectedId (applyEvent P m s) = st_selectedId s"
  by (simp add: applyEvent_def Let_def split: option.split prod.split)

definition store_ok :: "StoreState \<Rightarrow> bool" where
  "store_ok s \<longleftrightarrow> store_wf (exchange_store_of s) \<and> store_within (exchange_store_of s)"

lemma store_ok_initial: "store_ok initial_store"
  by (simp add: store_ok_def initial_store_def store_wf_empty store_within_def within_caps_def payload_def
      MAX_PAYLOAD_BYTES_def)

lemma store_ok_applyEvent: "store_ok s \<Longrightarrow> store_ok (applyEvent P m s)"
  unfolding store_ok_def applyEvent_accept
  using rs.wf_accept rs.within_accept by blast

section \<open>Caching a decoded size\<close>

text \<open>The exchange with a decoded size set, and what that leaves alone.\<close>

lemma setBodyDecodedBytes_cases:
  obtains (same) "setBodyDecodedBytes i d n s = s"
  | (set) x x' where "st_exchanges s i = Some x"
      "setBodyDecodedBytes i d n s = s\<lparr>st_exchanges := (st_exchanges s)(i \<mapsto> x')\<rparr>"
      "ex_id x' = ex_id x" "exchangeBytes x' = exchangeBytes x" "exchange_ok x \<Longrightarrow> exchange_ok x'"
proof (cases "st_exchanges s i")
  case None
  then show ?thesis by (intro same) (simp add: setBodyDecodedBytes_def)
next
  case (Some x)
  let ?b = "if d = DirRequest then ex_requestBody x else ex_responseBody x"
  show ?thesis
  proof (cases ?b)
    case None
    with Some show ?thesis by (intro same) (simp add: setBodyDecodedBytes_def)
  next
    case b: (Some b)
    show ?thesis
    proof (cases "bs_decodedBytes b = Some n")
      case True
      with Some b show ?thesis by (intro same) (simp add: setBodyDecodedBytes_def)
    next
      case False
      let ?b' = "b\<lparr>bs_decodedBytes := Some n\<rparr>"
      let ?x' = "if d = DirRequest then x\<lparr>ex_requestBody := Some ?b'\<rparr> else x\<lparr>ex_responseBody := Some ?b'\<rparr>"
      have "body_ok b \<Longrightarrow> body_ok ?b'" by (simp add: body_ok_def split: option.splits)
      then have "exchange_ok x \<Longrightarrow> exchange_ok ?x'"
        using b by (auto simp: exchange_ok_def split: if_splits)
      moreover have "exchangeBytes ?x' = exchangeBytes x"
        using b by (auto simp: exchangeBytes_def body_bytes_def split: if_splits)
      moreover have "setBodyDecodedBytes i d n s = s\<lparr>st_exchanges := (st_exchanges s)(i \<mapsto> ?x')\<rparr>"
        using Some b False by (simp add: setBodyDecodedBytes_def Let_def)
      ultimately show ?thesis using Some by (intro set [of x ?x']) auto
    qed
  qed
qed

lemma payload_update:
  "entry_bytes (e i) = entry_bytes (Some x) \<Longrightarrow> payload (e(i \<mapsto> x)) ids = payload e ids"
  unfolding payload_def by (intro arg_cong [of _ _ sum_list] map_cong) auto

lemma store_ok_decoded: "store_ok s \<Longrightarrow> store_ok (setBodyDecodedBytes i d n s)"
proof (cases rule: setBodyDecodedBytes_cases [of i d n s])
  case (set x x')
  assume ok: "store_ok s"
  then have "ex_id x = i \<and> exchange_ok x"
    using set(1) by (auto simp: store_ok_def dest: store_wf_entry)
  then have wf: "store_wf ((st_exchanges s)(i \<mapsto> x'), st_ids s)"
    using ok set by (auto simp: store_ok_def store_wf_def)
  have "payload ((st_exchanges s)(i \<mapsto> x')) (st_ids s) = payload (st_exchanges s) (st_ids s)"
    using set(1,4) by (intro payload_update) (simp add: entry_bytes_def)
  then show ?thesis
    using ok set(2) wf by (simp add: store_ok_def store_within_def within_caps_def)
qed simp

lemma store_ok_step: "store_ok s \<Longrightarrow> store_ok (store_step P a s)"
proof (cases "data_action a")
  case True
  then show "store_ok s \<Longrightarrow> ?thesis"
    by (cases a) (simp_all add: store_ok_applyEvent store_ok_decoded)
next
  case False
  then show "store_ok s \<Longrightarrow> ?thesis"
    using store_step_frame [OF False, of P s] by (simp add: store_ok_def)
qed

interpretation store: started_machine "store_step P" store_ok initial_store
  for P :: "'a platform_scheme"
  by unfold_locales (simp_all add: store_ok_step store_ok_initial)

lemma reachable_ok: "store_reachable P s \<Longrightarrow> store_ok s"
  by (induction rule: store_reachable.induct) (simp_all add: store_ok_initial store_ok_step)

section \<open>The selection\<close>

definition selects :: "store_action \<Rightarrow> bool" where
  "selects a = (case a of act_setSelectedId i \<Rightarrow> True | _ \<Rightarrow> False)"

lemma step_selected: "\<not> selects a \<Longrightarrow> st_selectedId (store_step P a s) = st_selectedId s"
proof (cases a)
  case (act_setBodyDecodedBytes i d n)
  then show ?thesis by (cases rule: setBodyDecodedBytes_cases [of i d n s]) simp_all
qed (auto simp: setter_defs selects_def applyEvent_selected)

interpretation selection: framed_machine "store_step P" st_selectedId "\<lambda>a. \<not> selects a"
  for P :: "'a platform_scheme"
  by unfold_locales (rule step_selected)

lemma step_keeps_selected:
  assumes "store_ok s" "st_selectedId s = Some i" "st_exchanges s i \<noteq> None"
  shows "st_exchanges (store_step P a s) i \<noteq> None"
proof (cases "data_action a")
  case False
  then show ?thesis using assms store_step_frame [OF False, of P s] by simp
next
  case True
  then consider (event) m where "a = act_applyEvent m"
    | (decoded) j d n where "a = act_setBodyDecodedBytes j d n"
    by (cases a) auto
  then show ?thesis
  proof cases
    case event
    have "fst (receive P (Some i) (exchange_store_of s) m) i \<noteq> None"
      using assms by (intro rs.accept_spares) (simp_all add: store_ok_def)
    then show ?thesis
      using event assms(2) by (metis applyEvent_accept fst_conv store_step.simps(1))
  next
    case decoded
    then show ?thesis
      using assms(3) by (cases rule: setBodyDecodedBytes_cases [of j d n s]) auto
  qed
qed

section \<open>After an eviction\<close>

text \<open>Messages that carry a request line, and exchanges without one.\<close>

fun request_for :: "nat \<Rightarrow> store_action \<Rightarrow> bool" where
  "request_for i (act_applyEvent m) \<longleftrightarrow> msg_id m = i \<and> (case msg_event m of EvRequest rm u v h b \<Rightarrow> True | _ \<Rightarrow> False)"
| "request_for i a \<longleftrightarrow> False"

definition bare :: "Exchange \<Rightarrow> bool" where
  "bare x \<longleftrightarrow> ex_method x = None \<and> ex_uri x = None \<and> ex_version x = None \<and> ex_requestHeaders x = None
     \<and> ex_traceId x = None"

definition bare_at :: "nat \<Rightarrow> StoreState \<Rightarrow> bool" where
  "bare_at i s \<longleftrightarrow> (\<forall>x. st_exchanges s i = Some x \<longrightarrow> bare x)"

lemma bare_update:
  "update_exchange P ex dir ev = Some (Some ex') \<Longrightarrow> bare ex \<Longrightarrow>
   \<not> (case ev of EvRequest rm u v h b \<Rightarrow> True | _ \<Rightarrow> False) \<Longrightarrow> bare ex'"
  by (cases ev) (auto simp: bare_def split: Direction.splits)

lemma bare_fresh: "bare (fresh_exchange i t)"
  by (simp add: bare_def fresh_exchange_def)

lemma evict_some: "store_wf st \<Longrightarrow> fst (evict p st) i = Some x \<Longrightarrow> fst st i = Some x"
  using evict_lookup [of st p i] by auto

lemma bare_applyEvent:
  assumes "store_ok s" "bare_at i s" "\<not> request_for i (act_applyEvent m)"
  shows "bare_at i (applyEvent P m s)"
proof (cases "reducer_apply P m (exchange_store_of s)")
  case None
  then show ?thesis using assms(2) by (simp add: applyEvent_def)
next
  case (Some st)
  have wf: "store_wf st" using reducer_apply_wf [OF _ Some] assms(1) by (simp add: store_ok_def)
  have "bare x" if "fst st i = Some x" for x
    using Some
  proof (cases rule: reducer_apply_cases)
    case ignored
    then show ?thesis using that assms(2) by (simp add: bare_at_def)
  next
    case (updated ex')
    then show ?thesis
      using that assms(2,3) bare_fresh bare_update [OF updated(1)]
      by (cases "i = msg_id m") (auto simp: bare_at_def split: option.splits)
  qed
  then have "bare x" if "fst (evict (st_selectedId s) st) i = Some x" for x
    using evict_some [OF wf that] by simp
  then show ?thesis using Some by (cases "evict (st_selectedId s) st") (simp add: applyEvent_def bare_at_def)
qed

lemma bare_body [simp]: "bare (x\<lparr>ex_requestBody := b\<rparr>) = bare x" "bare (x\<lparr>ex_responseBody := b\<rparr>) = bare x"
  by (simp_all add: bare_def)

lemma bare_decoded: "bare_at i s \<Longrightarrow> bare_at i (setBodyDecodedBytes j d n s)"
proof (cases "st_exchanges s j")
  case (Some x)
  let ?b = "if d = DirRequest then ex_requestBody x else ex_responseBody x"
  assume s: "bare_at i s"
  then have "i = j \<Longrightarrow> bare x" using Some by (simp add: bare_at_def)
  then show ?thesis using Some s
    by (cases ?b) (simp_all add: setBodyDecodedBytes_def bare_at_def Let_def)
qed (simp add: setBodyDecodedBytes_def)

lemma bare_step: "store_ok s \<Longrightarrow> bare_at i s \<Longrightarrow> \<not> request_for i a \<Longrightarrow> bare_at i (store_step P a s)"
proof (cases a)
  case (act_applyEvent m)
  then show "store_ok s \<Longrightarrow> bare_at i s \<Longrightarrow> \<not> request_for i a \<Longrightarrow> ?thesis" by (simp add: bare_applyEvent)
next
  case (act_setBodyDecodedBytes j d n)
  then show "bare_at i s \<Longrightarrow> ?thesis" by (simp add: bare_decoded)
qed (simp_all add: bare_at_def setter_defs)

lemma bare_run:
  "store_ok s \<Longrightarrow> bare_at i s \<Longrightarrow> list_all (\<lambda>a. \<not> request_for i a) acts \<Longrightarrow> bare_at i (fold (store_step P) acts s)"
  by (induction acts arbitrary: s) (simp_all add: bare_step store_ok_step)

text \<open>Only a message makes an exchange disappear, and never the selected one.\<close>

lemma evicted_by_message:
  assumes "store_ok s" "st_exchanges s i \<noteq> None" "st_exchanges (store_step P a s) i = None"
  shows "(\<exists>m. a = act_applyEvent m) \<and> st_selectedId s \<noteq> Some i"
proof -
  have "\<exists>m. a = act_applyEvent m"
    using assms(2,3) by (cases a)
      (auto simp: setter_defs setBodyDecodedBytes_def Let_def split: option.splits if_splits)
  moreover have "st_selectedId s \<noteq> Some i"
    using step_keeps_selected [of s i P a] assms by auto
  ultimately show ?thesis by blast
qed

text \<open>Body data for an exchange that is not in the store.\<close>

definition body_of :: "Direction \<Rightarrow> Exchange \<Rightarrow> BodyState option" where
  "body_of dir x = (case dir of DirRequest \<Rightarrow> ex_requestBody x | DirResponse \<Rightarrow> ex_responseBody x)"

lemma late_body_data:
  assumes "exchanges (msg_id m) = None" "msg_event m = EvBodyData d"
  shows "\<exists>x b. reducer_apply P m (exchanges, ids) = Some (exchanges(msg_id m \<mapsto> x), ids @ [msg_id m])
    \<and> bare x \<and> ex_status x = None \<and> body_of (msg_direction m) x = Some b \<and> bs_sseState b = None
    \<and> bs_chunks b = (case bd_content d of None \<Rightarrow> [] | Some c \<Rightarrow> [bc_payload c])"
proof -
  obtain b where b: "appendBodyData P None d = Some b" "bs_sseState b = None"
    "bs_chunks b = (case bd_content d of None \<Rightarrow> [] | Some c \<Rightarrow> [bc_payload c])"
    by (cases "bd_content d") (simp_all add: appendBodyData_def empty_body_def Let_def)
  let ?new = "fresh_exchange (msg_id m) (em_timestamp (msg_exchange m))"
  let ?x = "if msg_direction m = DirRequest then ?new\<lparr>ex_requestBody := Some b\<rparr> else ?new\<lparr>ex_responseBody := Some b\<rparr>"
  have "update_exchange P ?new (msg_direction m) (EvBodyData d) = Some (Some ?x)"
    using b(1) by (cases "msg_direction m") (simp_all add: fresh_exchange_def)
  then have "reducer_apply P m (exchanges, ids) = Some (exchanges(msg_id m \<mapsto> ?x), ids @ [msg_id m])"
    using assms by (simp add: reducer_apply_def Let_def del: update_exchange.simps)
  moreover have "bare ?x" "ex_status ?x = None" "body_of (msg_direction m) ?x = Some b"
    by (cases "msg_direction m"; simp add: bare_def fresh_exchange_def body_of_def)+
  ultimately show ?thesis using b(2,3) by blast
qed

section \<open>The visible list\<close>

definition shown :: "StoreState \<Rightarrow> nat \<Rightarrow> bool" where
  "shown s i = (case st_exchanges s i of
     None \<Rightarrow> False
   | Some x \<Rightarrow> matchesFilter x (st_filter s) \<and> (st_traceFilter s = None \<or> ex_traceId x = st_traceFilter s))"

lemma visible_ids_eq:
  assumes "store_wf (exchange_store_of s)"
  shows "selectVisibleIds s =
    (if pp_order s = order_newest then rev (filter (shown s) (st_ids s)) else filter (shown s) (st_ids s))"
proof -
  have "map ex_id (filter (\<lambda>ex. st_traceFilter s = None \<or> ex_traceId ex = st_traceFilter s)
      (filter (\<lambda>ex. matchesFilter ex (st_filter s)) (List.map_filter (st_exchanges s) ids)))
    = filter (shown s) ids" for ids
  proof (induction ids)
    case (Cons i ids)
    show ?case
    proof (cases "st_exchanges s i")
      case (Some x)
      then have "ex_id x = i" using assms store_wf_entry by blast
      with Some Cons show ?thesis by (simp add: shown_def map_filter_simps)
    qed (use Cons in \<open>simp add: shown_def map_filter_simps\<close>)
  qed (simp add: map_filter_simps)
  then show ?thesis
    by (simp add: selectVisibleIds_def selectVisibleExchanges_def Let_def rev_map [symmetric])
qed

lemma trace_ids_seen_eq:
  "trace_ids_seen e ids seen =
   seen \<union> {t. t \<noteq> [] \<and> (\<exists>i\<in>set ids. \<exists>x. e i = Some x \<and> ex_traceId x = Some t)}"
  by (induction e ids seen rule: trace_ids_seen.induct) (auto split: option.splits)


section \<open>Properties\<close>

text \<open>
  Property C1. In every state the store reaches, by any interleaving of messages, decode results,
  user actions and rehydration, the ids are distinct and are the keys of the map, each exchange
  is under its own id with bodies that obey the storage rule, and both caps hold.
\<close>

theorem store_invariant:
  assumes "store_reachable P s"
  shows "distinct (st_ids s) \<and> set (st_ids s) = dom (st_exchanges s)
    \<and> (\<forall>i x. st_exchanges s i = Some x \<longrightarrow> ex_id x = i \<and> exchange_ok x)
    \<and> length (st_ids s) \<le> 1024
    \<and> (payload (st_exchanges s) (st_ids s) \<le> 536870912 \<or> length (st_ids s) \<le> 1)"
  using reachable_ok [OF assms]
  by (simp add: store_ok_def store_wf_def store_within_def within_caps_def MAX_EXCHANGES_def MAX_PAYLOAD_BYTES_def)

lemma evict_single: "evict p (e, [i]) = (e, [i])"
  by (simp add: evict_def evict_count.simps evict_payload.simps MAX_EXCHANGES_def)

lemma reachable_two:
  "store_reachable no_platform (setSelectedId (Some 4) (applyEvent no_platform error_message initial_store))"
  using store_next [OF store_next [OF store_start], where a1 = "act_applyEvent error_message"
      and a = "act_setSelectedId (Some 4)" and P = no_platform]
  by simp

theorem store_invariant_witness:
  "length (st_ids (setSelectedId (Some 4) (applyEvent no_platform error_message initial_store))) \<le> 1024"
  using store_invariant [OF reachable_two] by blast

text \<open>
  Property C2. The selected exchange, once in the store, is never evicted: it stays selected and
  in the store through any sequence of messages and actions other than selecting another one.
\<close>

theorem selected_exchange_survives:
  assumes "store_reachable P s" "st_selectedId s = Some i" "st_exchanges s i \<noteq> None"
    and "\<forall>a\<in>set as. \<not> selects a"
  shows "\<exists>x. selectSelected (foldl (\<lambda>s a. store_step P a s) s as) = Some x \<and> ex_id x = i"
proof -
  have "store_ok s \<Longrightarrow> \<forall>a\<in>set as. \<not> selects a \<Longrightarrow> st_selectedId s = Some i \<Longrightarrow> st_exchanges s i \<noteq> None \<Longrightarrow>
    store_ok (foldl (\<lambda>s a. store_step P a s) s as) \<and>
    st_selectedId (foldl (\<lambda>s a. store_step P a s) s as) = Some i \<and>
    st_exchanges (foldl (\<lambda>s a. store_step P a s) s as) i \<noteq> None" for s
  proof (induction as arbitrary: s)
    case (Cons a as)
    then show ?case
      using Cons.IH [of "store_step P a s"] step_selected [of a P s] step_keeps_selected [of s i P a]
      by (simp add: store_ok_step)
  qed simp
  from this [OF reachable_ok [OF assms(1)] assms(4,2,3)] show ?thesis
    by (auto simp: selectSelected_def store_ok_def dest: store_wf_entry)
qed

theorem selected_exchange_survives_witness:
  "let s = setSelectedId (Some 4) (applyEvent no_platform error_message initial_store)
   in \<exists>x. selectSelected (foldl (\<lambda>s a. store_step no_platform a s) s [act_setFilter ''x'', act_applyEvent error_message])
        = Some x \<and> ex_id x = 4"
proof -
  let ?s = "setSelectedId (Some 4) (applyEvent no_platform error_message initial_store)"
  have "st_selectedId ?s = Some 4" by (simp add: setSelectedId_def)
  moreover have "st_exchanges ?s 4 \<noteq> None"
    by (simp add: setSelectedId_def applyEvent_def reducer_apply_def error_message_def initial_store_def evict_single)
  ultimately show ?thesis
    unfolding Let_def
    by (intro selected_exchange_survives [OF reachable_two]) (simp_all add: selects_def)
qed

text \<open>
  Property C17. The visible list is the ids whose exchange matches the filter and the trace
  filter, each once, in arrival order or, under \<open>newest\<close>, in the reverse of it.
\<close>

theorem visible_ids_filtered_and_ordered:
  assumes "store_reachable P s"
  shows "selectVisibleIds s =
      (if pp_order s = order_newest then rev (filter (shown s) (st_ids s)) else filter (shown s) (st_ids s))
    \<and> distinct (selectVisibleIds s)
    \<and> selectVisibleIds (setOrder order_newest s) = rev (selectVisibleIds (setOrder order_oldest s))"
proof -
  have wf: "store_wf (exchange_store_of s)" using reachable_ok [OF assms] by (simp add: store_ok_def)
  have "shown (setOrder r s) = shown s" for r
    by (rule ext) (simp add: shown_def setOrder_def split: option.split)
  moreover have "store_wf (exchange_store_of (setOrder r s))" for r using wf by (simp add: setOrder_def)
  ultimately have "selectVisibleIds (setOrder order_newest s) = rev (selectVisibleIds (setOrder order_oldest s))"
    using visible_ids_eq [of "setOrder order_newest s"] visible_ids_eq [of "setOrder order_oldest s"]
    by (simp add: setOrder_def)
  then show ?thesis
    using visible_ids_eq [OF wf] wf by (simp add: store_wf_def)
qed

theorem visible_ids_filtered_and_ordered_witness:
  "distinct (selectVisibleIds (setSelectedId (Some 4) (applyEvent no_platform error_message initial_store)))"
  using visible_ids_filtered_and_ordered [OF reachable_two] by blast

text \<open>
  Persistence keeps exactly the preferences: a fresh session that loads what
  another one saved has its preferences and, in everything else, the session's own state.
\<close>

theorem prefs_roundtrip:
  "partialize (rehydrate (partialize s) t) = partialize s
   \<and> rehydrate (partialize t) (rehydrate (partialize s) t) = t
   \<and> exchange_store_of (rehydrate (partialize s) t) = exchange_store_of t
   \<and> st_requestViewMode (rehydrate (partialize s) t) = st_requestViewMode t
   \<and> st_selectedId (rehydrate (partialize s) t) = st_selectedId t"
  by (simp add: partialize_def rehydrate_def)

text \<open>
  The trace count is the number of distinct non-empty trace ids in the store.
\<close>

theorem selectTraceCount_counts:
  "selectTraceCount s =
   card {t. t \<noteq> [] \<and> (\<exists>i\<in>set (st_ids s). \<exists>x. st_exchanges s i = Some x \<and> ex_traceId x = Some t)}"
  by (simp add: selectTraceCount_def trace_ids_seen_eq)

text \<open>
  Property C39. Once an exchange has been evicted, which only a message does and never to the selected
  one: through any actions and messages other than a request for it, it is gone or without method,
  URI, version, request headers and trace; and body data that arrives for it while it is gone starts
  a new exchange under the old id at the newest end, whose body has only that chunk, as plain data,
  whatever it was before.
\<close>

theorem evicted_exchange_comes_back_bare:
  assumes "store_reachable P s" "st_exchanges s i \<noteq> None" "st_exchanges (store_step P a s) i = None"
    and "list_all (\<lambda>b. \<not> request_for i b) acts"
  shows "let t = fold (store_step P) acts (store_step P a s) in
    (\<exists>m. a = act_applyEvent m) \<and> st_selectedId s \<noteq> Some i
    \<and> (\<forall>x. st_exchanges t i = Some x \<longrightarrow> bare x)
    \<and> (\<forall>m d. msg_id m = i \<and> msg_event m = EvBodyData d \<and> st_exchanges t i = None \<longrightarrow>
        (\<exists>x b. reducer_apply P m (exchange_store_of t) = Some ((st_exchanges t)(i \<mapsto> x), st_ids t @ [i])
          \<and> bare x \<and> ex_status x = None \<and> body_of (msg_direction m) x = Some b \<and> bs_sseState b = None
          \<and> bs_chunks b = (case bd_content d of None \<Rightarrow> [] | Some c \<Rightarrow> [bc_payload c])))"
proof -
  have ok: "store_ok s" by (rule reachable_ok) (rule assms)
  have "bare_at i (store_step P a s)" using assms(3) by (simp add: bare_at_def)
  from bare_run [OF store_ok_step [OF ok] this assms(4)] evicted_by_message [OF ok assms(2,3)] show ?thesis
    using late_body_data by (auto simp: Let_def bare_at_def)
qed

definition late_report :: "nat \<Rightarrow> Event \<Rightarrow> store_action" where
  "late_report i ev = act_applyEvent \<lparr>msg_exchange = \<lparr>em_exchange_id = i, em_timestamp = ''t''\<rparr>,
     msg_direction = DirResponse, msg_event = ev\<rparr>"

definition late_data :: "nat \<Rightarrow> Event" where
  "late_data n = EvBodyData \<lparr>bd_content = None, bd_trailers = None, bd_at_end = False, bd_total_bytes = n\<rparr>"

definition full_store :: StoreState where
  "full_store = fold (store_step no_platform)
     [late_report 7 (EvRequest ''GET'' ''/'' ''HTTP/1.1'' [] NoBody), late_report 7 (late_data 400000000)]
     initial_store"

lemmas full_store_defs = full_store_def late_report_def late_data_def applyEvent_def reducer_apply_def
  initial_store_def evict_def evict_count.simps evict_payload.simps oldestEvictable_def entry_bytes_def
  exchangeBytes_def body_bytes_def fresh_exchange_def appendBodyData_def empty_body_def traceparent_id_def
  getHeader_def MAX_EXCHANGES_def MAX_PAYLOAD_BYTES_def Let_def

theorem evicted_exchange_comes_back_bare_witness:
  "st_exchanges full_store 7 \<noteq> None
   \<and> (\<exists>x. st_exchanges (fold (store_step no_platform) [late_report 7 (late_data 5)]
        (store_step no_platform (late_report 8 (late_data 400000000)) full_store)) 7 = Some x \<and> bare x)"
proof -
  let ?a = "late_report 8 (late_data 400000000)" and ?acts = "[late_report 7 (late_data 5)]"
  let ?t = "fold (store_step no_platform) ?acts (store_step no_platform ?a full_store)"
  have full: "store_reachable no_platform full_store"
    unfolding full_store_def by (simp add: store_reachable.intros)
  have held: "st_exchanges full_store 7 \<noteq> None" by (simp add: full_store_defs)
  have gone: "st_exchanges (store_step no_platform ?a full_store) 7 = None" by (simp add: full_store_defs)
  have returned: "st_exchanges ?t 7 \<noteq> None" by (simp add: full_store_defs)
  have "list_all (\<lambda>b. \<not> request_for 7 b) ?acts" by (simp add: late_report_def late_data_def)
  from evicted_exchange_comes_back_bare [OF full held gone this] have "\<forall>x. st_exchanges ?t 7 = Some x \<longrightarrow> bare x"
    unfolding Let_def by blast
  with held returned show ?thesis by blast
qed

end
