(* ===== verification/Dom.thy ===== *)
theory Dom
  imports Prelude
begin

text \<open>
  What a React component returns, as a tree. \<open>Txt\<close> is a text child; \<open>El tag attrs handlers
  children\<close> is an element, by its tag or, for a component of another file, by its name. The
  attributes are those that carry content or state (roles, labels, test ids, disabled, titles);
  class names and inline styles are left out, except where a component computes them from its
  state. A handler pairs an event name with what it does, a value of a component's own action
  type \<open>'h\<close>. A child that is \<open>null\<close> is absent.
\<close>

datatype 'h dom =
    Txt "glyph list"
  | El string "(string \<times> glyph list) list" "(string \<times> 'h) list" "'h dom list"

text \<open>\<open>textContent\<close> of a node.\<close>

fun text_content :: "'h dom \<Rightarrow> glyph list" where
  "text_content (Txt s) = s"
| "text_content (El tag attrs handlers children) = concat (map text_content children)"

abbreviation texts :: "'h dom list \<Rightarrow> glyph list" where
  "texts ds \<equiv> concat (map text_content ds)"

text \<open>All handlers of a tree, in document order.\<close>

fun dom_handlers :: "'h dom \<Rightarrow> (string \<times> 'h) list" where
  "dom_handlers (Txt s) = []"
| "dom_handlers (El tag attrs handlers children) = handlers @ concat (map dom_handlers children)"

abbreviation handlers_of :: "'h dom list \<Rightarrow> (string \<times> 'h) list" where
  "handlers_of ds \<equiv> concat (map dom_handlers ds)"

text \<open>All elements of a tree, in document order, and the elements with a tag.\<close>

fun dom_elements :: "'h dom \<Rightarrow> 'h dom list" where
  "dom_elements (Txt s) = []"
| "dom_elements (El tag attrs handlers children) =
     El tag attrs handlers children # concat (map dom_elements children)"

fun dom_tag :: "'h dom \<Rightarrow> string" where
  "dom_tag (Txt s) = []"
| "dom_tag (El tag attrs handlers children) = tag"

fun dom_attr :: "string \<Rightarrow> 'h dom \<Rightarrow> glyph list option" where
  "dom_attr a (Txt s) = None"
| "dom_attr a (El tag attrs handlers children) = map_of attrs a"

text \<open>An optional attribute, an optional child.\<close>

definition attr_if :: "bool \<Rightarrow> string \<Rightarrow> glyph list \<Rightarrow> (string \<times> glyph list) list" where
  "attr_if b a v = (if b then [(a, v)] else [])"

definition child_if :: "bool \<Rightarrow> 'h dom list \<Rightarrow> 'h dom list" where
  "child_if b ds = (if b then ds else [])"

lemma child_if_simps [simp]: "child_if True ds = ds" "child_if False ds = []"
  by (simp_all add: child_if_def)

lemma attr_if_simps [simp]: "attr_if True a v = [(a, v)]" "attr_if False a v = []"
  by (simp_all add: attr_if_def)

abbreviation bool_text :: "bool \<Rightarrow> glyph list" where
  "bool_text b \<equiv> lat (if b then ''true'' else ''false'')"

end
