(* ===== verification/Exchange_View.thy ===== *)
theory Exchange_View
  imports Utils Dom
begin

text \<open>
  Display models of an exchange: \<open>lib/exchange.ts\<close>, \<open>lib/tokens.ts\<close>, \<open>protocol/index.ts\<close>, and
  the row of the list with its atoms, \<open>components/exchange-row.tsx\<close>,
  \<open>components/status-code.tsx\<close>, \<open>components/method-badge.tsx\<close>.

  The trace hash is kept at 32 bits. \<open>getTime\<close> and \<open>offset\<close> are the host's time functions, as in
  \<open>Utils\<close>.

  Shown: the two status classifiers agree; the trace hash is a polynomial modulo \<open>2 ^ 32\<close> and a
  trace has one of seven colours; which sizes are shown.
\<close>

section \<open>Status\<close>

datatype StatusKind = sk_ok | sk_redirect | sk_client | sk_server | sk_pending | sk_error

definition statusKind :: "string option \<Rightarrow> bool \<Rightarrow> StatusKind" where
  "statusKind status hasError =
     (if hasError then sk_error
      else case status of
          None \<Rightarrow> sk_pending
        | Some s \<Rightarrow> (case parseInt10 s of
            None \<Rightarrow> sk_error
          | Some code \<Rightarrow> if 500 \<le> code then sk_server
              else if 400 \<le> code then sk_client
              else if 300 \<le> code then sk_redirect
              else sk_ok))"

text \<open>\<open>statusClass\<close> of \<open>lib/tokens.ts\<close>, on numeric codes.\<close>

definition code_status :: "int option \<Rightarrow> bool \<Rightarrow> StatusKind" where
  "code_status status hasError =
     (if hasError then sk_error
      else case status of
          None \<Rightarrow> sk_pending
        | Some code \<Rightarrow> if 500 \<le> code then sk_server
            else if 400 \<le> code then sk_client
            else if 300 \<le> code then sk_redirect
            else sk_ok)"

definition STATUS_REASON :: "int \<Rightarrow> string option" where
  "STATUS_REASON = map_of
     [(200, ''OK''), (201, ''Created''), (202, ''Accepted''), (204, ''No Content''),
      (301, ''Moved Permanently''), (302, ''Found''), (304, ''Not Modified''), (400, ''Bad Request''),
      (401, ''Unauthorized''), (403, ''Forbidden''), (404, ''Not Found''), (409, ''Conflict''),
      (422, ''Unprocessable Entity''), (429, ''Too Many Requests''), (500, ''Internal Server Error''),
      (502, ''Bad Gateway''), (503, ''Service Unavailable''), (504, ''Gateway Timeout'')]"

definition statusLine :: "int option \<Rightarrow> string option" where
  "statusLine status = (case status of
     None \<Rightarrow> None
   | Some code \<Rightarrow> (case STATUS_REASON code of
       Some reason \<Rightarrow> Some (showInt code @ '' '' @ reason)
     | None \<Rightarrow> Some (showInt code)))"

definition statusCodeOnly :: "string \<Rightarrow> string" where
  "statusCodeOnly status = hd (split_on CHR '' '' status)"

section \<open>Sizes\<close>

record SizeView =
  sv_wireBytes :: "nat option"
  sv_decodedBytes :: "nat option"
  sv_encoding :: "string option"
  sv_tooltip :: "string option"

definition buildSizeView :: "nat option \<Rightarrow> nat option \<Rightarrow> string option \<Rightarrow> SizeView" where
  "buildSizeView wireBytes decodedBytes contentEncoding = (case wireBytes of
     None \<Rightarrow> \<lparr>sv_wireBytes = None, sv_decodedBytes = None, sv_encoding = None, sv_tooltip = None\<rparr>
   | Some wire \<Rightarrow> (case shortEncoding contentEncoding of
       None \<Rightarrow> \<lparr>sv_wireBytes = Some wire, sv_decodedBytes = None, sv_encoding = None, sv_tooltip = None\<rparr>
     | Some encoding \<Rightarrow>
         let decoded = (if decodedBytes \<noteq> None \<and> decodedBytes \<noteq> Some wire then decodedBytes else None);
             tooltip = (case decoded of
                 Some d \<Rightarrow> fmtBytes wire @ '' on the wire / '' @ fmtBytes d @ '' after decompression ('' @ encoding @ '')''
               | None \<Rightarrow> fmtBytes wire @ '' on the wire ('' @ encoding
                         @ ''; decoded size unknown until the body is opened)'')
         in \<lparr>sv_wireBytes = Some wire, sv_decodedBytes = decoded, sv_encoding = Some encoding,
             sv_tooltip = Some tooltip\<rparr>))"

definition sizeView :: "BodyState option \<Rightarrow> SizeView" where
  "sizeView body = (case body of
     None \<Rightarrow> buildSizeView None None None
   | Some b \<Rightarrow> buildSizeView (Some (bs_wireBytes b)) (bs_decodedBytes b) (bs_contentEncoding b))"

definition responseSizeView :: "Exchange \<Rightarrow> SizeView" where
  "responseSizeView ex = sizeView (ex_responseBody ex)"

definition sizeText :: "SizeView \<Rightarrow> glyph list" where
  "sizeText view = (case sv_wireBytes view of
     None \<Rightarrow> [em_dash]
   | Some wire \<Rightarrow> lat (case sv_decodedBytes view of
       Some d \<Rightarrow> fmtBytes wire @ '' / '' @ fmtBytes d
     | None \<Rightarrow> fmtBytes wire))"

definition fmtBytesOrDash :: "nat option \<Rightarrow> glyph list" where
  "fmtBytesOrDash n = (case n of None \<Rightarrow> [em_dash] | Some k \<Rightarrow> lat (fmtBytes k))"

section \<open>Protocols\<close>

definition isSSEExchange :: "Exchange \<Rightarrow> bool" where
  "isSSEExchange ex = (case ex_responseBody ex of
     None \<Rightarrow> False
   | Some b \<Rightarrow> (case bs_contentType b of
       None \<Rightarrow> False
     | Some ct \<Rightarrow> startsWith (toLowerCase ct) ''text/event-stream''))"

definition isMsearchExchange :: "Exchange \<Rightarrow> bool" where
  "isMsearchExchange ex = isBulkOperation (ex_uri ex)"

definition showPairsTab :: "Protocol option \<Rightarrow> string option \<Rightarrow> bool" where
  "showPairsTab protocol uri =
     (if protocol \<noteq> Some Elasticsearch \<and> protocol \<noteq> Some OpenSearch then False else isBulkOperation uri)"

section \<open>Trace colours\<close>

definition TRACE_TOKEN_COUNT :: nat where
  "TRACE_TOKEN_COUNT = 7"

fun hash_loop :: "32 word \<Rightarrow> string \<Rightarrow> 32 word" where
  "hash_loop h [] = h"
| "hash_loop h (c # s) = hash_loop (h * 31 + word_of_nat (charCode c)) s"

definition hashTrace :: "string \<Rightarrow> nat" where
  "hashTrace s = unat (hash_loop 0 s)"

definition traceTokenIndex :: "string \<Rightarrow> nat" where
  "traceTokenIndex traceId = hashTrace traceId mod TRACE_TOKEN_COUNT + 1"

definition traceColorVar :: "string \<Rightarrow> string" where
  "traceColorVar traceId = ''var(--trace-'' @ showNat (traceTokenIndex traceId) @ '')''"

definition shortTraceId :: "string \<Rightarrow> glyph list" where
  "shortTraceId s =
     (if length s \<le> 10 then lat s else lat (take 4 s) @ [ellipsis] @ lat (drop (length s - 4) s))"

section \<open>Atoms\<close>

fun KIND_TEXT :: "StatusKind \<Rightarrow> string" where
  "KIND_TEXT sk_ok = ''text-ok''"
| "KIND_TEXT sk_redirect = ''text-redirect''"
| "KIND_TEXT sk_client = ''text-client''"
| "KIND_TEXT sk_server = ''text-server''"
| "KIND_TEXT sk_pending = ''text-pending''"
| "KIND_TEXT sk_error = ''text-error''"

definition opt_attr :: "string \<Rightarrow> glyph list option \<Rightarrow> (string \<times> glyph list) list" where
  "opt_attr a v = (case v of None \<Rightarrow> [] | Some x \<Rightarrow> [(a, x)])"

definition StatusCode :: "string option \<Rightarrow> bool \<Rightarrow> bool \<Rightarrow> string option \<Rightarrow> 'h dom" where
  "StatusCode status hasError full title =
     (let attrs = (''data-testid'', lat ''status-code'') # opt_attr ''title'' (map_option lat title);
          err = (''data-error'', lat ''true'')
      in if hasError then
           (case status of
              Some s \<Rightarrow> El ''span'' (err # (''class'', lat ''text-client'') # attrs) []
                          [Txt (lat (statusCodeOnly s)), Txt (Lat CHR '' '' # [Uni 0x2715])]
            | None \<Rightarrow> El ''Badge'' (err # (''class'', lat ''text-error'') # attrs) [] [Txt (lat ''Error'')])
         else (case status of
              None \<Rightarrow> El ''span'' ((''class'', lat ''text-pending'') # attrs) []
                        [El ''span'' [(''aria-hidden'', lat ''true'')] [] [],
                         El ''span'' [] [] [Txt (lat ''pending'')],
                         Txt (lat [CHR 0xB7, CHR 0xB7, CHR 0xB7])]
            | Some s \<Rightarrow> El ''span'' ((''class'', lat (KIND_TEXT (statusKind (Some s) False))) # attrs) []
                          [Txt (lat (if full then s else statusCodeOnly s))]))"

definition KNOWN_METHODS :: "string list" where
  "KNOWN_METHODS = [''GET'', ''POST'', ''PUT'', ''PATCH'', ''DELETE'', ''HEAD'', ''OPTIONS'']"

definition knownMethod :: "string \<Rightarrow> string option" where
  "knownMethod rmethod =
     (let upper = toUpperCase rmethod in if upper \<in> set KNOWN_METHODS then Some upper else None)"

definition method_class :: "string option \<Rightarrow> string" where
  "method_class known = (case known of
     None \<Rightarrow> ''text-muted-foreground bg-secondary''
   | Some m \<Rightarrow> ''text-method-'' @ toLowerCase m @ '' bg-method-'' @ toLowerCase m @ ''-bg'')"

definition MethodBadge :: "string option \<Rightarrow> 'h dom" where
  "MethodBadge rmethod =
     (let known = (case rmethod of Some m \<Rightarrow> knownMethod m | None \<Rightarrow> None)
      in El ''span'' [(''data-testid'', lat ''method-badge''), (''class'', lat (method_class known))] []
           [Txt (lat (case rmethod of Some m \<Rightarrow> m | None \<Rightarrow> ''?''))])"

text \<open>\<open>fmtMs\<close> of an elapsed time, which is a whole number.\<close>

definition fmt_elapsed :: "int option \<Rightarrow> glyph list" where
  "fmt_elapsed ms = (case ms of
     None \<Rightarrow> fmtMs None
   | Some m \<Rightarrow> if m < 0 then lat (showInt m @ '' ms'') else fmtMs (Some (nat m)))"

section \<open>The row\<close>

definition encoding_note :: "string option \<Rightarrow> 'h dom list" where
  "encoding_note encoding = (case encoding of
     None \<Rightarrow> []
   | Some e \<Rightarrow> [El ''span'' [] [] [Txt (lat ('' ('' @ e @ '')''))]])"

definition trace_attr :: "string option \<Rightarrow> (string \<times> glyph list) list" where
  "trace_attr traceId = (case traceId of
     None \<Rightarrow> []
   | Some t \<Rightarrow> if t = [] then [] else [(''data-trace'', lat (showNat (traceTokenIndex t)))])"

definition ExchangeRow ::
    "(string \<Rightarrow> int option) \<Rightarrow> (int \<Rightarrow> int) \<Rightarrow> Exchange \<Rightarrow> bool \<Rightarrow> TimeZone \<Rightarrow> 'h \<Rightarrow> 'h dom" where
  "ExchangeRow getTime offset x selected tz on_select =
     (let hasError = (ex_error x \<noteq> None);
          req = sizeView (ex_requestBody x);
          res = responseSizeView x
      in El ''button''
           ([(''role'', lat ''option''), (''aria-selected'', bool_text selected)]
            @ attr_if selected ''data-selected'' (lat ''true'')
            @ attr_if hasError ''data-error'' (lat ''true'')
            @ trace_attr (ex_traceId x))
           [(''click'', on_select)]
           [El ''div'' [] []
              ([MethodBadge (ex_method x), StatusCode (ex_status x) hasError True None]
               @ child_if (isSSEExchange x) [El ''Badge'' [] [] [Txt (lat ''SSE'')]]
               @ child_if (isMsearchExchange x) [El ''Badge'' [] [] [Txt (lat ''msearch'')]]
               @ [El ''span'' [] [] [Txt (lat (formatAbsoluteTime getTime offset (ex_timestamp x) tz))]]),
            El ''SimpleTooltip'' (opt_attr ''content'' (map_option lat (ex_uri x))) []
              [El ''div'' [] [] [Txt (lat (case ex_uri x of Some u \<Rightarrow> u | None \<Rightarrow> ''/''))]],
            El ''div'' [] []
              [El ''span'' [] []
                 [Txt (case ex_error x of Some e \<Rightarrow> lat (xe_message e) | None \<Rightarrow> fmt_elapsed (ex_elapsedMs x))],
               El ''span'' [] [] (Txt (lat ''req '') # Txt (fmtBytesOrDash (sv_wireBytes req)) # encoding_note (sv_encoding req)),
               El ''span'' [] [] (Txt (lat ''res '') # Txt (fmtBytesOrDash (sv_wireBytes res)) # encoding_note (sv_encoding res))]])"

section \<open>The trace hash\<close>

text \<open>The value of a string as a number in base 31, first code unit first.\<close>

definition poly31 :: "string \<Rightarrow> nat" where
  "poly31 s = foldl (\<lambda>n c. n * 31 + charCode c) 0 s"

lemma hash_loop_poly:
  "hash_loop (word_of_nat n) s = word_of_nat (foldl (\<lambda>n c. n * 31 + charCode c) n s)"
proof (induction s arbitrary: n)
  case (Cons c s)
  have "word_of_nat n * 31 + word_of_nat (charCode c) = (word_of_nat (n * 31 + charCode c) :: 32 word)"
    by simp
  then show ?case using Cons [of "n * 31 + charCode c"] by (simp only: hash_loop.simps foldl.simps)
qed simp

section \<open>Properties\<close>

text \<open>
  The trace hash is the value of the id as a base 31 number, wrapped at 32 bits, so
  it depends on every code unit and on their order; the colour index is in the range 1 to 7.
\<close>

theorem trace_hash_wraps:
  "hashTrace s = poly31 s mod 2 ^ 32 \<and> 1 \<le> traceTokenIndex s \<and> traceTokenIndex s \<le> 7"
proof -
  have "hashTrace s = poly31 s mod 2 ^ 32"
    using hash_loop_poly [of 0 s] by (simp add: hashTrace_def poly31_def unat_of_nat)
  moreover have "hashTrace s mod 7 < 7" by simp
  ultimately show ?thesis by (simp add: traceTokenIndex_def TRACE_TOKEN_COUNT_def)
qed

text \<open>The classes of \<open>lib/utils.ts\<close> as kinds.\<close>

fun kind_of_class :: "StatusClass \<Rightarrow> StatusKind" where
  "kind_of_class sc_ok = sk_ok"
| "kind_of_class sc_redir = sk_redirect"
| "kind_of_class sc_cli = sk_client"
| "kind_of_class sc_srv = sk_server"
| "kind_of_class sc_pending = sk_pending"
| "kind_of_class sc_err = sk_error"

text \<open>
  The three status classifiers of the code agree: the one on status lines with the
  older one of \<open>lib/utils.ts\<close>, and, on a line that starts with a number, with the one on codes;
  an error wins over any status.
\<close>

theorem status_classifiers_agree:
  "statusKind status False = kind_of_class (statusClass status)
   \<and> statusKind (Some (showNat n @ '' '' @ reason)) e = code_status (Some (int n)) e
   \<and> statusKind status True = sk_error"
proof -
  have digits: "\<forall>c\<in>set (showNat n). is_digit c"
    using showNat_digits [of _ n] by (fastforce simp: is_digit_def Let_def)
  have val: "foldl (\<lambda>n c. n * 10 + (charCode c - 48)) 0 (showNat n) = n"
  proof -
    have "radix_value 10 (showNat n) = n" by (simp add: showNat_def radix_value_toRadix)
    moreover have "foldl (\<lambda>n c. n * 10 + digit_value c) k ds = foldl (\<lambda>n c. n * 10 + (charCode c - 48)) k ds"
      if "\<forall>c\<in>set ds. is_digit c" for k ds
      using that by (induction ds arbitrary: k) (simp_all add: digit_value_def is_digit_def Let_def)
    ultimately show ?thesis using digits by (simp add: radix_value_def)
  qed
  obtain d ds where n: "showNat n = d # ds" by (cases "showNat n") simp_all
  have d: "is_digit d" using digits n by simp
  then have "\<not> is_ws d" "d \<noteq> CHR ''-''" "d \<noteq> CHR ''+''"
    by (auto simp: is_digit_def is_ws_def Let_def charCode_def)
  moreover have "\<not> is_digit CHR '' ''" by (simp add: is_digit_def charCode_def)
  then have "takeWhile is_digit (showNat n @ '' '' @ reason) = showNat n"
    using digits by (simp add: takeWhile_append)
  ultimately have "parseInt10 (showNat n @ '' '' @ reason) = Some (int n)"
    using val n by (simp add: parseInt10_def trimStart_def Let_def digits_value_def)
  then show ?thesis
    by (auto simp: statusKind_def code_status_def statusClass_def split: option.split)
qed

text \<open>
  A body's size is shown with a second figure exactly when it is encoded and its
  decoded size is known and different; an encoding that is empty or \<open>identity\<close> is never shown.
\<close>

theorem size_view_dual_iff:
  "sv_wireBytes (buildSizeView wire decoded enc) = wire
   \<and> (sv_decodedBytes (buildSizeView wire decoded enc) \<noteq> None \<longleftrightarrow>
        wire \<noteq> None \<and> shortEncoding enc \<noteq> None \<and> decoded \<noteq> None \<and> decoded \<noteq> wire)
   \<and> (sv_tooltip (buildSizeView wire decoded enc) \<noteq> None \<longleftrightarrow> wire \<noteq> None \<and> shortEncoding enc \<noteq> None)
   \<and> sv_encoding (buildSizeView wire decoded enc) \<notin> {Some [], Some ''identity''}"
proof -
  have "shortEncoding enc \<notin> {Some [], Some ''identity''}"
    by (auto simp: shortEncoding_def Let_def split: option.splits if_splits)
  then show ?thesis
    by (cases wire; cases "shortEncoding enc") (auto simp: buildSizeView_def Let_def)
qed

text \<open>
  A short trace id has at most ten characters and keeps the ends of the id.
\<close>

lemma shortTraceId_bounded: "length (shortTraceId s) \<le> 10 \<and> (length s \<le> 10 \<longrightarrow> shortTraceId s = lat s)"
  by (simp add: shortTraceId_def)

end
