(* ===== verification/Trace.thy ===== *)
theory Trace
  imports Exchange_View
begin

text \<open>
  Traces in the request list: the lane-packed rail of \<open>components/trace-rail.tsx\<close>, the grouped
  list of \<open>components/trace-group.tsx\<close> and the pill of \<open>components/trace-tag.tsx\<close>.

  A JavaScript map with insertion order is an association list. Pixel offsets of rows come from
  the virtualizer and are a parameter.

  Shown: there is one bar per trace with more than one request, bars of a lane never overlap and
  the number of lanes is the least possible; the grouped list shows every request exactly once.
\<close>

section \<open>Lanes\<close>

record TraceSpan =
  ts_traceId :: string
  ts_first :: nat
  ts_last :: nat
  ts_count :: nat

record TraceInterval = TraceSpan +
  ti_lane :: nat

fun update_span :: "TraceSpan list \<Rightarrow> string \<Rightarrow> nat \<Rightarrow> TraceSpan list" where
  "update_span [] traceId i = [\<lparr>ts_traceId = traceId, ts_first = i, ts_last = i, ts_count = 1\<rparr>]"
| "update_span (s # spans) traceId i =
     (if ts_traceId s = traceId then s\<lparr>ts_last := i, ts_count := ts_count s + 1\<rparr> # spans
      else s # update_span spans traceId i)"

fun collect_spans :: "string option list \<Rightarrow> nat \<Rightarrow> TraceSpan list \<Rightarrow> TraceSpan list" where
  "collect_spans [] i spans = spans"
| "collect_spans (t # ts) i spans =
     collect_spans ts (i + 1)
       (case t of None \<Rightarrow> spans | Some traceId \<Rightarrow> if traceId = [] then spans else update_span spans traceId i)"

definition with_lane :: "TraceSpan \<Rightarrow> nat \<Rightarrow> TraceInterval" where
  "with_lane s lane =
     \<lparr>ts_traceId = ts_traceId s, ts_first = ts_first s, ts_last = ts_last s, ts_count = ts_count s, ti_lane = lane\<rparr>"

fun assign_lanes :: "TraceSpan list \<Rightarrow> nat list \<Rightarrow> TraceInterval list \<times> nat list" where
  "assign_lanes [] laneEnds = ([], laneEnds)"
| "assign_lanes (s # spans) laneEnds =
     (let (lane, laneEnds') = (case findIndex (\<lambda>stop. stop < ts_first s) laneEnds of
            None \<Rightarrow> (length laneEnds, laneEnds @ [ts_last s])
          | Some lane \<Rightarrow> (lane, laneEnds[lane := ts_last s]));
          (intervals, final) = assign_lanes spans laneEnds'
      in (with_lane s lane # intervals, final))"

definition sorted_spans :: "string option list \<Rightarrow> TraceSpan list" where
  "sorted_spans traceIds = sort_key ts_first (filter (\<lambda>s. ts_count s > 1) (collect_spans traceIds 0 []))"

definition packLanes :: "string option list \<Rightarrow> TraceInterval list \<times> nat" where
  "packLanes traceIds =
     (let (intervals, laneEnds) = assign_lanes (sorted_spans traceIds) [] in (intervals, length laneEnds))"

section \<open>The rail\<close>

definition LANE_W :: nat where "LANE_W = 3"
definition LANE_GAP :: nat where "LANE_GAP = 3"
definition PAD_L :: nat where "PAD_L = 5"
definition PAD_R :: nat where "PAD_R = 4"

definition traceRailWidth :: "nat \<Rightarrow> nat" where
  "traceRailWidth laneCount = PAD_L + PAD_R + laneCount * LANE_W + (laneCount - 1) * LANE_GAP"

datatype trace_action =
    hover_trace "string option"
  | select_trace string
  | toggle_group string
  | select_exchange nat
  | copy_trace
  | next_in_trace

definition trace_bar ::
    "(nat \<Rightarrow> int) \<Rightarrow> (nat \<Rightarrow> int) \<Rightarrow> string option \<Rightarrow> TraceInterval \<Rightarrow> trace_action dom" where
  "trace_bar rowTop rowBottom activeTraceId iv =
     (let top = rowTop (ts_first iv) + 4;
          height = rowBottom (ts_last iv) - rowTop (ts_first iv) - 8;
          left = PAD_L + ti_lane iv * (LANE_W + LANE_GAP);
          dimmed = (activeTraceId \<noteq> None \<and> activeTraceId \<noteq> Some (ts_traceId iv))
      in El ''button''
           ([(''aria-label'', lat (''Filter to trace '' @ ts_traceId iv)), (''top'', lat (showInt top)),
             (''height'', lat (showInt height)), (''left'', lat (showNat left)), (''width'', lat (showNat LANE_W)),
             (''background'', lat (traceColorVar (ts_traceId iv)))]
            @ attr_if dimmed ''class'' (lat ''opacity-20''))
           [(''mouseenter'', hover_trace (Some (ts_traceId iv))), (''click'', select_trace (ts_traceId iv))] [])"

definition TraceRail ::
    "string option list \<Rightarrow> (nat \<Rightarrow> int) \<Rightarrow> (nat \<Rightarrow> int) \<Rightarrow> string option \<Rightarrow> trace_action dom" where
  "TraceRail traceIds rowTop rowBottom activeTraceId =
     (let (intervals, laneCount) = packLanes traceIds
      in El ''div'' [(''width'', lat (showNat (traceRailWidth laneCount)))] [(''mouseleave'', hover_trace None)]
           (map (trace_bar rowTop rowBottom activeTraceId) intervals))"

section \<open>The grouped list\<close>

definition trace_total :: "Exchange list \<Rightarrow> int" where
  "trace_total members = foldl (\<lambda>a m. a + (case ex_elapsedMs m of Some e \<Rightarrow> e | None \<Rightarrow> 0)) 0 members"

definition TraceGroup ::
    "(string \<Rightarrow> int option) \<Rightarrow> (int \<Rightarrow> int) \<Rightarrow> bool \<Rightarrow> string \<Rightarrow> Exchange list \<Rightarrow> nat option \<Rightarrow> TimeZone \<Rightarrow>
     trace_action dom" where
  "TraceGroup getTime offset opened traceId members selectedId tz =
     El ''div'' [(''border-left-color'', lat (traceColorVar traceId))]
       [(''mouseenter'', hover_trace (Some traceId)), (''mouseleave'', hover_trace None)]
       (El ''div'' [] []
          [El ''button''
             [(''aria-expanded'', bool_text opened),
              (''aria-label'', lat (if opened then ''Collapse trace'' else ''Expand trace''))]
             [(''click'', toggle_group traceId)]
             [El ''ChevronRight'' [] [] [],
              El ''span'' [(''background'', lat (traceColorVar traceId)), (''aria-hidden'', lat ''true'')] [] []],
           El ''button'' [(''aria-label'', lat ''Filter to trace '' @ shortTraceId traceId)]
             [(''click'', select_trace traceId)] [Txt (lat ''trace ''), Txt (shortTraceId traceId)],
           El ''span'' [] [] [Txt (lat (CHR 0xB7 # '' '' @ showNat (length members) @ '' requests''))],
           El ''span'' [] [] [Txt (lat (CHR 0xB7 # '' '')), Txt (fmt_elapsed (Some (trace_total members))), Txt (lat '' total'')]]
        # child_if opened
            [El ''div'' [] []
               (map (\<lambda>m. ExchangeRow getTime offset m (Some (ex_id m) = selectedId) tz (select_exchange (ex_id m))) members)])"

text \<open>The members of each trace, in list order.\<close>

fun add_member :: "(string \<times> Exchange list) list \<Rightarrow> string \<Rightarrow> Exchange \<Rightarrow> (string \<times> Exchange list) list" where
  "add_member [] traceId x = [(traceId, [x])]"
| "add_member ((t, arr) # rest) traceId x =
     (if t = traceId then (t, arr @ [x]) # rest else (t, arr) # add_member rest traceId x)"

fun collect_members :: "Exchange list \<Rightarrow> (string \<times> Exchange list) list \<Rightarrow> (string \<times> Exchange list) list" where
  "collect_members [] byTrace = byTrace"
| "collect_members (x # xs) byTrace =
     collect_members xs (case ex_traceId x of None \<Rightarrow> byTrace | Some t \<Rightarrow> add_member byTrace t x)"

definition members_of :: "(string \<times> Exchange list) list \<Rightarrow> string \<Rightarrow> Exchange list" where
  "members_of byTrace t = (case map_of byTrace t of Some arr \<Rightarrow> arr | None \<Rightarrow> [])"

definition isGrouped :: "(string \<times> Exchange list) list \<Rightarrow> Exchange \<Rightarrow> bool" where
  "isGrouped byTrace x = (case ex_traceId x of None \<Rightarrow> False | Some t \<Rightarrow> length (members_of byTrace t) > 1)"

text \<open>What the list shows, from top to bottom: cards and plain rows.\<close>

datatype list_item = item_group string "Exchange list" | item_row Exchange

fun list_items :: "(string \<times> Exchange list) list \<Rightarrow> Exchange list \<Rightarrow> string set \<Rightarrow> list_item list" where
  "list_items byTrace [] seen = []"
| "list_items byTrace (x # xs) seen =
     (if isGrouped byTrace x then
        let t = the (ex_traceId x)
        in if t \<in> seen then list_items byTrace xs seen
           else item_group t (members_of byTrace t) # list_items byTrace xs (insert t seen)
      else item_row x # list_items byTrace xs seen)"

definition grouped_items :: "Exchange list \<Rightarrow> list_item list" where
  "grouped_items exchanges = list_items (collect_members exchanges []) exchanges {}"

text \<open>\<open>opens\<close> is the \<open>open\<close> state of the cards, by trace id.\<close>

definition GroupedExchangeList ::
    "(string \<Rightarrow> int option) \<Rightarrow> (int \<Rightarrow> int) \<Rightarrow> (string \<Rightarrow> bool) \<Rightarrow> Exchange list \<Rightarrow> nat option \<Rightarrow> TimeZone \<Rightarrow>
     trace_action dom" where
  "GroupedExchangeList getTime offset opens exchanges selectedId tz =
     El ''div'' [] [(''mouseleave'', hover_trace None)]
       (map (\<lambda>item. case item of
            item_group t members \<Rightarrow> TraceGroup getTime offset (opens t) t members selectedId tz
          | item_row x \<Rightarrow> ExchangeRow getTime offset x (Some (ex_id x) = selectedId) tz (select_exchange (ex_id x)))
        (grouped_items exchanges))"

section \<open>The pill\<close>

definition TraceTag :: "string \<Rightarrow> string option \<Rightarrow> bool \<Rightarrow> trace_action dom" where
  "TraceTag traceId jaegerHref has_next =
     El ''span'' [] []
       ([El ''Button'' [(''aria-label'', lat ''Filter by trace'')] [(''click'', select_trace traceId)]
           [El ''span'' [(''background'', lat (traceColorVar traceId)), (''aria-hidden'', lat ''true'')] [] [],
            Txt (lat ''trace ''), Txt (shortTraceId traceId)],
         El ''Button'' [(''aria-label'', lat ''Copy trace id'')] [(''click'', copy_trace)] [El ''Copy'' [] [] []]]
        @ (case jaegerHref of
             None \<Rightarrow> []
           | Some href \<Rightarrow> child_if (href \<noteq> [])
               [El ''a'' [(''href'', lat href), (''aria-label'', lat ''Open in Jaeger'')] [] [El ''ExternalLink'' [] [] []]])
        @ child_if has_next
            [El ''Button'' [(''aria-label'', lat ''Next in trace'')] [(''click'', next_in_trace)] [El ''ChevronRight'' [] [] []]])"

section \<open>Spans\<close>

definition trace_rows :: "string option list \<Rightarrow> string \<Rightarrow> nat list" where
  "trace_rows ids t = filter (\<lambda>i. ids ! i = Some t) [0..<length ids]"

lemma trace_rows_snoc: "trace_rows (ids @ [x]) t = trace_rows ids t @ (if x = Some t then [length ids] else [])"
proof -
  have "filter (\<lambda>i. (ids @ [x]) ! i = Some t) [0..<length ids] = trace_rows ids t"
    unfolding trace_rows_def by (intro filter_cong) (simp_all add: nth_append)
  then show ?thesis by (simp add: trace_rows_def)
qed

lemma trace_rows_Nil [simp]: "trace_rows [] t = []"
  by (simp add: trace_rows_def)

definition span_ok :: "string option list \<Rightarrow> TraceSpan \<Rightarrow> bool" where
  "span_ok ids s \<longleftrightarrow>
     (let rows = trace_rows ids (ts_traceId s)
      in ts_traceId s \<noteq> [] \<and> rows \<noteq> [] \<and> ts_first s = hd rows \<and> ts_last s = last rows \<and> ts_count s = length rows)"

definition spans_ok :: "string option list \<Rightarrow> TraceSpan list \<Rightarrow> bool" where
  "spans_ok ids spans \<longleftrightarrow>
     distinct (map ts_traceId spans) \<and> (\<forall>s\<in>set spans. span_ok ids s)
     \<and> (\<forall>t. t \<noteq> [] \<longrightarrow> trace_rows ids t \<noteq> [] \<longrightarrow> t \<in> ts_traceId ` set spans)"

lemma update_span_ids:
  "map ts_traceId (update_span spans t i) =
     (if t \<in> ts_traceId ` set spans then map ts_traceId spans else map ts_traceId spans @ [t])"
  by (induction spans t i rule: update_span.induct) auto

lemma update_span_mem:
  "distinct (map ts_traceId spans) \<Longrightarrow> s \<in> set (update_span spans t i) \<Longrightarrow>
     (s \<in> set spans \<and> ts_traceId s \<noteq> t)
     \<or> (\<exists>s0\<in>set spans. ts_traceId s0 = t \<and> s = s0\<lparr>ts_last := i, ts_count := ts_count s0 + 1\<rparr>)
     \<or> (t \<notin> ts_traceId ` set spans \<and> s = \<lparr>ts_traceId = t, ts_first = i, ts_last = i, ts_count = 1\<rparr>)"
proof (induction spans t i rule: update_span.induct)
  case (2 s1 spans traceId i)
  show ?case
  proof (cases "ts_traceId s1 = traceId")
    case True
    with 2 show ?thesis by (auto simp: image_iff)
  next
    case False
    with 2 show ?thesis by auto
  qed
qed simp

lemma spans_ok_update:
  assumes "spans_ok ids spans" "t \<noteq> []"
  shows "spans_ok (ids @ [Some t]) (update_span spans t (length ids))"
proof -
  note ok = assms(1) [unfolded spans_ok_def]
  have "span_ok (ids @ [Some t]) s" if "s \<in> set (update_span spans t (length ids))" for s
  proof -
    note mem = that
    consider "s \<in> set spans" "ts_traceId s \<noteq> t"
      | s0 where "s0 \<in> set spans" "ts_traceId s0 = t"
          "s = s0\<lparr>ts_last := length ids, ts_count := ts_count s0 + 1\<rparr>"
      | "t \<notin> ts_traceId ` set spans" "s = \<lparr>ts_traceId = t, ts_first = length ids, ts_last = length ids, ts_count = 1\<rparr>"
      using update_span_mem [OF _ mem] ok by blast
    then show ?thesis
    proof cases
      case 1
      then show ?thesis using ok by (auto simp: span_ok_def trace_rows_snoc Let_def)
    next
      case 2
      then have "span_ok ids s0" using ok by blast
      with 2 show ?thesis by (auto simp: span_ok_def trace_rows_snoc Let_def)
    next
      case 3
      then have "trace_rows ids t = []" using ok assms(2) by blast
      with 3 assms(2) show ?thesis by (simp add: span_ok_def trace_rows_snoc Let_def)
    qed
  qed
  moreover have "distinct (map ts_traceId (update_span spans t (length ids)))"
    using ok by (simp add: update_span_ids image_iff)
  moreover have "t' \<in> set (map ts_traceId (update_span spans t (length ids)))"
    if "t' \<noteq> []" "trace_rows (ids @ [Some t]) t' \<noteq> []" for t'
    using ok that unfolding update_span_ids by (auto simp: trace_rows_snoc split: if_splits)
  ultimately show ?thesis unfolding spans_ok_def by simp
qed

lemma spans_ok_skip: "spans_ok ids spans \<Longrightarrow> x = None \<or> x = Some [] \<Longrightarrow> spans_ok (ids @ [x]) spans"
  by (auto simp: spans_ok_def span_ok_def trace_rows_snoc Let_def)

lemma collect_spans_ok:
  "spans_ok ids spans \<Longrightarrow> spans_ok (ids @ ts) (collect_spans ts (length ids) spans)"
proof (induction ts arbitrary: ids spans)
  case (Cons x ts)
  have "spans_ok (ids @ [x]) (case x of None \<Rightarrow> spans | Some t \<Rightarrow> if t = [] then spans else update_span spans t (length ids))"
    using Cons.prems spans_ok_update spans_ok_skip by (auto split: option.split)
  from Cons.IH [OF this] show ?case by simp
qed simp

lemma trace_spans: "spans_ok ids (collect_spans ids 0 [])"
  using collect_spans_ok [of "[]" "[]" ids] by (simp add: spans_ok_def)

section \<open>Packing\<close>

definition lanes_ok :: "TraceInterval list \<Rightarrow> nat list \<Rightarrow> bool" where
  "lanes_ok ivs ends \<longleftrightarrow>
     (\<forall>iv\<in>set ivs. ti_lane iv < length ends \<and> ts_last iv \<le> ends ! ti_lane iv)
     \<and> sorted_wrt (\<lambda>a b. ti_lane a = ti_lane b \<longrightarrow> ts_last a < ts_first b) ivs
     \<and> (\<forall>l<length ends. \<exists>iv\<in>set ivs. ti_lane iv = l \<and> ts_last iv = ends ! l)
     \<and> (ends \<noteq> [] \<longrightarrow> (\<exists>p. \<forall>l<length ends. \<exists>iv\<in>set ivs. ti_lane iv = l \<and> ts_first iv \<le> p \<and> p \<le> ts_last iv))"

lemma with_lane_simps [simp]:
  "ti_lane (with_lane s l) = l" "ts_first (with_lane s l) = ts_first s" "ts_last (with_lane s l) = ts_last s"
  "ts_traceId (with_lane s l) = ts_traceId s" "ts_count (with_lane s l) = ts_count s"
  by (simp_all add: with_lane_def)

lemma lanes_ok_reuse:
  assumes "lanes_ok ivs ends" "findIndex (\<lambda>stop. stop < ts_first s) ends = Some l" "ts_first s \<le> ts_last s"
  shows "lanes_ok (ivs @ [with_lane s l]) (ends[l := ts_last s])"
proof -
  note ok = assms(1) [unfolded lanes_ok_def]
  have l: "l < length ends" "ends ! l < ts_first s" using findIndex_Some [OF assms(2)] by auto
  have A: "\<forall>iv\<in>set (ivs @ [with_lane s l]). ti_lane iv < length (ends[l := ts_last s])
      \<and> ts_last iv \<le> ends[l := ts_last s] ! ti_lane iv"
  proof
    fix iv assume "iv \<in> set (ivs @ [with_lane s l])"
    then consider "iv = with_lane s l" | "iv \<in> set ivs" by auto
    then show "ti_lane iv < length (ends[l := ts_last s]) \<and> ts_last iv \<le> ends[l := ts_last s] ! ti_lane iv"
    proof cases
      case 1
      with l show ?thesis by simp
    next
      case 2
      then have "ti_lane iv < length ends" "ts_last iv \<le> ends ! ti_lane iv" using ok by blast+
      with l assms(3) show ?thesis by (cases "ti_lane iv = l") simp_all
    qed
  qed
  have "ti_lane iv = l \<longrightarrow> ts_last iv < ts_first s" if "iv \<in> set ivs" for iv
    using ok that l(2) by (metis order_le_less_trans)
  then have B: "sorted_wrt (\<lambda>a b. ti_lane a = ti_lane b \<longrightarrow> ts_last a < ts_first b) (ivs @ [with_lane s l])"
    using ok by (simp add: sorted_wrt_append)
  have C: "\<forall>k<length (ends[l := ts_last s]). \<exists>iv\<in>set (ivs @ [with_lane s l]).
      ti_lane iv = k \<and> ts_last iv = ends[l := ts_last s] ! k"
  proof (intro allI impI)
    fix k assume "k < length (ends[l := ts_last s])"
    then show "\<exists>iv\<in>set (ivs @ [with_lane s l]). ti_lane iv = k \<and> ts_last iv = ends[l := ts_last s] ! k"
      using ok l(1) by (cases "k = l") simp_all
  qed
  have "ends \<noteq> []" using l(1) by auto
  then obtain p where p: "\<forall>k<length ends. \<exists>iv\<in>set ivs. ti_lane iv = k \<and> ts_first iv \<le> p \<and> p \<le> ts_last iv"
    using ok by blast
  have D: "\<exists>p. \<forall>k<length (ends[l := ts_last s]). \<exists>iv\<in>set (ivs @ [with_lane s l]).
      ti_lane iv = k \<and> ts_first iv \<le> p \<and> p \<le> ts_last iv"
    using p by (intro exI [of _ p]) simp
  show ?thesis unfolding lanes_ok_def using A B C D by blast
qed

lemma lanes_ok_new:
  assumes "lanes_ok ivs ends" "findIndex (\<lambda>stop. stop < ts_first s) ends = None" "ts_first s \<le> ts_last s"
    and "\<forall>iv\<in>set ivs. ts_first iv \<le> ts_first s"
  shows "lanes_ok (ivs @ [with_lane s (length ends)]) (ends @ [ts_last s])"
proof -
  note ok = assms(1) [unfolded lanes_ok_def]
  let ?iv = "with_lane s (length ends)"
  have ends: "\<forall>e\<in>set ends. ts_first s \<le> e" using assms(2) by (auto simp: findIndex_None_iff not_less)
  have less: "ti_lane iv < length ends" if "iv \<in> set ivs" for iv using ok that by blast
  have reps: "\<exists>iv\<in>set (ivs @ [?iv]). ti_lane iv = k \<and> ts_first iv \<le> ts_first s \<and> ts_first s \<le> ts_last iv
      \<and> ts_last iv = (ends @ [ts_last s]) ! k" if k: "k < length (ends @ [ts_last s])" for k
  proof (cases "k < length ends")
    case True
    then obtain iv where "iv \<in> set ivs" "ti_lane iv = k" "ts_last iv = ends ! k" using ok by blast
    moreover have "ts_first s \<le> ends ! k" using ends True by simp
    ultimately show ?thesis using assms(4) True by (auto simp: nth_append)
  next
    case False
    with k have "k = length ends" by simp
    with assms(3) show ?thesis by simp
  qed
  have "\<forall>iv\<in>set (ivs @ [?iv]). ti_lane iv < length (ends @ [ts_last s]) \<and> ts_last iv \<le> (ends @ [ts_last s]) ! ti_lane iv"
    using ok less by (auto simp: nth_append less_Suc_eq)
  moreover have "sorted_wrt (\<lambda>a b. ti_lane a = ti_lane b \<longrightarrow> ts_last a < ts_first b) (ivs @ [?iv])"
    using ok less by (fastforce simp: sorted_wrt_append)
  ultimately show ?thesis
    using reps unfolding lanes_ok_def by blast
qed

lemma assign_lanes_ok:
  "assign_lanes spans ends = (ivs, final) \<Longrightarrow> lanes_ok prev ends \<Longrightarrow> sorted (map ts_first spans) \<Longrightarrow>
   \<forall>iv\<in>set prev. \<forall>s\<in>set spans. ts_first iv \<le> ts_first s \<Longrightarrow> \<forall>s\<in>set spans. ts_first s \<le> ts_last s \<Longrightarrow>
   lanes_ok (prev @ ivs) final \<and> (\<exists>ls. length ls = length spans \<and> ivs = map2 with_lane spans ls)"
proof (induction spans arbitrary: ends ivs final prev)
  case Nil
  then show ?case by simp
next
  case (Cons s spans)
  obtain lane ends' where l: "(case findIndex (\<lambda>stop. stop < ts_first s) ends of
      None \<Rightarrow> (length ends, ends @ [ts_last s]) | Some lane \<Rightarrow> (lane, ends[lane := ts_last s])) = (lane, ends')"
    by fastforce
  obtain ivs' where r: "assign_lanes spans ends' = (ivs', final)" "ivs = with_lane s lane # ivs'"
    using Cons.prems(1) l by (auto split: prod.splits)
  have ok: "lanes_ok (prev @ [with_lane s lane]) ends'"
  proof (cases "findIndex (\<lambda>stop. stop < ts_first s) ends")
    case None
    with l have "lane = length ends" "ends' = ends @ [ts_last s]" by auto
    with lanes_ok_new [OF Cons.prems(2) None] Cons.prems(4,5) show ?thesis by simp
  next
    case (Some k)
    with l have "lane = k" "ends' = ends[k := ts_last s]" by auto
    with lanes_ok_reuse [OF Cons.prems(2) Some] Cons.prems(5) show ?thesis by simp
  qed
  have "lanes_ok ((prev @ [with_lane s lane]) @ ivs') final
      \<and> (\<exists>ls. length ls = length spans \<and> ivs' = map2 with_lane spans ls)"
    by (rule Cons.IH [OF r(1) ok]) (use Cons.prems in auto)
  then obtain ls where ls: "length ls = length spans" "ivs' = map2 with_lane spans ls"
    "lanes_ok ((prev @ [with_lane s lane]) @ ivs') final"
    by blast
  then show ?case
    using r(2) by (intro conjI exI [of _ "lane # ls"]) simp_all
qed

section \<open>Grouping\<close>

lemma members_add: "members_of (add_member B t x) t' = (if t' = t then members_of B t @ [x] else members_of B t')"
  by (induction B t x rule: add_member.induct) (auto simp: members_of_def)

lemma members_collect:
  "members_of (collect_members xs B) t = members_of B t @ filter (\<lambda>x. ex_traceId x = Some t) xs"
  by (induction xs B rule: collect_members.induct) (auto simp: members_add split: option.split)

lemma members_grouped: "members_of (collect_members xs []) t = filter (\<lambda>x. ex_traceId x = Some t) xs"
  by (simp add: members_collect) (simp add: members_of_def)

text \<open>The requests an item shows, and the traces that still get a card.\<close>

fun item_requests :: "list_item \<Rightarrow> Exchange list" where
  "item_requests (item_group t members) = members"
| "item_requests (item_row x) = [x]"

definition open_traces :: "(string \<times> Exchange list) list \<Rightarrow> Exchange list \<Rightarrow> string set \<Rightarrow> string set" where
  "open_traces B xs seen = {the (ex_traceId x) | x. x \<in> set xs \<and> isGrouped B x} - seen"

lemma open_traces_finite [simp]: "finite (open_traces B xs seen)"
proof -
  have "{the (ex_traceId x) | x. x \<in> set xs \<and> isGrouped B x} \<subseteq> (\<lambda>x. the (ex_traceId x)) ` set xs" by auto
  then show ?thesis unfolding open_traces_def by (meson finite_Diff finite_imageI finite_set finite_subset)
qed

lemma list_items_requests:
  "mset (concat (map item_requests (list_items B xs seen)))
   = mset (filter (\<lambda>x. \<not> isGrouped B x) xs) + (\<Sum>t\<in>open_traces B xs seen. mset (members_of B t))"
proof (induction B xs seen rule: list_items.induct)
  case (1 B seen)
  then show ?case by (simp add: open_traces_def)
next
  case (2 B x xs seen)
  let ?t = "the (ex_traceId x)"
  show ?case
  proof (cases "isGrouped B x")
    case False
    then have "open_traces B (x # xs) seen = open_traces B xs seen" by (auto simp: open_traces_def)
    with False 2 show ?thesis by simp
  next
    case True
    show ?thesis
    proof (cases "?t \<in> seen")
      case seen: True
      then have "open_traces B (x # xs) seen = open_traces B xs seen" by (auto simp: open_traces_def)
      with True seen 2 show ?thesis by (simp add: Let_def)
    next
      case False
      then have "open_traces B (x # xs) seen = insert ?t (open_traces B xs (insert ?t seen))"
        "?t \<notin> open_traces B xs (insert ?t seen)"
        using True by (auto simp: open_traces_def)
      with True False 2 show ?thesis by (simp add: Let_def)
    qed
  qed
qed

lemma sum_partition:
  "finite T \<Longrightarrow> (\<Sum>t\<in>T. mset (filter (\<lambda>x. f x = Some t) xs)) = mset (filter (\<lambda>x. \<exists>t\<in>T. f x = Some t) xs)"
proof (induction T rule: finite_induct)
  case (insert t T)
  then have "filter_mset (\<lambda>x. f x = Some t) (mset xs) + filter_mset (\<lambda>x. \<exists>t\<in>T. f x = Some t) (mset xs)
      = filter_mset (\<lambda>x. \<exists>t\<in>insert t T. f x = Some t) (mset xs)"
    by (intro multiset_eqI) auto
  with insert show ?case by (simp flip: mset_filter)
qed simp

lemma list_items_groups:
  "\<forall>item\<in>set (list_items B xs seen). (case item of
      item_group t members \<Rightarrow> members = members_of B t \<and> 1 < length members \<and> t \<notin> seen
    | item_row x \<Rightarrow> \<not> isGrouped B x)"
  by (induction B xs seen rule: list_items.induct)
     (auto simp: Let_def isGrouped_def split: list_item.splits option.splits if_splits)

section \<open>Properties\<close>

lemma sorted_span_ok: "s \<in> set (sorted_spans ids) \<Longrightarrow> span_ok ids s \<and> 1 < ts_count s"
  using trace_spans [of ids] by (auto simp: sorted_spans_def spans_ok_def)

lemma sorted_span_ordered:
  assumes "s \<in> set (sorted_spans ids)"
  shows "ts_first s \<le> ts_last s"
proof -
  have "sorted (trace_rows ids (ts_traceId s))" by (simp add: trace_rows_def sorted_wrt_filter)
  then show ?thesis using sorted_span_ok [OF assms]
    by (cases "trace_rows ids (ts_traceId s)" rule: rev_cases; cases "trace_rows ids (ts_traceId s)")
       (auto simp: span_ok_def Let_def sorted_append)
qed

lemma packLanes_lanes:
  obtains ivs ends ls where "packLanes ids = (ivs, length ends)" "lanes_ok ivs ends"
    "length ls = length (sorted_spans ids)" "ivs = map2 with_lane (sorted_spans ids) ls"
proof -
  obtain ivs ends where a: "assign_lanes (sorted_spans ids) [] = (ivs, ends)" by fastforce
  have "lanes_ok ([] @ ivs) ends \<and> (\<exists>ls. length ls = length (sorted_spans ids) \<and> ivs = map2 with_lane (sorted_spans ids) ls)"
    by (rule assign_lanes_ok [OF a])
       (use sorted_span_ordered in \<open>auto simp: lanes_ok_def sorted_spans_def\<close>)
  then show ?thesis using that a by (auto simp: packLanes_def)
qed

lemma lane_interval_ok:
  assumes "iv \<in> set (map2 with_lane (sorted_spans ids) ls)"
  shows "1 < ts_count iv \<and> ts_traceId iv \<noteq> []
    \<and> ts_first iv = hd (trace_rows ids (ts_traceId iv)) \<and> ts_last iv = last (trace_rows ids (ts_traceId iv))
    \<and> ts_count iv = length (trace_rows ids (ts_traceId iv))"
proof -
  obtain s l where s: "s \<in> set (sorted_spans ids)" "iv = with_lane s l"
    using assms by (auto dest: set_zip_leftD)
  then show ?thesis using sorted_span_ok [OF s(1)] by (simp add: span_ok_def Let_def)
qed

lemma lane_of_trace:
  assumes "ivs = map2 with_lane (sorted_spans ids) ls" "length ls = length (sorted_spans ids)"
    and "t \<noteq> []" "1 < length (trace_rows ids t)"
  shows "\<exists>!iv. iv \<in> set ivs \<and> ts_traceId iv = t"
proof -
  have ok: "spans_ok ids (collect_spans ids 0 [])" by (rule trace_spans)
  have ids: "map ts_traceId ivs = map ts_traceId (sorted_spans ids)"
    using assms(1,2) by (simp add: comp_def case_prod_unfold map_fst_zip flip: map_map [of ts_traceId fst, unfolded comp_def])
  then have dist: "distinct (map ts_traceId ivs)"
    using ok by (auto simp: sorted_spans_def spans_ok_def distinct_map inj_on_def)
  have "trace_rows ids t \<noteq> []" using assms(4) by auto
  then obtain s where s: "s \<in> set (collect_spans ids 0 [])" "ts_traceId s = t"
    using ok assms(3) unfolding spans_ok_def by blast
  then have "span_ok ids s" using ok by (simp add: spans_ok_def)
  then have "s \<in> set (sorted_spans ids)" using s assms(4) by (simp add: sorted_spans_def span_ok_def Let_def)
  then have "t \<in> set (map ts_traceId ivs)" unfolding ids using s(2) by auto
  then show ?thesis using dist by (auto simp: distinct_map inj_on_def)
qed

text \<open>All lanes are crossed in one row: each lane has its own interval there.\<close>

lemma lanes_all_crossed:
  assumes "lanes_ok ivs ends" "0 < length ends"
  shows "\<exists>row. length ends \<le> length (filter (\<lambda>iv. ts_first iv \<le> row \<and> row \<le> ts_last iv) ivs)"
proof -
  obtain row where row: "\<forall>l<length ends. \<exists>iv\<in>set ivs. ti_lane iv = l \<and> ts_first iv \<le> row \<and> row \<le> ts_last iv"
    using assms unfolding lanes_ok_def by auto
  let ?crossed = "filter (\<lambda>iv. ts_first iv \<le> row \<and> row \<le> ts_last iv) ivs"
  have "{..<length ends} \<subseteq> ti_lane ` set ?crossed" using row by (fastforce simp: image_iff)
  then have "card {..<length ends} \<le> card (ti_lane ` set ?crossed)" by (intro card_mono) simp_all
  also have "\<dots> \<le> card (set ?crossed)" by (rule card_image_le) simp
  also have "\<dots> \<le> length ?crossed" by (rule card_length)
  finally show ?thesis by (intro exI [of _ row]) simp
qed

text \<open>
  Property C18. The rail has one bar for each trace with more than one request in the list, from
  its first row to its last, in the order of the first rows. Bars in the same lane do not
  overlap, and the number of lanes is the least possible: some row lies on as many bars as there
  are lanes.
\<close>

theorem rail_lanes_optimal:
  "let (intervals, laneCount) = packLanes ids
   in (\<forall>iv\<in>set intervals. ti_lane iv < laneCount \<and> 1 < ts_count iv \<and> ts_traceId iv \<noteq> []
         \<and> ts_first iv = hd (trace_rows ids (ts_traceId iv)) \<and> ts_last iv = last (trace_rows ids (ts_traceId iv))
         \<and> ts_count iv = length (trace_rows ids (ts_traceId iv)))
      \<and> (\<forall>t. t \<noteq> [] \<longrightarrow> 1 < length (trace_rows ids t) \<longrightarrow> (\<exists>!iv. iv \<in> set intervals \<and> ts_traceId iv = t))
      \<and> sorted_wrt (\<lambda>a b. ti_lane a = ti_lane b \<longrightarrow> ts_last a < ts_first b) intervals
      \<and> (0 < laneCount \<longrightarrow> (\<exists>row. laneCount \<le> length (filter (\<lambda>iv. ts_first iv \<le> row \<and> row \<le> ts_last iv) intervals)))"
proof -
  obtain ivs ends ls where p: "packLanes ids = (ivs, length ends)" and lanes: "lanes_ok ivs ends"
    and ls: "length ls = length (sorted_spans ids)" "ivs = map2 with_lane (sorted_spans ids) ls"
    by (rule packLanes_lanes)
  have "ti_lane iv < length ends" if "iv \<in> set ivs" for iv using lanes that by (simp add: lanes_ok_def)
  moreover have "sorted_wrt (\<lambda>a b. ti_lane a = ti_lane b \<longrightarrow> ts_last a < ts_first b) ivs"
    using lanes by (simp only: lanes_ok_def)
  ultimately show ?thesis
    using lane_interval_ok [of _ ids ls, folded ls(2)] lane_of_trace [OF ls(2,1)] lanes_all_crossed [OF lanes]
    unfolding p Let_def prod.case by blast
qed

theorem rail_lanes_optimal_witness:
  "list_ex (\<lambda>iv. ts_traceId iv = ''b'' \<and> ts_first iv = 1 \<and> ts_last iv = 3)
     (fst (packLanes [Some ''a'', Some ''b'', Some ''a'', Some ''b'']))"
proof -
  let ?ids = "[Some ''a'', Some ''b'', Some ''a'', Some ''b'']"
  obtain intervals laneCount where p: "packLanes ?ids = (intervals, laneCount)" by fastforce
  have rows: "trace_rows ?ids ''b'' = [1, 3]" by (simp add: trace_rows_def)
  from rail_lanes_optimal [of ?ids] p
  have each: "\<forall>iv\<in>set intervals. ts_first iv = hd (trace_rows ?ids (ts_traceId iv)) \<and> ts_last iv = last (trace_rows ?ids (ts_traceId iv))"
    and every: "\<forall>t. t \<noteq> [] \<longrightarrow> 1 < length (trace_rows ?ids t) \<longrightarrow> (\<exists>!iv. iv \<in> set intervals \<and> ts_traceId iv = t)"
    by simp_all
  have "\<exists>!iv. iv \<in> set intervals \<and> ts_traceId iv = ''b''"
    using every rows by (metis One_nat_def Suc_1 Suc_lessD length_Cons lessI list.distinct(1) list.size(3))
  then obtain iv where "iv \<in> set intervals" "ts_traceId iv = ''b''" by blast
  then show ?thesis using each rows p by (auto simp: list_ex_iff intro!: bexI [of _ iv])
qed

text \<open>
  The grouped list shows every request exactly once, as a row or in a card; a card
  holds all requests of its trace, at least two, in list order, and a trace shown in a card has
  no row of its own.
\<close>

theorem grouped_list_complete:
  "mset (concat (map item_requests (grouped_items xs))) = mset xs
   \<and> list_all (\<lambda>item. case item of
        item_group t members \<Rightarrow> members = filter (\<lambda>x. ex_traceId x = Some t) xs \<and> 1 < length members
      | item_row x \<Rightarrow> \<not> isGrouped (collect_members xs []) x) (grouped_items xs)"
proof -
  let ?B = "collect_members xs []"
  have grouped: "(\<exists>t\<in>open_traces ?B xs {}. ex_traceId x = Some t) \<longleftrightarrow> isGrouped ?B x" if "x \<in> set xs" for x
    using that by (auto simp: open_traces_def isGrouped_def split: option.splits)
  have "(\<Sum>t\<in>open_traces ?B xs {}. mset (members_of ?B t))
      = mset (filter (\<lambda>x. \<exists>t\<in>open_traces ?B xs {}. ex_traceId x = Some t) xs)"
    unfolding members_grouped by (rule sum_partition) simp
  also have "\<dots> = mset (filter (isGrouped ?B) xs)"
    using grouped by (intro arg_cong [of _ _ mset] filter_cong) simp_all
  finally have "mset (concat (map item_requests (grouped_items xs)))
      = mset (filter (\<lambda>x. \<not> isGrouped ?B x) xs) + mset (filter (isGrouped ?B) xs)"
    by (simp only: grouped_items_def list_items_requests)
  then have "mset (concat (map item_requests (grouped_items xs))) = mset xs"
    by (simp add: add.commute flip: multiset_partition)
  then show ?thesis
    using list_items_groups [of ?B xs "{}"] members_grouped [of xs]
    by (auto simp: grouped_items_def list_all_iff split: list_item.splits)
qed

end
