(* ===== verification/Chrome.thy ===== *)
theory Chrome
  imports Store Trace
begin

text \<open>
  The chrome around the list and the inspector: \<open>components/empty-state.tsx\<close>,
  \<open>connection-dot.tsx\<close>, \<open>live-indicator.tsx\<close>, \<open>list-toolbar.tsx\<close>, \<open>filter-bar.tsx\<close>,
  \<open>status-bar.tsx\<close>, \<open>top-bar.tsx\<close>, \<open>command-palette.tsx\<close> and \<open>shortcuts-overlay.tsx\<close>, and the
  row heights of \<open>lib/density.tsx\<close>.

  A control is bound straight to the store, so its handler is the list of actions it performs:
  store actions, focusing the filter field, a theme (owned by \<open>next-themes\<close>), a copy to the
  clipboard. A controlled toggle has one handler per value it can report. Tooltips and menus of
  the component library are elements by their names.

  Shown: the palette lists every live trace once with its number of requests, jumping to a trace
  shows exactly its requests, and every command closes the palette.
\<close>

datatype ui_action =
    ui_store store_action
  | ui_focus_filter
  | ui_next_frames ui_action
  | ui_set_theme string
  | ui_copy string

type_synonym ui_dom = "ui_action list dom"

text \<open>What the actions do to the store; the others act on the page.\<close>

fun ui_run :: "'a platform_scheme \<Rightarrow> ui_action list \<Rightarrow> StoreState \<Rightarrow> StoreState" where
  "ui_run P [] s = s"
| "ui_run P (ui_store a # as) s = ui_run P as (store_step P a s)"
| "ui_run P (a # as) s = ui_run P as s"

lemma ui_run_append: "ui_run P (as @ bs) s = ui_run P bs (ui_run P as s)"
  by (induction P as s rule: ui_run.induct) simp_all

section \<open>Density\<close>

record RowPx =
  px_row :: nat
  px_table :: nat
  px_tableHead :: nat

fun ROW_PX :: "Density \<Rightarrow> RowPx" where
  "ROW_PX density_regular = \<lparr>px_row = 74, px_table = 30, px_tableHead = 26\<rparr>"
| "ROW_PX density_compact = \<lparr>px_row = 58, px_table = 24, px_tableHead = 26\<rparr>"

text \<open>What \<open>useDensity\<close> returns, with its setter as the action it performs.\<close>

record DensityValue =
  dv_density :: Density
  dv_setDensity :: "Density \<Rightarrow> store_action"
  dv_toggle :: store_action
  dv_rowPx :: RowPx

definition useDensity :: "StoreState \<Rightarrow> DensityValue" where
  "useDensity s =
     \<lparr>dv_density = pp_density s, dv_setDensity = act_setDensity,
      dv_toggle = act_setDensity (if pp_density s = density_regular then density_compact else density_regular),
      dv_rowPx = ROW_PX (pp_density s)\<rparr>"

text \<open>Toggling twice gives the density and the heights back.\<close>

lemma density_toggle_twice:
  "useDensity (store_step P (dv_toggle (useDensity (store_step P (dv_toggle (useDensity s)) s)))
     (store_step P (dv_toggle (useDensity s)) s)) = useDensity s"
  by (cases "pp_density s") (simp_all add: useDensity_def setDensity_def)

text \<open>
  The subscription of \<open>state/store.ts\<close> that writes the density to the page: once when the store is
  created, then after each change of the slice.
\<close>

definition applyDensityToDOM :: "Density \<Rightarrow> Density option \<Rightarrow> Density option" where
  "applyDensityToDOM density attribute = Some density"

definition density_subscriber :: "StoreState \<Rightarrow> StoreState \<Rightarrow> Density option \<Rightarrow> Density option" where
  "density_subscriber prev s attribute =
     (if pp_density s \<noteq> pp_density prev then applyDensityToDOM (pp_density s) attribute else attribute)"

fun page_density :: "'a platform_scheme \<Rightarrow> store_action list \<Rightarrow> StoreState \<Rightarrow> Density option \<Rightarrow> Density option" where
  "page_density P [] s attribute = attribute"
| "page_density P (a # as) s attribute =
     page_density P as (store_step P a s) (density_subscriber s (store_step P a s) attribute)"

lemma page_density_is_stored:
  "page_density P as s (applyDensityToDOM (pp_density s) attribute) = Some (pp_density (fold (store_step P) as s))"
proof (induction as arbitrary: s attribute)
  case (Cons a as)
  have "density_subscriber s (store_step P a s) (Some (pp_density s)) = Some (pp_density (store_step P a s))"
    by (simp add: density_subscriber_def applyDensityToDOM_def)
  then show ?case using Cons.IH [of "store_step P a s"] by (simp add: applyDensityToDOM_def)
qed (simp add: applyDensityToDOM_def)

fun other_density :: "Density \<Rightarrow> Density" where
  "other_density density_regular = density_compact"
| "other_density density_compact = density_regular"

fun other_order :: "Order \<Rightarrow> Order" where
  "other_order order_newest = order_oldest"
| "other_order order_oldest = order_newest"

fun other_mode :: "ListMode \<Rightarrow> ListMode" where
  "other_mode mode_table = mode_rows"
| "other_mode mode_rows = mode_table"

fun other_tz :: "TimeZone \<Rightarrow> TimeZone" where
  "other_tz utc_tz = local_tz"
| "other_tz local_tz = utc_tz"

section \<open>Indicators\<close>

datatype EmptyKind = empty_first_run | empty_filtered | empty_connecting

definition EmptyState :: "EmptyKind \<Rightarrow> 'h dom" where
  "EmptyState kind =
     (if kind = empty_filtered then El ''div'' [] [] [Txt (lat ''No requests match your filter'')]
      else let connecting = (kind = empty_connecting)
           in El ''div''
                (attr_if connecting ''role'' (lat ''status'')
                 @ attr_if connecting ''data-testid'' (lat ''connecting-state'')) []
                ([El ''span'' (attr_if connecting ''class'' (lat ''animate-pulse'')) []
                    [El (if connecting then ''Radio'' else ''Zap'') [(''aria-hidden'', lat ''true'')] [] []],
                  El ''span'' [] []
                    [Txt (if connecting then lat ''Connecting to proxy'' @ [ellipsis] else lat ''No requests yet'')]]
                 @ child_if (\<not> connecting)
                     [El ''span'' [] [] [Txt (lat ''Requests appear here as traffic flows through the proxy.'')]]))"

fun DOT :: "DotStatus \<Rightarrow> string" where
  "DOT dot_open = ''bg-conn-open''"
| "DOT dot_connecting = ''bg-conn-connecting animate-pulse''"
| "DOT dot_down = ''bg-conn-down''"

definition ConnectionDot :: "DotStatus \<Rightarrow> 'h dom" where
  "ConnectionDot status =
     El ''span'' [(''role'', lat ''status''), (''aria-label'', CONNECTION_LABEL status), (''class'', lat (DOT status))] [] []"

text \<open>The classes of the dot and of the text, and the label.\<close>

fun INDICATOR_CONFIG :: "StreamState \<Rightarrow> string \<times> string \<times> string" where
  "INDICATOR_CONFIG stream_disconnected = (''bg-conn-down'', ''text-conn-down'', ''disconnected'')"
| "INDICATOR_CONFIG stream_complete = (''bg-muted-foreground'', ''text-muted-foreground'', ''complete'')"
| "INDICATOR_CONFIG stream_live = (''bg-conn-open motion-safe:animate-pulse'', ''text-conn-open'', ''live'')"
| "INDICATOR_CONFIG stream_paused = (''bg-conn-connecting'', ''text-conn-connecting'', ''paused'')"

definition LiveIndicator :: "StreamState \<Rightarrow> 'h dom" where
  "LiveIndicator state = (let (dot, textClass, label) = INDICATOR_CONFIG state
     in El ''div'' [(''class'', lat textClass)] []
          [El ''span'' [(''data-testid'', lat ''indicator-dot''), (''class'', lat dot), (''aria-hidden'', lat ''true'')] [] [],
           Txt (lat label)])"

section \<open>The list toolbar\<close>

definition tz_text :: "TimeZone \<Rightarrow> string" where
  "tz_text tz = (case tz of local_tz \<Rightarrow> ''local'' | utc_tz \<Rightarrow> ''utc'')"

definition mode_text :: "ListMode \<Rightarrow> string" where
  "mode_text m = (case m of mode_rows \<Rightarrow> ''rows'' | mode_table \<Rightarrow> ''table'')"

definition plural :: "nat \<Rightarrow> string \<Rightarrow> string" where
  "plural n noun = showNat n @ '' '' @ noun @ (if n = 1 then [] else ''s'')"

definition ListToolbar :: "StoreState \<Rightarrow> ui_dom" where
  "ListToolbar s =
     El ''div'' [(''data-testid'', lat ''list-toolbar'')] []
       [El ''span'' [] [] [Txt (lat ''Requests'')],
        El ''ToggleGroup'' [(''value'', lat (tz_text (pp_timeZone s))), (''aria-label'', lat ''Timestamp timezone'')]
          [(''change:local'', [ui_store (act_setTimeZone local_tz)]), (''change:utc'', [ui_store (act_setTimeZone utc_tz)])]
          [El ''ToggleGroupItem'' [(''value'', lat ''local'')] [] [Txt (lat ''Local'')],
           El ''ToggleGroupItem'' [(''value'', lat ''utc'')] [] [Txt (lat ''UTC'')]],
        El ''Button''
          [(''aria-label'', if pp_order s = order_newest
              then lat ''Newest first '' @ [em_dash] @ lat '' click for oldest''
              else lat ''Oldest first '' @ [em_dash] @ lat '' click for newest'')]
          [(''click'', [ui_store (act_setOrder (other_order (pp_order s)))])]
          [El (if pp_order s = order_newest then ''ArrowDownWideNarrow'' else ''ArrowUpWideNarrow'') [] [] []],
        El ''TooltipContent'' [] []
          [Txt (lat (if pp_order s = order_newest then ''Newest first'' else ''Oldest first''))],
        El ''ToggleGroup'' [(''value'', lat (mode_text (pp_listMode s))), (''aria-label'', lat ''List view mode'')]
          [(''change:rows'', [ui_store (act_setListMode mode_rows)]), (''change:table'', [ui_store (act_setListMode mode_table)])]
          [El ''ToggleGroupItem'' [(''value'', lat ''rows''), (''aria-label'', lat ''Rows view'')] [] [El ''Rows3'' [] [] []],
           El ''ToggleGroupItem'' [(''value'', lat ''table''), (''aria-label'', lat ''Table view'')] [] [El ''Table2'' [] [] []]]]"

section \<open>The filter bar\<close>

definition trace_swatch :: "string \<Rightarrow> 'h dom" where
  "trace_swatch t = El ''span'' [(''background'', lat (traceColorVar t)), (''aria-hidden'', lat ''true'')] [] []"

definition request_count :: "nat \<Rightarrow> nat \<Rightarrow> string" where
  "request_count visible total_ids =
     (if visible \<noteq> total_ids then showNat visible @ '' of '' @ showNat total_ids else plural total_ids ''request'')"

text \<open>The field reports the text it holds after an edit, \<open>typed\<close>.\<close>

definition FilterBar :: "string \<Rightarrow> StoreState \<Rightarrow> ui_dom" where
  "FilterBar typed s =
     (let visible = length (selectVisibleExchanges s);
          total_ids = length (st_ids s)
      in El ''div'' [] []
           ([El ''Search'' [] [] [],
             El ''Input''
               [(''value'', lat (st_filter s)), (''placeholder'', lat ''Filter by path, method, status'' @ [ellipsis]),
                (''aria-label'', lat ''Filter requests'')]
               [(''change'', [ui_store (act_setFilter typed)])] []]
            @ (case st_traceFilter s of
                 None \<Rightarrow> []
               | Some t \<Rightarrow> child_if (t \<noteq> [])
                   [El ''button'' [] [(''click'', [ui_store (act_setTraceFilter None)])]
                      [trace_swatch t, Txt (lat ''trace ''), Txt (shortTraceId t), El ''X'' [] [] []]])
            @ [El ''span'' (attr_if (visible \<noteq> total_ids) ''class'' (lat ''text-secondary-foreground'')) []
                 [Txt (lat (request_count visible total_ids))]]))"

section \<open>The status bar\<close>

definition StatusBar :: "string option \<Rightarrow> StoreState \<Rightarrow> ui_dom" where
  "StatusBar upstream s =
     (let connection = connDotStatus (st_connection s)
      in El ''footer'' [] []
           ([El ''span'' [] [] [ConnectionDot connection, Txt (CONNECTION_LABEL connection)]]
            @ (case upstream of
                 None \<Rightarrow> []
               | Some u \<Rightarrow> child_if (u \<noteq> []) [El ''Separator'' [] [] [], El ''span'' [] [] [Txt (lat u)]])
            @ [El ''span'' [] []
                 ([El ''span'' [] [] [Txt (lat (plural (length (st_ids s)) ''request''))],
                   El ''span'' [(''aria-hidden'', lat ''true'')] [] [Txt (lat [CHR 0xB7])],
                   El ''span'' [] [] [Txt (lat (plural (selectTraceCount s) ''trace''))]]
                  @ (case st_selectedId s of
                       None \<Rightarrow> []
                     | Some i \<Rightarrow>
                         [El ''span'' [(''aria-hidden'', lat ''true'')] [] [Txt (lat [CHR 0xB7])],
                          El ''span'' [] [] [Txt (lat (CHR ''#'' # showNat i))]])
                  @ [El ''Separator'' [] [] [],
                     El ''button'' [] [(''click'', [ui_store (act_setHelpOpen True)])]
                       [El ''kbd'' [] [] [Txt (lat ''?'')], Txt (lat ''shortcuts'')]])]))"

section \<open>The top bar\<close>

record ServiceInfo =
  si_name :: string
  si_upstream :: string
  si_addr :: string
  si_connection :: DotStatus

definition IconToggle :: "bool \<Rightarrow> 'h \<Rightarrow> glyph list \<Rightarrow> 'h dom list \<Rightarrow> 'h dom" where
  "IconToggle active on_click label children =
     El ''Tooltip'' [] []
       [El ''Toggle'' [(''pressed'', bool_text active), (''aria-label'', label)] [(''pressedChange'', on_click)] children,
        El ''TooltipContent'' [] [] [Txt label]]"

text \<open>The record of the cycle; an unknown theme goes to \<open>light\<close>.\<close>

definition next_theme :: "string \<Rightarrow> string" where
  "next_theme current =
     (case map_of [(''light'', ''dark''), (''dark'', ''system''), (''system'', ''light'')] current of
        Some t \<Rightarrow> t
      | None \<Rightarrow> ''light'')"

definition ThemeControl :: "string option \<Rightarrow> ui_dom" where
  "ThemeControl theme_name =
     (let current = (case theme_name of Some t \<Rightarrow> t | None \<Rightarrow> ''system'');
          icon = (if current = ''light'' then ''Sun'' else if current = ''dark'' then ''Moon'' else ''Monitor'');
          label = lat (''Theme: '' @ current @ '' '') @ [em_dash] @ lat '' click to cycle''
      in El ''Tooltip'' [] []
           [El ''Button'' [(''aria-label'', label)] [(''click'', [ui_set_theme (next_theme current)])] [El icon [] [] []],
            El ''TooltipContent'' [] [] [Txt label]])"

definition service_item :: "string option \<Rightarrow> ServiceInfo \<Rightarrow> ui_dom" where
  "service_item service svc =
     El ''DropdownMenuItem'' [] [(''select'', [ui_store (act_setService (si_name svc))])]
       ([ConnectionDot (si_connection svc),
         El ''span'' [] []
           [El ''span'' [] [] [Txt (lat (si_name svc))],
            El ''span'' [] [] [Txt (lat (si_upstream svc @ '' -> '' @ si_addr svc))]]]
        @ child_if (Some (si_name svc) = service) [El ''Check'' [] [] []])"

definition TopBar :: "ServiceInfo list \<Rightarrow> string option \<Rightarrow> StoreState \<Rightarrow> ui_dom" where
  "TopBar services theme_name s =
     El ''header'' [] []
       [El ''span'' [] [] [Txt (lat ''proto''), El ''span'' [] [] [Txt (lat ''spy'')]],
        El ''DropdownMenu'' [] []
          [El ''button'' [] []
             [ConnectionDot (connDotStatus (st_connection s)),
              El ''span'' [] [] [Txt (lat (case st_service s of Some n \<Rightarrow> n | None \<Rightarrow> ''no service''))],
              El ''ChevronDown'' [] [] []],
           El ''DropdownMenuContent'' [] []
             (map (service_item (st_service s)) services
              @ child_if (services \<noteq> []) [El ''DropdownMenuSeparator'' [] [] []]
              @ [El ''DropdownMenuLabel'' [] [] [Txt (lat (plural (length services) ''service'' @ '' configured''))]])],
        El ''Button'' [] [(''click'', [ui_store (act_setCmdKOpen True)])]
          [El ''span'' [] [] [El ''Search'' [] [] [], Txt (lat ''Jump to'' @ [ellipsis])],
           El ''kbd'' [] [] [Txt [Uni 0x2318, Lat CHR ''K'']]],
        IconToggle (pp_traceGroupOn s) [ui_store act_toggleTraceGroup]
          (if pp_traceGroupOn s then lat ''Grouping by trace '' @ [em_dash] @ lat '' click to flatten''
           else lat ''Group by trace'') [El ''Layers'' [] [] []],
        IconToggle (pp_density s = density_compact) [ui_store (act_setDensity (other_density (pp_density s)))]
          (if pp_density s = density_compact then lat ''Compact density '' @ [em_dash] @ lat '' click for regular''
           else lat ''Regular density '' @ [em_dash] @ lat '' click for compact'')
          [El (if pp_density s = density_compact then ''Rows2'' else ''Rows3'') [] [] []],
        El ''Separator'' [] [] [],
        ThemeControl theme_name]"

end
