(* ===== verification/Palette.thy ===== *)
theory Palette
  imports Chrome
begin

text \<open>
  The command palette, \<open>components/command-palette.tsx\<close>, and the key help,
  \<open>components/shortcuts-overlay.tsx\<close>.

  A command first closes the palette and then performs its actions; with \<open>afterClose\<close> the
  actions wait for two animation frames. The map of live traces is an association list in
  insertion order.

  Shown: the traces listed are those of the feed, each once, with its number of requests and its
  first request; jumping to one shows exactly its requests; every command closes the palette.
\<close>

section \<open>The traces of the feed\<close>

record TraceEntry =
  te_traceId :: string
  te_count :: nat
  te_firstId :: nat

fun add_trace :: "TraceEntry list \<Rightarrow> string \<Rightarrow> nat \<Rightarrow> TraceEntry list" where
  "add_trace [] t i = [\<lparr>te_traceId = t, te_count = 1, te_firstId = i\<rparr>]"
| "add_trace (cur # rest) t i =
     (if te_traceId cur = t then cur\<lparr>te_count := te_count cur + 1\<rparr> # rest else cur # add_trace rest t i)"

fun trace_loop :: "exchanges \<Rightarrow> nat list \<Rightarrow> TraceEntry list \<Rightarrow> TraceEntry list" where
  "trace_loop e [] acc = acc"
| "trace_loop e (i # ids) acc =
     trace_loop e ids
       (case e i of
          None \<Rightarrow> acc
        | Some x \<Rightarrow> (case ex_traceId x of
            None \<Rightarrow> acc
          | Some t \<Rightarrow> if t = [] then acc else add_trace acc t i))"

definition palette_traces :: "StoreState \<Rightarrow> TraceEntry list" where
  "palette_traces s = trace_loop (st_exchanges s) (st_ids s) []"

section \<open>Commands\<close>

definition run_command :: "ui_action list \<Rightarrow> ui_action list" where
  "run_command fn = ui_store (act_setCmdKOpen False) # fn"

definition run_after_close :: "ui_action list \<Rightarrow> ui_action list" where
  "run_after_close fn = ui_store (act_setCmdKOpen False) # map ui_next_frames fn"

definition CommandItem :: "ui_action list \<Rightarrow> string \<Rightarrow> string \<Rightarrow> glyph list option \<Rightarrow> ui_dom" where
  "CommandItem on_select icon label shortcut =
     El ''CommandItem'' [] [(''select'', on_select)]
       ([El icon [] [] [], Txt (lat label)]
        @ (case shortcut of None \<Rightarrow> [] | Some k \<Rightarrow> [El ''CommandShortcut'' [] [] [Txt k]]))"

definition clear_filter :: "ui_action list" where
  "clear_filter = [ui_store (act_setFilter []), ui_store (act_setTraceFilter None)]"

definition jump_to_trace :: "TraceEntry \<Rightarrow> ui_action list" where
  "jump_to_trace t = [ui_store (act_setTraceFilter (Some (te_traceId t))), ui_store (act_setSelectedId (Some (te_firstId t)))]"

definition trace_item :: "TraceEntry \<Rightarrow> ui_dom" where
  "trace_item t =
     El ''CommandItem'' [(''value'', lat (''trace '' @ te_traceId t))] [(''select'', run_command (jump_to_trace t))]
       [El ''Waypoints'' [] [] [],
        El ''span'' [] [] [trace_swatch (te_traceId t), Txt (lat ''trace ''), Txt (shortTraceId (te_traceId t))],
        El ''CommandShortcut'' [] [] [Txt (lat (showNat (te_count t)))]]"

definition hasFilter :: "StoreState \<Rightarrow> bool" where
  "hasFilter s \<longleftrightarrow> trim (st_filter s) \<noteq> [] \<or> st_traceFilter s \<noteq> None"

definition view_group :: "StoreState \<Rightarrow> ui_dom" where
  "view_group s = El ''CommandGroup'' [(''heading'', lat ''View'')] []
     [CommandItem (run_command [ui_store act_toggleTraceGroup]) ''Layers''
        (if pp_traceGroupOn s then ''Flatten trace groups'' else ''Group by trace'') (Some [Uni 0x21E7, Lat CHR ''G'']),
      CommandItem (run_command [ui_store (act_setListMode (other_mode (pp_listMode s)))])
        (if pp_listMode s = mode_table then ''Rows3'' else ''Table2'')
        (if pp_listMode s = mode_table then ''Switch to rows view'' else ''Switch to table view'') None,
      CommandItem (run_command [ui_store (act_setOrder (other_order (pp_order s)))]) ''ArrowUpDown''
        (if pp_order s = order_newest then ''Order oldest first'' else ''Order newest first'') None,
      CommandItem (run_command [ui_store (act_setDensity (other_density (pp_density s)))]) ''Gauge''
        (if pp_density s = density_compact then ''Regular density'' else ''Compact density'') None,
      CommandItem (run_command [ui_store (act_setTimeZone (other_tz (pp_timeZone s)))]) ''Clock''
        (if pp_timeZone s = utc_tz then ''Show local timestamps'' else ''Show UTC timestamps'') None]"

text \<open>\<open>focusable\<close>: the shell passed \<open>onFocusFilter\<close>.\<close>

definition filter_group :: "bool \<Rightarrow> StoreState \<Rightarrow> ui_dom" where
  "filter_group focusable s = El ''CommandGroup'' [(''heading'', lat ''Filter'')] []
     (child_if focusable
        [CommandItem (run_after_close [ui_focus_filter]) ''Search'' ''Focus the filter'' (Some (lat ''/''))]
      @ child_if (hasFilter s) [CommandItem (run_command clear_filter) ''FilterX'' ''Clear filter'' (Some (lat ''esc''))])"

definition theme_item :: "string \<Rightarrow> string \<Rightarrow> string \<Rightarrow> ui_dom" where
  "theme_item theme_name icon label = CommandItem (run_command [ui_set_theme theme_name]) icon label None"

definition CommandPalette :: "bool \<Rightarrow> StoreState \<Rightarrow> ui_dom" where
  "CommandPalette focusable s =
     El ''CommandDialog'' [(''open'', bool_text (st_cmdKOpen s))]
       [(''openChange:true'', [ui_store (act_setCmdKOpen True)]), (''openChange:false'', [ui_store (act_setCmdKOpen False)])]
       ([El ''CommandInput'' [(''placeholder'', lat ''Run a command'' @ [ellipsis])] [] [],
         El ''CommandEmpty'' [] [] [Txt (lat ''No matching command.'')],
         view_group s, El ''CommandSeparator'' [] [] [], filter_group focusable s]
        @ child_if (palette_traces s \<noteq> [])
            [El ''CommandGroup'' [(''heading'', lat ''Jump to trace'')] [] (map trace_item (palette_traces s))]
        @ [El ''CommandSeparator'' [] [] [],
           El ''CommandGroup'' [(''heading'', lat ''Theme'')] []
             [theme_item ''light'' ''Sun'' ''Light'', theme_item ''dark'' ''Moon'' ''Dark'',
              theme_item ''system'' ''Monitor'' ''System''],
           El ''CommandGroup'' [(''heading'', lat ''Help'')] []
             [CommandItem (run_command [ui_store (act_setHelpOpen True)]) ''Keyboard'' ''Keyboard shortcuts'' (Some (lat ''?''))]])"

section \<open>The key help\<close>

record Shortcut =
  sc_keys :: "glyph list list"
  sc_label :: string

record ShortcutGroup =
  sg_heading :: string
  sg_items :: "Shortcut list"

definition SHORTCUTS :: "ShortcutGroup list" where
  "SHORTCUTS =
     [\<lparr>sg_heading = ''Navigate'', sg_items =
         [\<lparr>sc_keys = [lat ''j''], sc_label = ''Next request''\<rparr>, \<lparr>sc_keys = [lat ''k''], sc_label = ''Previous request''\<rparr>,
          \<lparr>sc_keys = [[Uni 0x2193]], sc_label = ''Next request''\<rparr>, \<lparr>sc_keys = [[Uni 0x2191]], sc_label = ''Previous request''\<rparr>]\<rparr>,
      \<lparr>sg_heading = ''Search & filter'', sg_items =
         [\<lparr>sc_keys = [[Uni 0x2318], lat ''K''], sc_label = ''Command palette''\<rparr>,
          \<lparr>sc_keys = [lat ''/''], sc_label = ''Focus the filter''\<rparr>,
          \<lparr>sc_keys = [lat ''esc''], sc_label = ''Clear filter / active trace''\<rparr>]\<rparr>,
      \<lparr>sg_heading = ''View'', sg_items = [\<lparr>sc_keys = [lat ''?''], sc_label = ''This help''\<rparr>]\<rparr>]"

definition ShortcutsOverlay :: "StoreState \<Rightarrow> ui_dom" where
  "ShortcutsOverlay s =
     El ''Dialog'' [(''open'', bool_text (st_helpOpen s))]
       [(''openChange:true'', [ui_store (act_setHelpOpen True)]), (''openChange:false'', [ui_store (act_setHelpOpen False)])]
       [El ''DialogTitle'' [] [] [Txt (lat ''Keyboard shortcuts'')],
        El ''DialogDescription'' [] []
          [Txt (lat ''Keyboard shortcuts for navigation, filtering, and opening app commands.'')],
        El ''div'' [] []
          (map (\<lambda>g. El ''section'' [] []
             (El ''h3'' [] [] [Txt (lat (sg_heading g))]
              # map (\<lambda>i. El ''div'' [] []
                  [El ''span'' [] [] [Txt (lat (sc_label i))],
                   El ''span'' [] [] (map (\<lambda>k. El ''kbd'' [] [] [Txt k]) (sc_keys i))]) (sg_items g)))
             SHORTCUTS)]"

section \<open>Lemmas\<close>

text \<open>The ids of the feed that belong to a trace.\<close>

definition in_trace :: "exchanges \<Rightarrow> string \<Rightarrow> nat \<Rightarrow> bool" where
  "in_trace e t i \<longleftrightarrow> (\<exists>x. e i = Some x \<and> ex_traceId x = Some t)"

definition trace_entries_ok :: "exchanges \<Rightarrow> nat list \<Rightarrow> TraceEntry list \<Rightarrow> bool" where
  "trace_entries_ok e ids entries \<longleftrightarrow>
     distinct (map te_traceId entries)
     \<and> (\<forall>t\<in>set entries. te_traceId t \<noteq> [] \<and> filter (in_trace e (te_traceId t)) ids \<noteq> []
          \<and> te_count t = length (filter (in_trace e (te_traceId t)) ids)
          \<and> te_firstId t = hd (filter (in_trace e (te_traceId t)) ids))
     \<and> (\<forall>t. t \<noteq> [] \<longrightarrow> filter (in_trace e t) ids \<noteq> [] \<longrightarrow> t \<in> te_traceId ` set entries)"

lemma add_trace_ids:
  "map te_traceId (add_trace acc t i) =
     (if t \<in> te_traceId ` set acc then map te_traceId acc else map te_traceId acc @ [t])"
  by (induction acc t i rule: add_trace.induct) auto

lemma add_trace_mem:
  "distinct (map te_traceId acc) \<Longrightarrow> c \<in> set (add_trace acc t i) \<Longrightarrow>
     (c \<in> set acc \<and> te_traceId c \<noteq> t)
     \<or> (\<exists>c0\<in>set acc. te_traceId c0 = t \<and> c = c0\<lparr>te_count := te_count c0 + 1\<rparr>)
     \<or> (t \<notin> te_traceId ` set acc \<and> c = \<lparr>te_traceId = t, te_count = 1, te_firstId = i\<rparr>)"
proof (induction acc t i rule: add_trace.induct)
  case (2 cur rest t i)
  show ?case
  proof (cases "te_traceId cur = t")
    case True
    have "te_traceId cur \<notin> te_traceId ` set rest" using 2(2) by simp
    then have "te_traceId c \<noteq> t" if "c \<in> set rest" using that True by (metis imageI)
    then show ?thesis using True 2(3) by auto
  next
    case False
    then show ?thesis using 2 by (auto split: if_splits)
  qed
qed auto

lemma trace_entries_skip:
  assumes "trace_entries_ok e ids acc" and "\<And>t. t \<noteq> [] \<Longrightarrow> \<not> in_trace e t i"
  shows "trace_entries_ok e (ids @ [i]) acc"
  using assms by (simp add: trace_entries_ok_def)

lemma trace_entries_add:
  assumes ok: "trace_entries_ok e ids acc" and x: "e i = Some x" "ex_traceId x = Some t" "t \<noteq> []"
  shows "trace_entries_ok e (ids @ [i]) (add_trace acc t i)"
proof -
  have only: "in_trace e u i \<longleftrightarrow> u = t" for u using x by (auto simp: in_trace_def)
  have d: "distinct (map te_traceId acc)" using ok by (simp add: trace_entries_ok_def)
  have new: "filter (in_trace e t) ids = []" if "t \<notin> te_traceId ` set acc"
    using that ok x(3) unfolding trace_entries_ok_def by blast
  have "te_traceId c \<noteq> [] \<and> filter (in_trace e (te_traceId c)) (ids @ [i]) \<noteq> []
      \<and> te_count c = length (filter (in_trace e (te_traceId c)) (ids @ [i]))
      \<and> te_firstId c = hd (filter (in_trace e (te_traceId c)) (ids @ [i]))" if "c \<in> set (add_trace acc t i)" for c
    using add_trace_mem [OF d that] ok new x(3) by (auto simp: trace_entries_ok_def only hd_append)
  moreover have "distinct (map te_traceId (add_trace acc t i))"
    using d by (auto simp: add_trace_ids)
  moreover have "u \<in> te_traceId ` set (add_trace acc t i)" if "u \<noteq> []" "filter (in_trace e u) (ids @ [i]) \<noteq> []" for u
  proof -
    have "u = t \<or> u \<in> te_traceId ` set acc"
      using that ok unfolding trace_entries_ok_def by (auto simp: only split: if_splits)
    then have "u \<in> set (map te_traceId (add_trace acc t i))" unfolding add_trace_ids by auto
    then show ?thesis by simp
  qed
  ultimately show ?thesis unfolding trace_entries_ok_def by blast
qed

lemma trace_loop_ok:
  "trace_entries_ok e done_ids acc \<Longrightarrow> trace_entries_ok e (done_ids @ ids) (trace_loop e ids acc)"
proof (induction e ids acc arbitrary: done_ids rule: trace_loop.induct)
  case (2 e i ids acc)
  let ?acc = "case e i of None \<Rightarrow> acc
    | Some x \<Rightarrow> (case ex_traceId x of None \<Rightarrow> acc | Some t \<Rightarrow> if t = [] then acc else add_trace acc t i)"
  have "trace_entries_ok e (done_ids @ [i]) ?acc"
  proof (cases "\<exists>x t. e i = Some x \<and> ex_traceId x = Some t \<and> t \<noteq> []")
    case True
    then show ?thesis using trace_entries_add [OF 2(2)] by auto
  next
    case False
    then have "?acc = acc" by (auto split: option.split)
    moreover have "\<not> in_trace e t i" if "t \<noteq> []" for t using that False by (auto simp: in_trace_def)
    ultimately show ?thesis using trace_entries_skip [OF 2(2)] by simp
  qed
  from 2(1) [OF this] show ?case by simp
qed simp

lemma palette_traces_ok: "trace_entries_ok (st_exchanges s) (st_ids s) (palette_traces s)"
  using trace_loop_ok [of "st_exchanges s" "[]" "[]" "st_ids s"]
  by (simp add: palette_traces_def trace_entries_ok_def)

lemma palette_trace_ids: "te_traceId ` set (palette_traces s) = trace_ids_seen (st_exchanges s) (st_ids s) {}"
proof -
  let ?T = "{t. t \<noteq> [] \<and> filter (in_trace (st_exchanges s) t) (st_ids s) \<noteq> []}"
  have ok: "\<forall>t\<in>set (palette_traces s). te_traceId t \<in> ?T" "\<forall>t\<in>?T. t \<in> te_traceId ` set (palette_traces s)"
    using palette_traces_ok [of s] unfolding trace_entries_ok_def mem_Collect_eq by blast+
  have "te_traceId ` set (palette_traces s) = ?T"
    by (intro subset_antisym subsetI; (elim imageE)?) (use ok in \<open>simp_all only: Ball_def\<close>)
  also have "\<dots> = trace_ids_seen (st_exchanges s) (st_ids s) {}"
    unfolding trace_ids_seen_eq by (auto simp: filter_empty_conv in_trace_def)
  finally show ?thesis .
qed

section \<open>Properties\<close>

text \<open>
  The palette lists the traces of the feed, each once, as many as the status bar
  counts, each with its number of requests and its oldest request.
\<close>

theorem palette_lists_live_traces:
  "distinct (map te_traceId (palette_traces s))
   \<and> length (palette_traces s) = selectTraceCount s
   \<and> te_traceId ` set (palette_traces s) = trace_ids_seen (st_exchanges s) (st_ids s) {}
   \<and> list_all (\<lambda>t. let members = filter (in_trace (st_exchanges s) (te_traceId t)) (st_ids s)
        in members \<noteq> [] \<and> te_count t = length members \<and> te_firstId t = hd members) (palette_traces s)"
proof -
  have d: "distinct (map te_traceId (palette_traces s))"
    using palette_traces_ok [of s] by (simp add: trace_entries_ok_def)
  have l: "length (palette_traces s) = selectTraceCount s"
    using distinct_card [OF d] by (simp add: selectTraceCount_def flip: palette_trace_ids)
  have "\<forall>t\<in>set (palette_traces s). filter (in_trace (st_exchanges s) (te_traceId t)) (st_ids s) \<noteq> []
      \<and> te_count t = length (filter (in_trace (st_exchanges s) (te_traceId t)) (st_ids s))
      \<and> te_firstId t = hd (filter (in_trace (st_exchanges s) (te_traceId t)) (st_ids s))"
    using palette_traces_ok [of s] unfolding trace_entries_ok_def by blast
  then show ?thesis
    unfolding list_all_iff Let_def by (intro conjI d l palette_trace_ids)
qed

text \<open>
  After a jump to a trace the palette is closed, the list shows only requests of
  that trace and, when no text filter is set, all of them; the selected request is the trace's
  first one and is in the list.
\<close>

theorem jump_shows_the_trace:
  assumes "store_reachable P s" and "t \<in> set (palette_traces s)"
  defines "s' \<equiv> ui_run P (run_command (jump_to_trace t)) s"
  shows "\<not> st_cmdKOpen s'
    \<and> set (selectVisibleIds s') \<subseteq> {i \<in> set (st_ids s). in_trace (st_exchanges s) (te_traceId t) i}
    \<and> st_selectedId s' = Some (te_firstId t)
    \<and> (st_filter s = [] \<longrightarrow> length (selectVisibleIds s') = te_count t \<and> te_firstId t \<in> set (selectVisibleIds s'))"
proof -
  let ?p = "in_trace (st_exchanges s) (te_traceId t)"
  have s': "s' = s\<lparr>st_cmdKOpen := False, st_traceFilter := Some (te_traceId t), st_selectedId := Some (te_firstId t)\<rparr>"
    by (simp add: s'_def run_command_def jump_to_trace_def setCmdKOpen_def setTraceFilter_def setSelectedId_def)
  have wf: "store_wf (exchange_store_of s')"
    using reachable_ok [OF assms(1)] by (simp add: s' store_ok_def)
  have vis: "set (selectVisibleIds s') = set (filter (shown s') (st_ids s))"
    "length (selectVisibleIds s') = length (filter (shown s') (st_ids s))"
    unfolding visible_ids_eq [OF wf] by (simp_all add: s')
  have imp: "shown s' i \<Longrightarrow> ?p i" for i by (auto simp: s' shown_def in_trace_def split: option.splits)
  have "shown s' = ?p" if "st_filter s = []"
    by (rule ext) (use that in \<open>auto simp: s' shown_def in_trace_def matchesFilter_def split: option.splits\<close>)
  moreover have "filter ?p (st_ids s) \<noteq> []" "te_count t = length (filter ?p (st_ids s))"
      "te_firstId t = hd (filter ?p (st_ids s))"
    using palette_traces_ok [of s] assms(2) by (auto simp: trace_entries_ok_def)
  moreover have "hd (filter ?p (st_ids s)) \<in> set (filter ?p (st_ids s))"
    using \<open>filter ?p (st_ids s) \<noteq> []\<close> by (rule hd_in_set)
  ultimately have "st_filter s = [] \<longrightarrow>
      length (selectVisibleIds s') = te_count t \<and> te_firstId t \<in> set (selectVisibleIds s')"
    unfolding vis by simp
  moreover have "set (selectVisibleIds s') \<subseteq> {i \<in> set (st_ids s). ?p i}"
    unfolding vis using imp by auto
  ultimately show ?thesis by (simp add: s')
qed


text \<open>A store with one request that belongs to a trace.\<close>

definition traced_state :: StoreState where
  "traced_state = applyEvent no_platform trace_message initial_store"

lemma traced_reachable: "store_reachable no_platform traced_state"
  using store_next [OF store_start, of no_platform "act_applyEvent trace_message"] by (simp add: traced_state_def)

lemma traced_headers: "traceparent_id
    [\<lparr>h_name = ''Accept'', h_value = ''a''\<rparr>, \<lparr>h_name = ''TraceParent'', h_value = ''00-4bf9-00f0-01''\<rparr>] = Some ''4bf9''"
  by (simp add: traceparent_id_def getHeader_def char_eval Let_def)

lemma traced_state_eq:
  "\<exists>x. ex_id x = 4 \<and> ex_traceId x = Some ''4bf9''
     \<and> traced_state = initial_store\<lparr>st_exchanges := [4 \<mapsto> x], st_ids := [4]\<rparr>"
proof -
  have "\<exists>x. reducer_apply no_platform trace_message (Map.empty, []) = Some ([4 \<mapsto> x], [4])
      \<and> ex_id x = 4 \<and> ex_traceId x = Some ''4bf9''"
    by (simp add: reducer_apply_def trace_message_def traced_headers fresh_exchange_def Let_def)
       (rule exI, rule conjI, rule refl, simp)
  then obtain x where x: "reducer_apply no_platform trace_message (Map.empty, []) = Some ([4 \<mapsto> x], [4])"
    "ex_id x = 4" "ex_traceId x = Some ''4bf9''" by blast
  then have "traced_state = initial_store\<lparr>st_exchanges := [4 \<mapsto> x], st_ids := [4]\<rparr>"
    by (simp add: traced_state_def applyEvent_def initial_store_def evict_single)
  with x show ?thesis by blast
qed

lemma traced_visible: "selectVisibleIds traced_state = [4]"
proof -
  obtain x where x: "ex_id x = 4" "traced_state = initial_store\<lparr>st_exchanges := [4 \<mapsto> x], st_ids := [4]\<rparr>"
    using traced_state_eq by blast
  then show ?thesis
    unfolding x(2) by (simp add: selectVisibleIds_def selectVisibleExchanges_def initial_store_def map_filter_simps
        matchesFilter_def)
qed

theorem jump_shows_the_trace_witness:
  "\<exists>t. let s' = ui_run no_platform (run_command (jump_to_trace t)) traced_state
       in te_traceId t = ''4bf9'' \<and> te_count t = 1 \<and> length (selectVisibleIds s') = 1"
proof -
  obtain x where x: "ex_traceId x = Some ''4bf9''" "traced_state = initial_store\<lparr>st_exchanges := [4 \<mapsto> x], st_ids := [4]\<rparr>"
    using traced_state_eq by blast
  have t: "palette_traces traced_state = [\<lparr>te_traceId = ''4bf9'', te_count = 1, te_firstId = 4\<rparr>]"
    by (simp add: x palette_traces_def)
  have f: "st_filter traced_state = []" by (simp add: x initial_store_def)
  have "\<lparr>te_traceId = ''4bf9'', te_count = 1, te_firstId = 4\<rparr> \<in> set (palette_traces traced_state)"
    by (simp add: t)
  from jump_shows_the_trace [OF traced_reachable this] f show ?thesis
    by (intro exI [of _ "\<lparr>te_traceId = ''4bf9'', te_count = 1, te_firstId = 4\<rparr>"]) (simp add: Let_def)
qed

text \<open>Every command of the palette closes it.\<close>

lemma palette_commands_close:
  "list_all (\<lambda>(event, actions). event = ''select'' \<longrightarrow> hd actions = ui_store (act_setCmdKOpen False))
     (dom_handlers (CommandPalette focusable s))"
  by (auto simp: CommandPalette_def view_group_def filter_group_def theme_item_def trace_item_def
      CommandItem_def run_command_def run_after_close_def child_if_def trace_swatch_def list_all_iff split: option.splits)

end
