(* ===== verification/Exchange_Table.thy ===== *)
theory Exchange_Table
  imports Chrome
begin

text \<open>
  The request list as a table, \<open>components/exchange-table.tsx\<close>.

  The row model of \<open>@tanstack/react-table\<close> is a parameter: \<open>rows\<close> are the requests in the order
  it sorts them, \<open>is_sorted\<close> its answer per column, and a header's toggle is its handler
  \<open>toggle_sorting\<close>. The virtualizer hands out items with an index below the number of rows, a
  size and a start.

  Shown: the bar of a trace in the gutter covers exactly the rows from the trace's first to its
  last; a selection is scrolled to once.
\<close>

datatype table_action =
    ta_select nat
  | ta_toggle_sorting string
  | ta_trace trace_action

record VirtualItem =
  vi_index :: nat
  vi_size :: nat
  vi_start :: nat

definition SizeCell :: "Exchange \<Rightarrow> 'h dom" where
  "SizeCell x =
     (let view = responseSizeView x
      in case sv_wireBytes view of
           None \<Rightarrow> El ''span'' [(''class'', lat ''text-muted-foreground'')] [] [Txt [em_dash]]
         | Some wire \<Rightarrow>
             El ''span'' (opt_attr ''title'' (map_option lat (sv_tooltip view))) []
               ((case sv_encoding view of
                   None \<Rightarrow> []
                 | Some e \<Rightarrow> child_if (e \<noteq> []) [El ''FileArchive'' [(''aria-hidden'', lat ''true'')] [] []])
                @ [El ''span'' [] [] [Txt (lat (fmtBytes wire))]]))"

text \<open>The columns: id and header, in their fixed order.\<close>

definition table_columns :: "(string \<times> string) list" where
  "table_columns =
     [(''method'', ''Method''), (''status'', ''Status''), (''uri'', ''Path''), (''elapsedMs'', ''Elapsed''),
      (''size'', ''Size''), (''timestamp'', ''Time'')]"

definition table_cells ::
    "(string \<Rightarrow> int option) \<Rightarrow> (int \<Rightarrow> int) \<Rightarrow> TimeZone \<Rightarrow> Exchange \<Rightarrow> 'h dom list" where
  "table_cells getTime offset tz x =
     (let uri = (case ex_uri x of Some u \<Rightarrow> u | None \<Rightarrow> ''/'')
      in [MethodBadge (ex_method x),
          StatusCode (ex_status x) (ex_error x \<noteq> None) False
            (case ex_error x of Some e \<Rightarrow> Some (xe_message e) | None \<Rightarrow> ex_status x),
          El ''SimpleTooltip'' [(''content'', lat uri)] [] [El ''span'' [] [] [Txt (lat (su_path (splitUri uri)))]],
          El ''span'' [] [] [Txt (fmt_elapsed (ex_elapsedMs x))],
          SizeCell x,
          El ''span'' [] [] [Txt (lat (formatAbsoluteTime getTime offset (ex_timestamp x) tz))]])"

definition sort_arrow :: "string option \<Rightarrow> glyph list" where
  "sort_arrow dir = (case dir of
     None \<Rightarrow> []
   | Some d \<Rightarrow> if d = ''asc'' then [Uni 0x2191] else if d = ''desc'' then [Uni 0x2193] else [])"

definition table_header :: "(string \<Rightarrow> string option) \<Rightarrow> nat option \<Rightarrow> table_action dom" where
  "table_header is_sorted railWidth =
     El ''div''
       ((''data-testid'', lat ''exchange-table-header'')
        # (case railWidth of None \<Rightarrow> [] | Some w \<Rightarrow> [(''padding-left'', lat (''calc('' @ showNat w @ ''px + 0.75rem)''))])) []
       (map (\<lambda>(i, header). El ''button'' [] [(''click'', ta_toggle_sorting i)]
                [Txt (lat header), Txt (sort_arrow (is_sorted i))]) table_columns)"

text \<open>\<open>rowOffsetByIndex\<close>: top and bottom of every row.\<close>

definition row_offsets :: "nat \<Rightarrow> nat \<Rightarrow> (nat \<times> nat) list" where
  "row_offsets rowPx n = map (\<lambda>index. let top = index * rowPx in (top, top + rowPx)) [0..<n]"

definition row_top :: "(nat \<times> nat) list \<Rightarrow> nat \<Rightarrow> int" where
  "row_top offsets index = (if index < length offsets then int (fst (offsets ! index)) else 0)"

definition row_bottom :: "nat \<Rightarrow> (nat \<times> nat) list \<Rightarrow> nat \<Rightarrow> int" where
  "row_bottom rowPx offsets index = (if index < length offsets then int (snd (offsets ! index)) else int rowPx)"

definition table_row ::
    "(string \<Rightarrow> int option) \<Rightarrow> (int \<Rightarrow> int) \<Rightarrow> TimeZone \<Rightarrow> nat option \<Rightarrow> nat option \<Rightarrow> VirtualItem \<Rightarrow> Exchange \<Rightarrow>
     table_action dom" where
  "table_row getTime offset tz selectedId railWidth vi x =
     (let selected = (Some (ex_id x) = selectedId)
      in El ''button''
           ([(''role'', lat ''option''), (''aria-selected'', bool_text selected)]
            @ attr_if selected ''data-selected'' (lat ''true'')
            @ trace_attr (ex_traceId x)
            @ [(''left'', lat (case railWidth of Some w \<Rightarrow> showNat w | None \<Rightarrow> ''0'')),
               (''width'', lat (case railWidth of Some w \<Rightarrow> ''calc(100% - '' @ showNat w @ ''px)'' | None \<Rightarrow> ''100%'')),
               (''height'', lat (showNat (vi_size vi))),
               (''transform'', lat (''translateY('' @ showNat (vi_start vi) @ ''px)''))])
           [(''click'', ta_select (ex_id x))]
           (table_cells getTime offset tz x))"

definition ExchangeTable ::
    "(string \<Rightarrow> int option) \<Rightarrow> (int \<Rightarrow> int) \<Rightarrow> (string \<Rightarrow> string option) \<Rightarrow> Density \<Rightarrow> TimeZone \<Rightarrow> bool \<Rightarrow>
     nat option \<Rightarrow> string option \<Rightarrow> Exchange list \<Rightarrow> nat \<Rightarrow> VirtualItem list \<Rightarrow> table_action dom" where
  "ExchangeTable getTime offset is_sorted density tz filtered selectedId activeTraceId rows totalSize items =
     (let rowPx = px_table (ROW_PX density);
          traceIds = map ex_traceId rows;
          laneCount = snd (packLanes traceIds);
          railWidth = (if laneCount > 0 then Some (traceRailWidth laneCount) else None);
          offsets = row_offsets rowPx (length rows)
      in El ''div'' [] []
           [table_header is_sorted railWidth,
            if rows = [] then EmptyState (if filtered then empty_filtered else empty_first_run)
            else El ''div'' [(''data-testid'', lat ''requests-virtualizer''), (''height'', lat (showNat totalSize))] []
              (child_if (railWidth \<noteq> None)
                 [map_dom ta_trace (TraceRail traceIds (row_top offsets) (row_bottom rowPx offsets) activeTraceId)]
               @ [El ''div'' [(''role'', lat ''listbox''), (''aria-label'', lat ''Requests'')] []
                    (map (\<lambda>vi. table_row getTime offset tz selectedId railWidth vi (rows ! vi_index vi)) items)])])"

section \<open>Scrolling to the selection\<close>

text \<open>
  The effect of the table and of the rows list: from the remembered selection, the selected id
  and the ids of the rows, the new memory and the row to scroll to.
\<close>

definition scroll_effect :: "nat option \<Rightarrow> nat option \<Rightarrow> nat list \<Rightarrow> nat option \<times> nat option" where
  "scroll_effect scrolledTo selectedId ids = (case selectedId of
     None \<Rightarrow> (None, None)
   | Some i \<Rightarrow>
       if scrolledTo = Some i then (scrolledTo, None)
       else case findIndex (\<lambda>j. j = i) ids of
         None \<Rightarrow> (scrolledTo, None)
       | Some idx \<Rightarrow> (Some i, Some idx))"

text \<open>A sequence of renders, each with its selection and rows.\<close>

fun scroll_run :: "nat option \<Rightarrow> (nat option \<times> nat list) list \<Rightarrow> nat option list" where
  "scroll_run scrolledTo [] = []"
| "scroll_run scrolledTo ((selectedId, ids) # renders) =
     (let (scrolledTo', target) = scroll_effect scrolledTo selectedId ids in target # scroll_run scrolledTo' renders)"

text \<open>
  The scroll itself waits for the next animation frame, and the cleanup of the effect, which runs
  when the selection or the rows change, cancels a frame that is still waiting.
\<close>

record Scroller =
  sr_scrolledTo :: "nat option"
  sr_frame :: "nat option"
  sr_scrolls :: "nat list"

datatype scroll_event = sv_changed "nat option" "nat list" | sv_frame

fun scroller_step :: "scroll_event \<Rightarrow> Scroller \<Rightarrow> Scroller" where
  "scroller_step (sv_changed selectedId ids) s =
     (let (scrolledTo, frame) = scroll_effect (sr_scrolledTo s) selectedId ids
      in s\<lparr>sr_scrolledTo := scrolledTo, sr_frame := frame\<rparr>)"
| "scroller_step sv_frame s = (case sr_frame s of
     None \<Rightarrow> s
   | Some idx \<Rightarrow> s\<lparr>sr_frame := None, sr_scrolls := sr_scrolls s @ [idx]\<rparr>)"

section \<open>Properties\<close>

lemma row_offsets_nth [simp]:
  "i < n \<Longrightarrow> row_offsets px n ! i = (i * px, i * px + px)" "length (row_offsets px n) = n"
  by (simp_all add: row_offsets_def Let_def)

text \<open>
  The bar of a trace starts 4 pixels below the top of the trace's first row and ends 4 pixels
  above the bottom of its last row; rows are stacked without gaps.
\<close>

lemma table_bar_covers_trace:
  assumes "ts_first iv \<le> ts_last iv" "ts_last iv < n"
  shows "row_top (row_offsets px n) (ts_first iv) + 4 = int (ts_first iv * px) + 4
    \<and> row_bottom px (row_offsets px n) (ts_last iv) - row_top (row_offsets px n) (ts_first iv) - 8
        = int ((ts_last iv + 1 - ts_first iv) * px) - 8"
proof -
  have "int (ts_last iv * px) + int px - int (ts_first iv * px) = int ((ts_last iv + 1 - ts_first iv) * px)"
    using assms(1) by (auto simp: algebra_simps le_iff_add)
  then show ?thesis using assms by (simp add: row_top_def row_bottom_def)
qed

lemma scroll_run_same:
  "\<forall>r\<in>set renders. fst r = Some i \<Longrightarrow> scroll_run (Some i) renders = replicate (length renders) None"
  by (induction renders) (auto simp: scroll_effect_def)

text \<open>
  While one request stays selected, the list scrolls to it once, in the first render
  that has its row, and never again, whatever rows arrive or leave.
\<close>

theorem selection_scrolled_once:
  assumes "list_all (\<lambda>r. fst r = Some i) renders" and "scrolledTo \<noteq> Some i"
  shows "case findIndex (\<lambda>r. i \<in> set (snd r)) renders of
      None \<Rightarrow> scroll_run scrolledTo renders = replicate (length renders) None
    | Some k \<Rightarrow> \<exists>row. scroll_run scrolledTo renders = (replicate (length renders) None)[k := Some row]
        \<and> row < length (snd (renders ! k)) \<and> snd (renders ! k) ! row = i"
  using assms(1)
proof (induction renders)
  case (Cons r renders)
  obtain ids where r: "r = (Some i, ids)" using Cons.prems by (cases r) auto
  have rest: "\<forall>r\<in>set renders. fst r = Some i" using Cons.prems by (simp add: list_all_iff)
  show ?case
  proof (cases "findIndex (\<lambda>j. j = i) ids")
    case None
    then have "i \<notin> set ids" by auto
    then have run: "scroll_run scrolledTo (r # renders) = None # scroll_run scrolledTo renders"
      using None assms(2) by (simp add: r scroll_effect_def del: findIndex_None_iff)
    have IH: "case findIndex (\<lambda>r. i \<in> set (snd r)) renders of
        None \<Rightarrow> scroll_run scrolledTo renders = replicate (length renders) None
      | Some k \<Rightarrow> \<exists>row. scroll_run scrolledTo renders = (replicate (length renders) None)[k := Some row]
          \<and> row < length (snd (renders ! k)) \<and> snd (renders ! k) ! row = i"
      using Cons by simp
    show ?thesis
    proof (cases "findIndex (\<lambda>r. i \<in> set (snd r)) renders")
      case None
      then have "findIndex (\<lambda>r. i \<in> set (snd r)) (r # renders) = None" using \<open>i \<notin> set ids\<close> by (simp add: r)
      then show ?thesis using IH run None by (simp del: findIndex_None_iff scroll_run.simps)
    next
      case (Some k)
      then have "findIndex (\<lambda>r. i \<in> set (snd r)) (r # renders) = Some (Suc k)"
        using \<open>i \<notin> set ids\<close> by (simp add: r)
      then show ?thesis using IH run Some by (simp del: findIndex_None_iff scroll_run.simps findIndex.simps)
    qed
  next
    case (Some row)
    then have "row < length ids" "ids ! row = i" by (auto dest: findIndex_Some)
    moreover from this have "i \<in> set ids" by auto
    ultimately show ?thesis
      using Some assms(2) scroll_run_same [OF rest] by (auto simp: r scroll_effect_def)
  qed
qed simp

text \<open>What the render that changes the selection sees, and the renders while it lasts.\<close>

fun still_selected :: "nat \<Rightarrow> scroll_event \<Rightarrow> bool" where
  "still_selected i (sv_changed selectedId ids) \<longleftrightarrow> selectedId = Some i"
| "still_selected i sv_frame \<longleftrightarrow> True"

lemma scroller_idle:
  "list_all (still_selected i) events \<Longrightarrow> sr_scrolledTo s = Some i \<Longrightarrow> sr_frame s = None \<Longrightarrow>
     sr_scrolls (fold scroller_step events s) = sr_scrolls s"
proof (induction events arbitrary: s)
  case (Cons e events)
  then show ?case by (cases e) (simp_all add: scroll_effect_def)
qed simp

text \<open>
  When the rows change before the next frame, the scroll to a newly selected
  request is cancelled and is never made up for while the request stays selected.
\<close>

theorem scroll_lost_when_rows_change:
  assumes "i \<in> set ids" "sr_scrolledTo s \<noteq> Some i" "list_all (still_selected i) events"
  shows "sr_frame (scroller_step (sv_changed (Some i) ids) s) \<noteq> None
    \<and> sr_scrolls (fold scroller_step (sv_changed (Some i) ids # sv_changed (Some i) ids' # events) s) = sr_scrolls s"
proof -
  obtain row where row: "findIndex (\<lambda>j. j = i) ids = Some row"
    using assms(1) by (cases "findIndex (\<lambda>j. j = i) ids") auto
  then show ?thesis
    using assms(2) scroller_idle [OF assms(3), of "s\<lparr>sr_scrolledTo := Some i, sr_frame := None\<rparr>"]
    by (simp add: scroll_effect_def)
qed

theorem scroll_lost_when_rows_change_witness:
  "sr_scrolls (fold scroller_step [sv_changed (Some 7) [7, 6], sv_changed (Some 7) [8, 7, 6], sv_frame]
     \<lparr>sr_scrolledTo = None, sr_frame = None, sr_scrolls = []\<rparr>) = []"
  using scroll_lost_when_rows_change [of 7 "[7, 6]" "\<lparr>sr_scrolledTo = None, sr_frame = None, sr_scrolls = []\<rparr>"
      "[sv_frame]" "[8, 7, 6]"] by simp

theorem selection_scrolled_once_witness:
  "\<exists>row. scroll_run None [(Some 7, [5]), (Some 7, [6, 7]), (Some 7, [7])] = [None, Some row, None] \<and> [6, 7] ! row = (7 :: nat)"
  using selection_scrolled_once [of 7 "[(Some 7, [5]), (Some 7, [6, 7]), (Some 7, [7])]" None] by auto


section \<open>Keys of the virtualized items\<close>

text \<open>
  \<open>getItemKey\<close> of the table and of the rows list: a new density gives every item a new key, so the
  virtualizer measures it again.
\<close>

fun density_name :: "Density \<Rightarrow> string" where
  "density_name density_regular = ''regular''"
| "density_name density_compact = ''compact''"

definition item_key :: "nat list \<Rightarrow> Density \<Rightarrow> nat \<Rightarrow> string" where
  "item_key exchange_ids density index =
     showNat (if index < length exchange_ids then exchange_ids ! index else index) @ ''|'' @ density_name density"

lemma item_key_inject:
  "item_key xs d i = item_key ys e j \<longleftrightarrow>
     (if i < length xs then xs ! i else i) = (if j < length ys then ys ! j else j) \<and> d = e"
proof -
  have "CHR ''|'' \<notin> set (showNat n)" for n using showNat_digits [of "CHR ''|''" n] by (auto simp: charCode_def)
  then have "showNat m @ CHR ''|'' # a = showNat n @ CHR ''|'' # b \<longleftrightarrow> m = n \<and> a = b" for m n a b
    by (simp add: append_sep_inject)
  moreover have "density_name d = density_name e \<longleftrightarrow> d = e" by (cases d; cases e) simp_all
  ultimately show ?thesis by (simp add: item_key_def)
qed

lemma item_keys_distinct: "distinct xs \<Longrightarrow> distinct (map (item_key xs d) [0..<length xs])"
  by (auto simp: distinct_map inj_on_def item_key_inject nth_eq_iff_index_eq)

end
