(* ===== verification/Headers_Pane.thy ===== *)
theory Headers_Pane
  imports Utils Dom
begin

text \<open>
  One side of the headers tab, \<open>components/headers-pane.tsx\<close>: the filtered and pinned rows, the
  masked, revealed or decoded credential, and the check mark of a copied row.

  \<open>headers.indexOf(h)\<close> finds a header by identity; here a header carries its row, and filtering
  and sorting keep it. The browser's timers are the list of those still running, by their ids; a
  clipboard write may be rejected at any later time.

  Shown: at most one credential is unmasked, whatever the filter does; a check mark always has a
  running timer that will remove it.
\<close>

datatype HeaderView = view_raw | view_decoded

record RowHeader = Header +
  rh_row :: nat

definition with_rows :: "ProxyHeaders \<Rightarrow> RowHeader list" where
  "with_rows headers = map (\<lambda>(i, h). \<lparr>h_name = h_name h, h_value = h_value h, rh_row = i\<rparr>) (enumerate 0 headers)"

definition displayHeaders :: "ProxyHeaders \<Rightarrow> string \<Rightarrow> RowHeader list" where
  "displayHeaders headers query = sortHeadersByPin (filterHeaders (with_rows headers) query)"

section \<open>State\<close>

record HeadersPane =
  hp_query :: string
  hp_reveal :: "(nat \<times> HeaderView) option"
  hp_copiedRow :: "nat option"
  hp_timerRef :: "nat option"
  hp_timers :: "nat list"
  hp_nextTimer :: nat

definition headers_pane_init :: HeadersPane where
  "headers_pane_init =
     \<lparr>hp_query = [], hp_reveal = None, hp_copiedRow = None, hp_timerRef = None, hp_timers = [], hp_nextTimer = 0\<rparr>"

definition clear_timer :: "nat option \<Rightarrow> nat list \<Rightarrow> nat list" where
  "clear_timer ref timers = (case ref of None \<Rightarrow> timers | Some k \<Rightarrow> removeAll k timers)"

definition copyValue :: "nat \<Rightarrow> HeadersPane \<Rightarrow> HeadersPane" where
  "copyValue rowIdx s =
     s\<lparr>hp_copiedRow := Some rowIdx, hp_timerRef := Some (hp_nextTimer s),
       hp_timers := clear_timer (hp_timerRef s) (hp_timers s) @ [hp_nextTimer s], hp_nextTimer := hp_nextTimer s + 1\<rparr>"

text \<open>The \<open>catch\<close> of a clipboard write.\<close>

definition copyRejected :: "HeadersPane \<Rightarrow> HeadersPane" where
  "copyRejected s =
     s\<lparr>hp_copiedRow := None, hp_timers := clear_timer (hp_timerRef s) (hp_timers s), hp_timerRef := None\<rparr>"

definition copyTimeout :: "nat \<Rightarrow> HeadersPane \<Rightarrow> HeadersPane" where
  "copyTimeout k s = s\<lparr>hp_copiedRow := None, hp_timers := removeAll k (hp_timers s)\<rparr>"

definition clearCopiedRow :: "nat \<Rightarrow> HeadersPane \<Rightarrow> HeadersPane" where
  "clearCopiedRow rowIdx s =
     (if hp_copiedRow s \<noteq> Some rowIdx then s
      else s\<lparr>hp_copiedRow := None, hp_timers := clear_timer (hp_timerRef s) (hp_timers s), hp_timerRef := None\<rparr>)"

definition headersUnmount :: "HeadersPane \<Rightarrow> HeadersPane" where
  "headersUnmount s = s\<lparr>hp_timers := clear_timer (hp_timerRef s) (hp_timers s)\<rparr>"

datatype headers_event =
    he_query string
  | he_reveal "(nat \<times> HeaderView) option"
  | he_copy nat string
  | he_leave nat
  | he_rejected
  | he_timeout nat

fun headers_step :: "headers_event \<Rightarrow> HeadersPane \<Rightarrow> HeadersPane" where
  "headers_step (he_query q) s = s\<lparr>hp_query := q\<rparr>"
| "headers_step (he_reveal r) s = s\<lparr>hp_reveal := r\<rparr>"
| "headers_step (he_copy row v) s = copyValue row s"
| "headers_step (he_leave row) s = clearCopiedRow row s"
| "headers_step he_rejected s = copyRejected s"
| "headers_step (he_timeout k) s = (if k \<in> set (hp_timers s) then copyTimeout k s else s)"

section \<open>Rows\<close>

record RowView =
  rv_isMaskable :: bool
  rv_decoded :: "string option"
  rv_view :: "HeaderView option"
  rv_isDecoded :: bool
  rv_shown :: string
  rv_copyTarget :: string

definition row_view :: "(nat \<times> HeaderView) option \<Rightarrow> RowHeader \<Rightarrow> RowView" where
  "row_view reveal h =
     (let masked = maskHeaderValue (h_name h) (h_value h);
          isMaskable = (masked \<noteq> h_value h);
          decoded = (if isMaskable then decodeBasicAuth (h_value h) else None);
          view = (case reveal of None \<Rightarrow> None | Some (row, v) \<Rightarrow> if row = rh_row h then Some v else None);
          isDecoded = (view = Some view_decoded \<and> decoded \<noteq> None);
          shown = (if \<not> isMaskable then h_value h
                   else if isDecoded then the decoded
                   else if view = Some view_raw then h_value h
                   else masked)
      in \<lparr>rv_isMaskable = isMaskable, rv_decoded = decoded, rv_view = view, rv_isDecoded = isDecoded,
          rv_shown = shown, rv_copyTarget = (if isDecoded then the decoded else h_value h)\<rparr>)"

text \<open>A pressed toggle reports \<open>on = False\<close> next, an unpressed one \<open>True\<close>.\<close>

definition header_row :: "(nat \<times> HeaderView) option \<Rightarrow> nat option \<Rightarrow> RowHeader \<Rightarrow> headers_event dom" where
  "header_row reveal copiedRow h =
     (let v = row_view reveal h; row = rh_row h
      in El ''tr'' [] [(''mouseleave'', he_leave row)]
           [El ''td'' [] [] [Txt (lat (h_name h))],
            El ''td'' [] []
              ([El ''span'' [] [] [Txt (lat (rv_shown v))]]
               @ child_if (rv_isMaskable v \<and> rv_decoded v \<noteq> None \<and> rv_view v \<noteq> None)
                   [El ''Toggle'' [(''pressed'', bool_text (rv_isDecoded v)),
                        (''aria-label'', lat (if rv_isDecoded v then ''Show raw value'' else ''Decode value''))]
                      [(''pressedChange'', he_reveal (Some (row, if rv_isDecoded v then view_raw else view_decoded)))]
                      [El ''Braces'' [] [] []]]
               @ child_if (rv_isMaskable v)
                   [El ''Toggle'' [(''pressed'', bool_text (rv_view v \<noteq> None)),
                        (''aria-label'', lat (if rv_view v = None then ''Reveal value'' else ''Hide value''))]
                      [(''pressedChange'', he_reveal (if rv_view v = None then Some (row, view_raw) else None))]
                      [El (if rv_view v = None then ''Eye'' else ''EyeOff'') [] [] []]]
               @ [El ''Button'' [(''aria-label'', lat (''Copy '' @ h_name h @ '' value''))]
                    [(''click'', he_copy row (rv_copyTarget v))]
                    [El (if copiedRow = Some row then ''Check'' else ''Copy'') [] [] []]])])"

definition HeadersPane_view ::
    "string \<Rightarrow> ProxyHeaders \<Rightarrow> string \<Rightarrow> string \<Rightarrow> string \<Rightarrow> HeadersPane \<Rightarrow> headers_event dom" where
  "HeadersPane_view title headers emptyMessage testId typed s =
     (let displayed = displayHeaders headers (hp_query s)
      in El ''div'' [(''data-testid'', lat testId)] []
           [El ''div'' [] []
              [El ''span'' [] [] [Txt (lat title)],
               El ''span'' [] [] [Txt (lat (showNat (length headers) @ '' '' @
                                     (if length headers = 1 then ''header'' else ''headers'')))]],
            if headers = [] then El ''div'' [] [] [El ''span'' [] [] [Txt (lat emptyMessage)]]
            else El ''div'' [] []
              ([El ''Search'' [(''aria-hidden'', lat ''true'')] [] [],
                El ''Input'' [(''value'', lat (hp_query s)), (''placeholder'', lat ''Filter headers'' @ [ellipsis]),
                    (''aria-label'', lat (''Filter '' @ toLowerCase title @ '' headers''))]
                  [(''change'', he_query typed)] []]
               @ child_if (hp_query s \<noteq> [])
                   [El ''Button'' [(''aria-label'', lat ''Clear filter'')] [(''click'', he_query [])] [El ''X'' [] [] []]]
               @ [if displayed = [] then El ''div'' [] [] [El ''span'' [] [] [Txt (lat ''No matching headers'')]]
                  else El ''table'' [] []
                    [El ''tbody'' [] [] (map (header_row (hp_reveal s) (hp_copiedRow s)) displayed)]])])"

section \<open>Lemmas\<close>

lemma with_rows_rows: "map rh_row (with_rows headers) = [0..<length headers]"
  by (simp add: with_rows_def case_prod_unfold comp_def flip: map_fst_enumerate [of 0, simplified])

lemma displayed_rows_distinct: "distinct (map rh_row (displayHeaders headers query))"
proof -
  have d: "distinct (map rh_row (with_rows headers))" by (simp add: with_rows_rows)
  then have "distinct (map rh_row (filterHeaders (with_rows headers) query))"
    by (simp add: filterHeaders_def distinct_map_filter Let_def)
  moreover have "mset (map rh_row (displayHeaders headers query))
      = mset (map rh_row (filterHeaders (with_rows headers) query))"
    by (simp add: displayHeaders_def mset_sortHeadersByPin)
  ultimately show ?thesis by (metis mset_eq_imp_distinct_iff)
qed

text \<open>A row shows a maskable value unmasked only when it is the revealed row.\<close>

definition unmasked :: "(nat \<times> HeaderView) option \<Rightarrow> RowHeader \<Rightarrow> bool" where
  "unmasked reveal h \<longleftrightarrow> rv_shown (row_view reveal h) \<noteq> maskHeaderValue (h_name h) (h_value h)"

lemma unmasked_row: "unmasked reveal h \<Longrightarrow> \<exists>v. reveal = Some (rh_row h, v)"
  by (auto simp: unmasked_def row_view_def Let_def split: if_splits option.splits prod.splits)

text \<open>Runs of the pane, from its mount.\<close>

inductive headers_reachable :: "HeadersPane \<Rightarrow> bool" where
  headers_start: "headers_reachable headers_pane_init"
| headers_next: "headers_reachable s \<Longrightarrow> headers_reachable (headers_step e s)"

definition headers_ok :: "HeadersPane \<Rightarrow> bool" where
  "headers_ok s \<longleftrightarrow>
     (hp_timers s = [] \<or> (\<exists>k. hp_timerRef s = Some k \<and> hp_timers s = [k]))
     \<and> (hp_copiedRow s \<noteq> None \<longrightarrow> hp_timers s \<noteq> [])"

lemma headers_ok_step: "headers_ok s \<Longrightarrow> headers_ok (headers_step e s)"
  by (cases e) (auto simp: headers_ok_def copyValue_def clear_timer_def copyRejected_def copyTimeout_def
      clearCopiedRow_def split: option.splits)

section \<open>Properties\<close>

text \<open>
  At most one header value is shown unmasked at any time; filtering reorders and
  hides rows but shows the same values unmasked; and a pane that was just mounted, as on every
  change of the exchange, shows none.
\<close>

theorem one_credential_unmasked:
  "length (filter (unmasked (hp_reveal s)) (displayHeaders headers (hp_query s))) \<le> 1
   \<and> hp_reveal (headers_step (he_query q) s) = hp_reveal s
   \<and> \<not> list_ex (unmasked (hp_reveal headers_pane_init)) (displayHeaders headers q)"
proof -
  let ?u = "filter (unmasked (hp_reveal s)) (displayHeaders headers (hp_query s))"
  have "length ?u \<le> 1"
  proof (cases "hp_reveal s")
    case None
    then have "?u = []" by (auto simp: filter_empty_conv dest: unmasked_row)
    then show ?thesis by simp
  next
    case (Some p)
    have "distinct (map rh_row ?u)" using displayed_rows_distinct distinct_map_filter by blast
    moreover have "set (map rh_row ?u) \<subseteq> {fst p}" using Some by (auto dest!: unmasked_row)
    ultimately show ?thesis
      by (metis card_mono [of "{fst p}"] card.insert card.empty distinct_card empty_iff finite.emptyI
          finite.insertI length_map One_nat_def)
  qed
  then show ?thesis
    by (auto simp: headers_pane_init_def list_ex_iff dest: unmasked_row)
qed

text \<open>
  While a row shows the check mark of a copy, the timer that removes it is running;
  there is never more than one timer, and when it fires no row shows the mark.
\<close>

theorem check_mark_has_timer:
  assumes "headers_reachable s"
  shows "(hp_copiedRow s \<noteq> None \<longrightarrow> (\<exists>k. hp_timers s = [k]
      \<and> hp_copiedRow (headers_step (he_timeout k) s) = None \<and> hp_timers (headers_step (he_timeout k) s) = []))
    \<and> length (hp_timers s) \<le> 1"
proof -
  have "headers_ok s"
    using assms
  proof (induction rule: headers_reachable.induct)
    case headers_start
    show ?case by (simp add: headers_ok_def headers_pane_init_def)
  qed (rule headers_ok_step)
  then show ?thesis by (auto simp: headers_ok_def copyTimeout_def)
qed

theorem check_mark_has_timer_witness:
  "hp_copiedRow (headers_step (he_timeout 1) (headers_step (he_copy 3 ''b'') (headers_step (he_copy 2 ''a'') headers_pane_init))) = None"
proof -
  let ?s = "headers_step (he_copy 3 ''b'') (headers_step (he_copy 2 ''a'') headers_pane_init)"
  have "headers_reachable ?s" by (intro headers_reachable.intros)
  from check_mark_has_timer [OF this] show ?thesis
    by (simp add: copyValue_def headers_pane_init_def clear_timer_def)
qed

end
