(* ===== verification/Inspector.thy ===== *)
theory Inspector
  imports Headers_Pane Trace
begin

text \<open>
  The detail panel, \<open>components/inspector.tsx\<close>: tabs, context bar, path display, timing facts.

  The heavy body content is a parameter, as it is a render slot in the code. The tabs of the
  component library unmount the content of a tab that is not selected, and React remounts a
  component whose key changes; the two header panes are keyed by the exchange's id.

  Shown: a credential revealed for one exchange is never shown for the next; what the path
  display shows of a request line, and what it drops.
\<close>

section \<open>State\<close>

datatype BodyTab = tab_bodies | tab_headers | tab_timing

text \<open>\<open>in_panes\<close> are the request and the response header pane while they are mounted.\<close>

record Inspector =
  in_exchangeId :: nat
  in_tab :: BodyTab
  in_paired :: bool
  in_panes :: "(HeadersPane \<times> HeadersPane) option"

definition inspector_init :: "Exchange \<Rightarrow> Inspector" where
  "inspector_init x = \<lparr>in_exchangeId = ex_id x, in_tab = tab_bodies, in_paired = False, in_panes = None\<rparr>"

definition fresh_panes :: "BodyTab \<Rightarrow> (HeadersPane \<times> HeadersPane) option" where
  "fresh_panes tab = (if tab = tab_headers then Some (headers_pane_init, headers_pane_init) else None)"

definition setTab :: "BodyTab \<Rightarrow> Inspector \<Rightarrow> Inspector" where
  "setTab tab s = (if tab = in_tab s then s else s\<lparr>in_tab := tab, in_panes := fresh_panes tab\<rparr>)"

definition setPaired :: "bool \<Rightarrow> Inspector \<Rightarrow> Inspector" where
  "setPaired b s = s\<lparr>in_paired := b\<rparr>"

text \<open>A render with another exchange.\<close>

definition showExchange :: "Exchange \<Rightarrow> Inspector \<Rightarrow> Inspector" where
  "showExchange x s =
     (if ex_id x = in_exchangeId s then s
      else s\<lparr>in_exchangeId := ex_id x, in_panes := fresh_panes (in_tab s)\<rparr>)"

definition paneEvent :: "Direction \<Rightarrow> headers_event \<Rightarrow> Inspector \<Rightarrow> Inspector" where
  "paneEvent side e s =
     s\<lparr>in_panes := map_option (\<lambda>(req, res). case side of
         DirRequest \<Rightarrow> (headers_step e req, res) | DirResponse \<Rightarrow> (req, headers_step e res)) (in_panes s)\<rparr>"

datatype inspector_action =
    ia_tab BodyTab
  | ia_paired bool
  | ia_pane Direction headers_event
  | ia_show Exchange
  | ia_prev
  | ia_next
  | ia_next_matching Exchange
  | ia_filter_trace string
  | ia_copy_trace string
  | ia_next_in_trace Exchange string

text \<open>The last six go to the container.\<close>

fun inspector_step :: "inspector_action \<Rightarrow> Inspector \<Rightarrow> Inspector" where
  "inspector_step (ia_tab t) s = setTab t s"
| "inspector_step (ia_paired b) s = setPaired b s"
| "inspector_step (ia_pane side e) s = paneEvent side e s"
| "inspector_step (ia_show x) s = showExchange x s"
| "inspector_step a s = s"

section \<open>The path\<close>

text \<open>\<open>const [k, v] = kv.split("=")\<close> and its three spans.\<close>

definition query_param :: "bool \<Rightarrow> string \<Rightarrow> 'h dom" where
  "query_param first kv =
     (let parts = split_on (CHR ''='') kv
      in El ''span'' [] []
           (child_if (\<not> first) [El ''span'' [] [] [Txt (lat ''&'')]]
            @ [El ''span'' [] [] [Txt (lat (hd parts))]]
            @ (case tl parts of
                 [] \<Rightarrow> []
               | v # rest \<Rightarrow> [El ''span'' [] [] [Txt (lat ''='')], El ''span'' [] [] [Txt (lat v)]])))"

definition query_params :: "string \<Rightarrow> 'h dom list" where
  "query_params query =
     map (\<lambda>(i, kv). query_param (i = 0) kv) (enumerate 0 (split_on (CHR ''&'') query))"

definition display_query :: "string \<Rightarrow> string" where
  "display_query uri =
     (let rawQuery = su_query (splitUri uri) in if startsWith rawQuery ''?'' then tl rawQuery else rawQuery)"

definition PathDisplay :: "string \<Rightarrow> 'h option \<Rightarrow> 'h dom" where
  "PathDisplay uri onNextMatching =
     (let query = display_query uri
      in El ''span'' [] []
           (El ''SimpleTooltip'' [(''content'', lat uri)] []
              [El ''span'' [] []
                 (Txt (lat (su_path (splitUri uri)))
                  # child_if (query \<noteq> []) [El ''span'' [] [] (Txt (lat ''?'') # query_params query)])]
            # (case onNextMatching of
                 None \<Rightarrow> []
               | Some h \<Rightarrow> [El ''Button'' [(''aria-label'', lat ''Next request with same method + path'')]
                   [(''click'', h)] [El ''ChevronRight'' [] [] []]])))"

section \<open>The context bar\<close>

definition tag_action :: "Exchange \<Rightarrow> string \<Rightarrow> trace_action \<Rightarrow> inspector_action" where
  "tag_action x t a = (case a of
     copy_trace \<Rightarrow> ia_copy_trace t
   | next_in_trace \<Rightarrow> ia_next_in_trace x t
   | _ \<Rightarrow> ia_filter_trace t)"

definition ContextBar :: "Exchange \<Rightarrow> inspector_action dom" where
  "ContextBar x =
     El ''div'' [] []
       ([El ''Button'' [(''aria-label'', lat ''Previous request'')] [(''click'', ia_prev)] [El ''ChevronUp'' [] [] []],
         El ''Button'' [(''aria-label'', lat ''Next request'')] [(''click'', ia_next)] [El ''ChevronDown'' [] [] []],
         MethodBadge (ex_method x),
         PathDisplay (case ex_uri x of Some u \<Rightarrow> u | None \<Rightarrow> ''/'') (Some (ia_next_matching x)),
         StatusCode (ex_status x) (ex_error x \<noteq> None) False (map_option xe_message (ex_error x))]
        @ (case ex_elapsedMs x of None \<Rightarrow> [] | Some m \<Rightarrow> [El ''span'' [] [] [Txt (fmt_elapsed (Some m))]])
        @ (case ex_traceId x of
             None \<Rightarrow> []
           | Some t \<Rightarrow> child_if (t \<noteq> []) [map_dom (tag_action x t) (TraceTag t None True)]))"

section \<open>Timing facts\<close>

definition bodyBytes :: "BodyState option \<Rightarrow> 'h dom" where
  "bodyBytes body =
     (let view = sizeView body
      in if sv_wireBytes view = None then Txt [em_dash]
         else El ''SimpleTooltip'' (opt_attr ''content'' (map_option lat (sv_tooltip view))) []
           [El ''span'' [] []
              (El ''span'' [] [] [Txt (sizeText view)]
               # (case sv_encoding view of
                    None \<Rightarrow> []
                  | Some e \<Rightarrow> child_if (e \<noteq> []) [El ''span'' [] [] [Txt (lat (''('' @ e @ '')''))]]))])"

definition or_dash :: "string option \<Rightarrow> 'h dom" where
  "or_dash v = Txt (case v of Some s \<Rightarrow> lat s | None \<Rightarrow> [em_dash])"

definition timing_status :: "Exchange \<Rightarrow> string" where
  "timing_status x = (case ex_status x of
     Some st \<Rightarrow> st
   | None \<Rightarrow> (case ex_error x of Some e \<Rightarrow> xe_message e | None \<Rightarrow> ''awaiting''))"

definition timing_rows ::
    "(string \<Rightarrow> int option) \<Rightarrow> (int \<Rightarrow> int) \<Rightarrow> Exchange \<Rightarrow> TimeZone \<Rightarrow> (string \<times> 'h dom) list" where
  "timing_rows getTime offset x tz =
     [(''Started'', Txt (lat (formatAbsoluteTime getTime offset (ex_timestamp x) tz))),
      (''HTTP version'', or_dash (ex_version x)),
      (''Method'', or_dash (ex_method x)),
      (''Status'', Txt (lat (timing_status x))),
      (''Elapsed'', Txt (fmt_elapsed (ex_elapsedMs x))),
      (''Request bytes'', bodyBytes (ex_requestBody x)),
      (''Response bytes'', bodyBytes (ex_responseBody x)),
      (''Trace ID'', or_dash (ex_traceId x))]"

definition TimingFacts :: "(string \<Rightarrow> int option) \<Rightarrow> (int \<Rightarrow> int) \<Rightarrow> Exchange \<Rightarrow> TimeZone \<Rightarrow> 'h dom" where
  "TimingFacts getTime offset x tz =
     El ''table'' [] [] [El ''tbody'' [] []
       (map (\<lambda>(k, v). El ''tr'' [] [] [El ''td'' [] [] [Txt (lat k)], El ''td'' [] [] [v]])
          (timing_rows getTime offset x tz))]"

section \<open>The panel\<close>

definition header_panes :: "Exchange \<Rightarrow> string \<Rightarrow> HeadersPane \<times> HeadersPane \<Rightarrow> inspector_action dom" where
  "header_panes x typed panes =
     El ''div'' [] []
       [map_dom (ia_pane DirRequest)
          (HeadersPane_view ''Request'' (case ex_requestHeaders x of Some h \<Rightarrow> h | None \<Rightarrow> [])
             ''No request headers captured'' ''headers-panel-request'' typed (fst panes)),
        map_dom (ia_pane DirResponse)
          (HeadersPane_view ''Response'' (case ex_responseHeaders x of Some h \<Rightarrow> h | None \<Rightarrow> [])
             ''No response headers captured'' ''headers-panel-response'' typed (snd panes))]"

definition Inspector_view ::
    "(string \<Rightarrow> int option) \<Rightarrow> (int \<Rightarrow> int) \<Rightarrow> Exchange \<Rightarrow> TimeZone \<Rightarrow> bool \<Rightarrow> inspector_action dom \<Rightarrow>
     inspector_action dom option \<Rightarrow> string \<Rightarrow> Inspector \<Rightarrow> inspector_action dom" where
  "Inspector_view getTime offset x tz isMsearch bodySplit msearch typed s =
     (let showMsearch = (isMsearch \<and> msearch \<noteq> None);
          showPairedToggle = (showMsearch \<and> in_tab s = tab_bodies);
          showPaired = (showMsearch \<and> in_paired s)
      in El ''div'' [] []
           ([ContextBar x,
             El ''TabsList'' [(''data-testid'', lat ''inspector-tab-list'')] []
               [El ''TabsTrigger'' [(''value'', lat ''bodies'')] [(''select'', ia_tab tab_bodies)]
                  [Txt (lat (if isSSEExchange x then ''Stream'' else ''Bodies''))],
                El ''TabsTrigger'' [(''value'', lat ''headers'')] [(''select'', ia_tab tab_headers)] [Txt (lat ''Headers'')],
                El ''TabsTrigger'' [(''value'', lat ''timing'')] [(''select'', ia_tab tab_timing)] [Txt (lat ''Timing'')]]]
            @ child_if showPairedToggle
                [El ''Toggle'' [(''pressed'', bool_text (in_paired s)), (''aria-label'', lat ''Paired msearch view'')]
                   [(''pressedChange'', ia_paired (\<not> in_paired s))] [Txt (lat ''Paired'')]]
            @ [case in_tab s of
                 tab_bodies \<Rightarrow> (if showPaired then the msearch else bodySplit)
               | tab_headers \<Rightarrow> header_panes x typed (case in_panes s of Some p \<Rightarrow> p | None \<Rightarrow> (headers_pane_init, headers_pane_init))
               | tab_timing \<Rightarrow> TimingFacts getTime offset x tz]))"

section \<open>Lemmas\<close>

text \<open>What the panel shows of a parameter, of a query, of a request line.\<close>

definition shown_param :: "string \<Rightarrow> string" where
  "shown_param kv = join ''='' (take 2 (split_on (CHR ''='') kv))"

lemma query_param_text:
  "text_content (query_param first kv) = lat ((if first then [] else ''&'') @ shown_param kv)"
proof (cases "split_on (CHR ''='') kv")
  case (Cons k ps)
  then show ?thesis by (cases ps) (simp_all add: query_param_def shown_param_def child_if_def Let_def)
qed simp

lemma join_enumerate:
  "concat (map (\<lambda>(i, p). (if i = 0 then [] else sep) @ f p) (enumerate k ps))
     = (if k = 0 \<or> ps = [] then [] else sep) @ join sep (map f ps)"
proof (induction ps arbitrary: k)
  case (Cons p ps)
  then show ?case by (cases ps) simp_all
qed simp

lemma query_params_text:
  "texts (query_params query) = lat (join ''&'' (map shown_param (split_on (CHR ''&'') query)))"
proof -
  have "texts (query_params query)
      = lat (concat (map (\<lambda>(i, p). (if i = 0 then [] else ''&'') @ shown_param p) (enumerate 0 (split_on (CHR ''&'') query))))"
    by (simp add: query_params_def query_param_text map_concat case_prod_unfold comp_def)
  then show ?thesis by (simp add: join_enumerate)
qed

lemma PathDisplay_text:
  "text_content (PathDisplay uri h) =
     lat (su_path (splitUri uri) @ (if display_query uri = [] then []
       else ''?'' @ join ''&'' (map shown_param (split_on (CHR ''&'') (display_query uri)))))"
  by (cases h) (simp_all add: PathDisplay_def query_params_text child_if_def Let_def)

section \<open>Properties\<close>

text \<open>
  A query value is shown up to its second equals sign: of a request for
  \<open>path?k=v=rest\<close> the context bar shows \<open>path?k=v\<close>.
\<close>

theorem query_value_cut_at_equals:
  assumes "CHR ''?'' \<notin> set path" "set k \<inter> {CHR ''='', CHR ''&''} = {}" "set v \<inter> {CHR ''='', CHR ''&''} = {}"
    and "CHR ''&'' \<notin> set rest"
  shows "text_content (PathDisplay (path @ ''?'' @ k @ ''='' @ v @ ''='' @ rest) h) = lat (path @ ''?'' @ k @ ''='' @ v)"
proof -
  let ?q = "k @ ''='' @ v @ ''='' @ rest"
  have uri: "splitUri (path @ ''?'' @ ?q) = \<lparr>su_path = path, su_query = ''?'' @ ?q\<rparr>"
    using assms(1) by (simp add: splitUri_def indexOf_append_notin)
  have q: "display_query (path @ ''?'' @ ?q) = ?q"
    by (simp add: display_query_def uri [simplified] Let_def startsWith_def)
  have "split_on (CHR ''&'') ?q = [?q]"
    using assms by (intro split_on_notin) auto
  moreover have "shown_param ?q = k @ ''='' @ v"
    using assms(2,3) split_on_append_sep [of "CHR ''=''" k "v @ ''='' @ rest"]
      split_on_append_sep [of "CHR ''=''" v rest]
    by (simp add: shown_param_def)
  ultimately show ?thesis by (simp add: PathDisplay_text q [simplified] uri [simplified])
qed

theorem query_value_cut_at_equals_witness:
  "text_content (PathDisplay ''/a?token=eA=='' None) = lat ''/a?token=eA''"
  using query_value_cut_at_equals [of "''/a''" "''token''" "''eA''" "''=''" None] by simp

text \<open>
  When another exchange is selected, both header panes are fresh: no header value of
  it is shown unmasked, whatever was revealed before; the tab and the paired choice stay.
\<close>

theorem navigation_masks_credentials:
  assumes "ex_id x \<noteq> in_exchangeId s" and "in_panes (showExchange x s) = Some (req, res)"
  shows "\<not> list_ex (unmasked (hp_reveal req)) (displayHeaders headers query)
    \<and> \<not> list_ex (unmasked (hp_reveal res)) (displayHeaders headers query)
    \<and> in_tab (showExchange x s) = in_tab s \<and> in_paired (showExchange x s) = in_paired s"
proof -
  have "hp_reveal req = None" "hp_reveal res = None"
    using assms by (auto simp: showExchange_def fresh_panes_def headers_pane_init_def split: if_splits)
  then show ?thesis
    using assms(1) by (auto simp: list_ex_iff showExchange_def dest: unmasked_row)
qed

theorem navigation_masks_credentials_witness:
  "let s = inspector_step (ia_pane DirRequest (he_reveal (Some (0, view_raw))))
             (inspector_step (ia_tab tab_headers) (inspector_init (fresh_exchange 1 [])));
       h = [\<lparr>h_name = ''authorization'', h_value = ''Bearer abc''\<rparr>]
   in \<not> list_ex (unmasked (hp_reveal (fst (the (in_panes (showExchange (fresh_exchange 2 []) s)))))) (displayHeaders h [])"
proof -
  let ?s = "inspector_step (ia_pane DirRequest (he_reveal (Some (0, view_raw))))
             (inspector_step (ia_tab tab_headers) (inspector_init (fresh_exchange 1 [])))"
  have "ex_id (fresh_exchange 2 []) \<noteq> in_exchangeId ?s"
    and p: "in_panes (showExchange (fresh_exchange 2 []) ?s) = Some (headers_pane_init, headers_pane_init)"
    by (simp_all add: inspector_init_def setTab_def paneEvent_def showExchange_def fresh_panes_def fresh_exchange_def)
  from navigation_masks_credentials [OF this]
  have "\<not> list_ex (unmasked (hp_reveal headers_pane_init))
      (displayHeaders [\<lparr>h_name = ''authorization'', h_value = ''Bearer abc''\<rparr>] [])" by blast
  then show ?thesis by (simp only: Let_def p option.sel fst_conv not_False_eq_True)
qed

end
