(* ===== verification/Shell.thy ===== *)
theory Shell
  imports Palette Exchange_Table Inspector
begin

text \<open>
  The page, \<open>components/app-shell.tsx\<close>: the initial panel widths, the service session (the
  \<open>/info\<close> request of \<open>api/info.ts\<close>, the subscription, the toasts of \<open>lib/toast.ts\<close>), the list
  panel, the inspector's navigation and the global keys.

  \<open>sh_open\<close> are the browser's \<open>EventSource\<close>s that have not been closed, by number, with the service
  they are for; each delivers its events to its own callbacks while it is open. \<open>sh_cleanup\<close> is the
  source that the cleanup of the last subscription closes. Nothing but a cleanup closes a source.
  Effects run after the render in which their dependencies changed: first the cleanups, then
  the effects in their order. Widths are rationals.

  Shown: the shell is subscribed exactly to the selected service and shows its protocol; the
  initial widths fill the viewport; the keys reach every request; stepping through a trace
  visits all its requests.
\<close>

section \<open>Panel widths\<close>

definition RESIZE_HANDLE_WIDTH_PX :: rat where "RESIZE_HANDLE_WIDTH_PX = 1"
definition MAX_INITIAL_LIST_SHARE :: rat where "MAX_INITIAL_LIST_SHARE = 1 / 2"
definition LIST_MIN_WIDTH_PX :: rat where "LIST_MIN_WIDTH_PX = 26"
definition INSPECTOR_MIN_WIDTH_PX :: rat where "INSPECTOR_MIN_WIDTH_PX = 30"

text \<open>\<open>None\<close> is the absence of a window or a width that is not finite.\<close>

definition getInitialPanelSizes :: "rat option \<Rightarrow> rat \<Rightarrow> rat \<times> rat option" where
  "getInitialPanelSizes viewport listWidth = (case viewport of
     None \<Rightarrow> (listWidth, None)
   | Some viewportWidth \<Rightarrow>
       let available = max 0 (viewportWidth - RESIZE_HANDLE_WIDTH_PX);
           maxListWidth = max LIST_MIN_WIDTH_PX
             (min (of_int \<lfloor>viewportWidth * MAX_INITIAL_LIST_SHARE\<rfloor>) (available - INSPECTOR_MIN_WIDTH_PX));
           list_px = max LIST_MIN_WIDTH_PX (min listWidth maxListWidth)
       in (list_px, Some (max INSPECTOR_MIN_WIDTH_PX (available - list_px))))"

definition stored_width :: "StoreState \<Rightarrow> ListMode \<Rightarrow> rat" where
  "stored_width s mode = (case mode of mode_rows \<Rightarrow> lw_rows (pp_listWidth s) | mode_table \<Rightarrow> lw_table (pp_listWidth s))"

section \<open>The session\<close>

record Shell =
  sh_store :: StoreState
  sh_fetching :: bool
  sh_info :: "Info option"
  sh_prevConnection :: "ConnectionStatus option"
  sh_open :: "(nat \<times> string) list"
  sh_cleanup :: "nat option"
  sh_sources :: nat
  sh_toasts :: "Toast list"
  sh_posts :: "string list"
  sh_resizing :: bool
  sh_mounted :: bool

definition notifyConnection :: "ConnectionStatus option \<Rightarrow> ConnectionStatus \<Rightarrow> Toast list \<Rightarrow> Toast list" where
  "notifyConnection prev status toasts =
     (case connectionToast prev status of None \<Rightarrow> toasts | Some t \<Rightarrow> toasts @ [t])"

text \<open>The callbacks of the subscription.\<close>

fun subscription_effect :: "'a platform_scheme \<Rightarrow> es_effect \<Rightarrow> Shell \<Rightarrow> Shell" where
  "subscription_effect P (es_status status) sh =
     sh\<lparr>sh_toasts := notifyConnection (sh_prevConnection sh) status (sh_toasts sh),
        sh_prevConnection := Some status, sh_store := setConnection status (sh_store sh)\<rparr>"
| "subscription_effect P (es_post message) sh = sh\<lparr>sh_posts := sh_posts sh @ [message]\<rparr>"
| "subscription_effect P (es_message msg) sh = sh\<lparr>sh_store := applyEvent P msg (sh_store sh)\<rparr>"

abbreviation service_of :: "Shell \<Rightarrow> string option" where
  "service_of sh \<equiv> st_service (sh_store sh)"

definition info_service :: "Info option \<Rightarrow> string option \<Rightarrow> Service option" where
  "info_service info service = (case info of
     None \<Rightarrow> None
   | Some i \<Rightarrow> find (\<lambda>v. Some (sv_name v) = service) (info_services i))"

definition info_protocol :: "Info option \<Rightarrow> string option \<Rightarrow> Protocol option" where
  "info_protocol info service = (case info_service info service of None \<Rightarrow> None | Some v \<Rightarrow> sv_protocol v)"

definition protocol_effect :: "Shell \<Rightarrow> Shell" where
  "protocol_effect sh =
     (if service_of sh = None then sh
      else sh\<lparr>sh_store := setProtocol (info_protocol (sh_info sh) (service_of sh)) (sh_store sh)\<rparr>)"

text \<open>The cleanup of the subscription, \<open>es.close()\<close> on the source it made.\<close>

definition close_source :: "Shell \<Rightarrow> Shell" where
  "close_source sh = (case sh_cleanup sh of
     None \<Rightarrow> sh
   | Some k \<Rightarrow> sh\<lparr>sh_open := filter (\<lambda>(j, name). j \<noteq> k) (sh_open sh), sh_cleanup := None\<rparr>)"

definition subscribe_effect :: "'a platform_scheme \<Rightarrow> Shell \<Rightarrow> Shell" where
  "subscribe_effect P sh = (case service_of sh of
     None \<Rightarrow> sh
   | Some name \<Rightarrow>
       fold (subscription_effect P) subscribe_effects
         (sh\<lparr>sh_open := sh_open sh @ [(sh_sources sh, name)], sh_cleanup := Some (sh_sources sh),
             sh_sources := sh_sources sh + 1\<rparr>))"

definition run_effects :: "'a platform_scheme \<Rightarrow> Shell \<Rightarrow> Shell \<Rightarrow> Shell" where
  "run_effects P old sh =
     (let service_changed = (service_of sh \<noteq> service_of old);
          a = (if service_changed then close_source sh else sh);
          b = (if service_changed \<or> sh_info sh \<noteq> sh_info old then protocol_effect a else a)
      in if service_changed then subscribe_effect P b else b)"

text \<open>The first mount: \<open>/info\<close> is requested, no service is selected.\<close>

definition shell_init :: "StoreState \<Rightarrow> Shell" where
  "shell_init s =
     \<lparr>sh_store = s, sh_fetching = True, sh_info = None, sh_prevConnection = None, sh_open = [], sh_cleanup = None,
      sh_sources = 0, sh_toasts = [], sh_posts = [], sh_resizing = False, sh_mounted = True\<rparr>"

text \<open>
  \<open>fetchInfo\<close>: a response with its \<open>ok\<close> flag and its parsed JSON, if it parses; both failures
  raise, and the shell treats them alike.
\<close>

definition fetchInfo :: "bool \<Rightarrow> Info option \<Rightarrow> Info option" where
  "fetchInfo res_ok res_json = (if \<not> res_ok then None else res_json)"

text \<open>The answer to \<open>/info\<close>; \<open>None\<close> is a failure of any kind.\<close>

definition info_arrived :: "Info option \<Rightarrow> Shell \<Rightarrow> Shell" where
  "info_arrived answer sh = (case answer of
     None \<Rightarrow> sh\<lparr>sh_fetching := False\<rparr>
   | Some info \<Rightarrow>
       let sh' = sh\<lparr>sh_fetching := False, sh_info := Some info\<rparr>
       in case info_services info of
            [] \<Rightarrow> sh'
          | svc # _ \<Rightarrow>
              if service_of sh' \<noteq> None then sh'
              else sh'\<lparr>sh_store := setProtocol (sv_protocol svc) (setService (sv_name svc) (sh_store sh'))\<rparr>)"

datatype shell_event =
    se_info "Info option"
  | se_source nat es_event
  | se_action store_action
  | se_pointer bool
  | se_resize_key string
  | se_resize_release
  | se_resize rat
  | se_unmount

text \<open>Connection and protocol are set by the shell only.\<close>

fun chrome_action :: "store_action \<Rightarrow> bool" where
  "chrome_action (act_setConnection c) = False"
| "chrome_action (act_setProtocol p) = False"
| "chrome_action (act_applyEvent m) = False"
| "chrome_action a = True"

fun shell_event_step ::
    "'a platform_scheme \<Rightarrow> (string \<Rightarrow> EventMessage option) \<Rightarrow> shell_event \<Rightarrow> Shell \<Rightarrow> Shell" where
  "shell_event_step P parse (se_info answer) sh = (if sh_fetching sh then info_arrived answer sh else sh)"
| "shell_event_step P parse (se_source k e) sh =
     (if k \<in> fst ` set (sh_open sh) then fold (subscription_effect P) (es_handle parse e) sh else sh)"
| "shell_event_step P parse (se_action a) sh =
     (if chrome_action a then sh\<lparr>sh_store := store_step P a (sh_store sh)\<rparr> else sh)"
| "shell_event_step P parse (se_pointer down) sh = sh\<lparr>sh_resizing := down\<rparr>"
| "shell_event_step P parse (se_resize_key key) sh =
     (if key \<in> {''ArrowLeft'', ''ArrowRight'', ''Home'', ''End''} then sh\<lparr>sh_resizing := True\<rparr> else sh)"
| "shell_event_step P parse se_resize_release sh = sh\<lparr>sh_resizing := False\<rparr>"
| "shell_event_step P parse (se_resize px) sh =
     (if sh_resizing sh then sh\<lparr>sh_store := setListWidth (pp_listMode (sh_store sh)) px (sh_store sh)\<rparr> else sh)"
| "shell_event_step P parse se_unmount sh = (close_source sh)\<lparr>sh_fetching := False, sh_mounted := False\<rparr>"

text \<open>An event, then the effects of the render it causes; nothing happens after the unmount.\<close>

definition shell_step ::
    "'a platform_scheme \<Rightarrow> (string \<Rightarrow> EventMessage option) \<Rightarrow> shell_event \<Rightarrow> Shell \<Rightarrow> Shell" where
  "shell_step P parse e sh =
     (if \<not> sh_mounted sh then sh
      else let sh' = shell_event_step P parse e sh
           in if sh_mounted sh' then run_effects P sh sh' else sh')"

inductive shell_reachable ::
    "'a platform_scheme \<Rightarrow> (string \<Rightarrow> EventMessage option) \<Rightarrow> Shell \<Rightarrow> bool" for P parse where
  shell_start: "st_service s = None \<Longrightarrow> shell_reachable P parse (shell_init s)"
| shell_next: "shell_reachable P parse sh \<Longrightarrow> shell_reachable P parse (shell_step P parse e sh)"

text \<open>What the shell passes to the top bar and the status bar.\<close>

definition serviceInfoFromBinding :: "Service \<Rightarrow> ConnectionStatus \<Rightarrow> ServiceInfo" where
  "serviceInfoFromBinding service connection =
     \<lparr>si_name = sv_name service, si_upstream = sv_target service, si_addr = sv_addr service,
      si_connection = connDotStatus connection\<rparr>"

definition shell_services :: "ServiceInfo list \<Rightarrow> Shell \<Rightarrow> ServiceInfo list" where
  "shell_services fallback sh = (case sh_info sh of
     None \<Rightarrow> fallback
   | Some info \<Rightarrow> map (\<lambda>svc. serviceInfoFromBinding svc
       (if Some (sv_name svc) = service_of sh then st_connection (sh_store sh) else conn_connecting)) (info_services info))"

definition shell_upstream :: "string option \<Rightarrow> Shell \<Rightarrow> string option" where
  "shell_upstream fallback sh = (case info_service (sh_info sh) (service_of sh) of
     Some v \<Rightarrow> Some (sv_target v) | None \<Rightarrow> fallback)"

section \<open>The list panel\<close>

text \<open>The delayed connecting state: the timer of 300 ms and what it shows.\<close>

record ShowConnecting =
  sw_timer :: bool
  sw_shown :: bool

definition connection_changed :: "ConnectionStatus option \<Rightarrow> ConnectionStatus \<Rightarrow> ShowConnecting \<Rightarrow> ShowConnecting" where
  "connection_changed old new_status s =
     (let cleaned = (if map_option connDotStatus old = Some dot_connecting
                     then s\<lparr>sw_timer := False, sw_shown := False\<rparr> else s)
      in if connDotStatus new_status = dot_connecting then cleaned\<lparr>sw_timer := True\<rparr> else cleaned)"

definition connecting_timeout :: "ShowConnecting \<Rightarrow> ShowConnecting" where
  "connecting_timeout s = (if sw_timer s then s\<lparr>sw_timer := False, sw_shown := True\<rparr> else s)"

datatype ListPanel =
    lp_empty EmptyKind
  | lp_grouped "Exchange list"
  | lp_table "Exchange list"
  | lp_rows "Exchange list"

definition list_panel :: "bool \<Rightarrow> StoreState \<Rightarrow> ListPanel" where
  "list_panel showConnecting s =
     (let visible = selectVisibleExchanges s
      in if st_ids s = [] then lp_empty (if showConnecting then empty_connecting else empty_first_run)
         else if visible = [] then lp_empty empty_filtered
         else if pp_traceGroupOn s then lp_grouped visible
         else if pp_listMode s = mode_table then lp_table visible
         else lp_rows visible)"

text \<open>The handlers the panel passes on. A card's own \<open>open\<close> state is the card's.\<close>

fun list_handler :: "trace_action \<Rightarrow> ui_action list" where
  "list_handler (hover_trace t) = [ui_store (act_setHoverTraceId t)]"
| "list_handler (select_trace t) = [ui_store (act_setTraceFilter (Some t))]"
| "list_handler (select_exchange i) = [ui_store (act_setSelectedId (Some i))]"
| "list_handler _ = []"

fun table_handler :: "table_action \<Rightarrow> ui_action list" where
  "table_handler (ta_select i) = [ui_store (act_setSelectedId (Some i))]"
| "table_handler (ta_trace t) = list_handler t"
| "table_handler (ta_toggle_sorting c) = []"

definition VirtualizedRowsList ::
    "(string \<Rightarrow> int option) \<Rightarrow> (int \<Rightarrow> int) \<Rightarrow> Exchange list \<Rightarrow> nat option \<Rightarrow> TimeZone \<Rightarrow> nat \<Rightarrow> VirtualItem list \<Rightarrow> ui_dom" where
  "VirtualizedRowsList getTime offset exchanges selectedId tz totalSize items =
     El ''div'' [] []
       [El ''div'' [(''data-testid'', lat ''requests-virtualizer''), (''height'', lat (showNat totalSize))] []
          [El ''div'' [(''role'', lat ''listbox''), (''aria-label'', lat ''Requests'')] []
             (map (\<lambda>vi. let x = exchanges ! vi_index vi
                in El ''div''
                     [(''data-index'', lat (showNat (vi_index vi))), (''height'', lat (showNat (vi_size vi))),
                      (''transform'', lat (''translateY('' @ showNat (vi_start vi) @ ''px)''))] []
                     [ExchangeRow getTime offset x (Some (ex_id x) = selectedId) tz [ui_store (act_setSelectedId (Some (ex_id x)))]])
               (filter (\<lambda>vi. vi_index vi < length exchanges) items))]]"

text \<open>
  The scroll of the rows list to a new selection, as in theory Exchange_Table, but its effect
  depends on the index of the selected row and the row height, not on the rows.
\<close>

record RowsScroller =
  rl_deps :: "(nat \<times> nat option \<times> nat option) option"
  rl_scrolledTo :: "nat option"
  rl_frame :: "nat option"
  rl_scrolls :: "nat list"

definition selectedIndex :: "nat list \<Rightarrow> nat option \<Rightarrow> nat option" where
  "selectedIndex ids selectedId = (case selectedId of None \<Rightarrow> None | Some i \<Rightarrow> findIndex (\<lambda>j. j = i) ids)"

definition rows_effect :: "nat option \<Rightarrow> nat option \<Rightarrow> RowsScroller \<Rightarrow> RowsScroller" where
  "rows_effect selectedId index s = (case selectedId of
     None \<Rightarrow> s\<lparr>rl_scrolledTo := None\<rparr>
   | Some i \<Rightarrow> (case index of
       None \<Rightarrow> s
     | Some row \<Rightarrow> if rl_scrolledTo s = Some i then s
                   else s\<lparr>rl_scrolledTo := Some i, rl_frame := Some row\<rparr>))"

text \<open>A render; when a dependency changed, the pending frame is cancelled and the effect runs.\<close>

definition rows_render :: "nat \<Rightarrow> nat option \<Rightarrow> nat list \<Rightarrow> RowsScroller \<Rightarrow> RowsScroller" where
  "rows_render rowPx selectedId ids s =
     (let index = selectedIndex ids selectedId; deps = (rowPx, selectedId, index)
      in if rl_deps s = Some deps then s
         else rows_effect selectedId index (s\<lparr>rl_deps := Some deps, rl_frame := None\<rparr>))"

definition rows_frame :: "RowsScroller \<Rightarrow> RowsScroller" where
  "rows_frame s = (case rl_frame s of
     None \<Rightarrow> s
   | Some row \<Rightarrow> s\<lparr>rl_frame := None, rl_scrolls := rl_scrolls s @ [row]\<rparr>)"

definition ListPanel_view ::
    "(string \<Rightarrow> int option) \<Rightarrow> (int \<Rightarrow> int) \<Rightarrow> (string \<Rightarrow> string option) \<Rightarrow> (Exchange list \<Rightarrow> Exchange list) \<Rightarrow>
     (string \<Rightarrow> bool) \<Rightarrow> nat \<Rightarrow> VirtualItem list \<Rightarrow> bool \<Rightarrow> StoreState \<Rightarrow> ui_dom" where
  "ListPanel_view getTime offset is_sorted sorted_model opens totalSize items showConnecting s =
     (case list_panel showConnecting s of
        lp_empty kind \<Rightarrow> EmptyState kind
      | lp_grouped xs \<Rightarrow> map_dom list_handler (GroupedExchangeList getTime offset opens xs (st_selectedId s) (pp_timeZone s))
      | lp_table xs \<Rightarrow> map_dom table_handler
          (ExchangeTable getTime offset is_sorted (pp_density s) (pp_timeZone s) False (st_selectedId s) None
             (sorted_model xs) totalSize items)
      | lp_rows xs \<Rightarrow> VirtualizedRowsList getTime offset xs (st_selectedId s) (pp_timeZone s) totalSize items)"


section \<open>Lemmas\<close>

text \<open>
  Data that leaves the selected row at its index does not disturb the scroll; a row that moves
  before the frame, as when a request arrives in the newest-first order, cancels it for good.
\<close>

lemma rows_scroll_undisturbed:
  assumes "selectedIndex ids (Some i) = Some row" "selectedIndex ids' (Some i) = Some row" "rl_scrolledTo s \<noteq> Some i"
    and "rl_deps s \<noteq> Some (px, Some i, Some row)"
  shows "rl_scrolls (rows_frame (rows_render px (Some i) ids' (rows_render px (Some i) ids s))) = rl_scrolls s @ [row]"
  using assms by (simp add: rows_render_def rows_effect_def rows_frame_def Let_def)

lemma rows_scroll_lost:
  assumes "selectedIndex ids (Some i) = Some row" "selectedIndex ids' (Some i) = Some row'" "row' \<noteq> row"
    and "rl_scrolledTo s \<noteq> Some i" "rl_deps s \<noteq> Some (px, Some i, Some row)"
  shows "rl_scrolls (rows_frame (rows_render px (Some i) ids' (rows_render px (Some i) ids s))) = rl_scrolls s"
  using assms by (simp add: rows_render_def rows_effect_def rows_frame_def Let_def)

text \<open>What the callbacks of the subscription leave alone.\<close>

definition same_session :: "Shell \<Rightarrow> Shell \<Rightarrow> bool" where
  "same_session a b \<longleftrightarrow> sh_open a = sh_open b \<and> sh_cleanup a = sh_cleanup b \<and> sh_info a = sh_info b
     \<and> sh_mounted a = sh_mounted b \<and> service_of a = service_of b \<and> st_protocol (sh_store a) = st_protocol (sh_store b)"

lemma applyEvent_frame: "st_service (applyEvent P m s) = st_service s" "st_protocol (applyEvent P m s) = st_protocol s"
  by (simp_all add: applyEvent_def Let_def split: option.split prod.split)

lemma same_session_effect: "same_session (subscription_effect P e sh) sh"
  by (cases e) (simp_all add: same_session_def applyEvent_frame setConnection_def)

lemma same_session_fold: "same_session (fold (subscription_effect P) es sh) sh"
proof (induction es arbitrary: sh)
  case (Cons e es)
  then show ?case using same_session_effect [of P e sh] by (simp add: same_session_def)
qed (simp add: same_session_def)

text \<open>The open sources are the one of the last subscription, if there is one, and its cleanup closes it.\<close>

definition sources_ok :: "string option \<Rightarrow> Shell \<Rightarrow> bool" where
  "sources_ok service sh \<longleftrightarrow> (case service of
     None \<Rightarrow> sh_open sh = [] \<and> sh_cleanup sh = None
   | Some name \<Rightarrow> \<exists>k. sh_open sh = [(k, name)] \<and> sh_cleanup sh = Some k)"

definition session_ok :: "Shell \<Rightarrow> bool" where
  "session_ok sh \<longleftrightarrow>
     (if sh_mounted sh
      then sources_ok (service_of sh) sh
        \<and> (service_of sh \<noteq> None \<longrightarrow> st_protocol (sh_store sh) = info_protocol (sh_info sh) (service_of sh))
      else sources_ok None sh)"

lemma close_source_ok: "sources_ok service sh \<Longrightarrow> sources_ok None (close_source sh)"
  by (auto simp: sources_ok_def close_source_def split: option.splits)

lemma close_source_frame:
  "sh_mounted (close_source sh) = sh_mounted sh" "sh_info (close_source sh) = sh_info sh"
  "sh_store (close_source sh) = sh_store sh"
  by (simp_all add: close_source_def split: option.split)

lemma sources_cong: "sh_open a = sh_open b \<Longrightarrow> sh_cleanup a = sh_cleanup b \<Longrightarrow> sources_ok v a = sources_ok v b"
  by (simp add: sources_ok_def split: option.split)

lemma session_same: "same_session a b \<Longrightarrow> session_ok a = session_ok b"
  using sources_cong [of a b] by (simp add: same_session_def session_ok_def)

lemma session_subscribe:
  assumes "sh_mounted sh" "sources_ok None sh"
    and "service_of sh \<noteq> None \<longrightarrow> st_protocol (sh_store sh) = info_protocol (sh_info sh) (service_of sh)"
  shows "session_ok (subscribe_effect P sh)"
proof (cases "service_of sh")
  case None
  then show ?thesis using assms by (simp add: subscribe_effect_def session_ok_def)
next
  case (Some name)
  let ?sh = "sh\<lparr>sh_open := sh_open sh @ [(sh_sources sh, name)], sh_cleanup := Some (sh_sources sh),
    sh_sources := sh_sources sh + 1\<rparr>"
  have "session_ok ?sh" using assms Some by (simp add: session_ok_def sources_ok_def)
  then have "session_ok (fold (subscription_effect P) subscribe_effects ?sh)"
    by (simp only: session_same [OF same_session_fold])
  then show ?thesis by (simp add: subscribe_effect_def Some)
qed

lemma protocol_effect_frame:
  "sh_open (protocol_effect sh) = sh_open sh" "sh_cleanup (protocol_effect sh) = sh_cleanup sh" "sh_info (protocol_effect sh) = sh_info sh"
  "sh_mounted (protocol_effect sh) = sh_mounted sh" "service_of (protocol_effect sh) = service_of sh"
  "service_of sh \<noteq> None \<Longrightarrow> st_protocol (sh_store (protocol_effect sh)) = info_protocol (sh_info sh) (service_of sh)"
  by (auto simp: protocol_effect_def setProtocol_def)

lemma session_effects:
  assumes "session_ok old" "sh_mounted old" "sh_mounted sh" "sh_open sh = sh_open old" "sh_cleanup sh = sh_cleanup old"
    and "service_of sh = service_of old \<Longrightarrow> st_protocol (sh_store sh) = st_protocol (sh_store old)"
  shows "session_ok (run_effects P old sh)"
proof (cases "service_of sh = service_of old")
  case True
  have "sources_ok (service_of old) sh" "sources_ok (service_of old) (protocol_effect sh)"
    using assms(1,2,4,5) by (simp_all add: session_ok_def sources_ok_def protocol_effect_frame split: option.splits)
  then show ?thesis
    using assms(1-3,6) True by (auto simp: run_effects_def session_ok_def protocol_effect_frame Let_def)
next
  case False
  then have "run_effects P old sh = subscribe_effect P (protocol_effect (close_source sh))"
    by (simp add: run_effects_def Let_def)
  moreover have "sources_ok (service_of old) sh"
    using assms(1,2,4,5) by (simp add: session_ok_def sources_ok_def split: option.splits)
  then have "sources_ok None (protocol_effect (close_source sh))"
    using close_source_ok sources_cong [OF protocol_effect_frame(1,2)] by blast
  then have "session_ok (subscribe_effect P (protocol_effect (close_source sh)))"
    using assms(3) by (intro session_subscribe) (auto simp: protocol_effect_frame close_source_frame)
  ultimately show ?thesis by simp
qed

lemma chrome_action_protocol: "chrome_action a \<Longrightarrow> st_protocol (store_step P a s) = st_protocol s"
  by (cases a) (simp_all add: setter_defs setBodyDecodedBytes_def Let_def split: option.split)

lemma event_frame:
  assumes "sh_mounted sh" "e \<noteq> se_unmount" and "sh' = shell_event_step P parse e sh"
  shows "sh_mounted sh' \<and> sh_open sh' = sh_open sh \<and> sh_cleanup sh' = sh_cleanup sh
    \<and> (service_of sh' = service_of sh \<longrightarrow> st_protocol (sh_store sh') = st_protocol (sh_store sh))"
proof (cases e)
  case (se_info answer)
  then show ?thesis
    using assms by (auto simp: info_arrived_def setProtocol_def setService_def Let_def split: option.split list.split)
next
  case (se_source k es)
  then show ?thesis
    using assms same_session_fold [of P "es_handle parse es" sh] by (simp add: same_session_def)
next
  case (se_action a)
  then show ?thesis using assms by (simp add: chrome_action_protocol)
qed (use assms in \<open>auto simp: setListWidth_def\<close>)

lemma session_step: "session_ok sh \<Longrightarrow> session_ok (shell_step P parse e sh)"
proof (cases "sh_mounted sh \<and> e \<noteq> se_unmount")
  case True
  assume "session_ok sh"
  then show ?thesis
    using True event_frame [OF _ _ refl, of sh e P parse] by (simp add: shell_step_def Let_def session_effects)
next
  case False
  assume "session_ok sh"
  then show ?thesis
    using False close_source_ok [of "service_of sh" sh]
    by (auto simp: shell_step_def session_ok_def close_source_frame sources_ok_def Let_def)
qed

section \<open>Properties\<close>

text \<open>
  Property C35. In every state of the page, through switches of the service, answers and failures
  of \<open>/info\<close> and any events: exactly one event source is open, that of the selected service, and
  every other one ever opened has been closed; none is open before a service is selected or after
  the unmount; and the protocol is the one that \<open>/info\<close> gives for the selected service.
\<close>

theorem subscribed_to_selected_service:
  assumes "shell_reachable P parse sh"
  shows "if sh_mounted sh
    then map snd (sh_open sh) = (case service_of sh of None \<Rightarrow> [] | Some name \<Rightarrow> [name])
      \<and> (service_of sh \<noteq> None \<longrightarrow> st_protocol (sh_store sh) = info_protocol (sh_info sh) (service_of sh))
    else sh_open sh = []"
proof -
  from assms have "session_ok sh"
  proof (induction rule: shell_reachable.induct)
    case (shell_start s)
    then show ?case by (simp add: shell_init_def session_ok_def sources_ok_def)
  qed (rule session_step)
  then show ?thesis
    by (cases "service_of sh"; cases "sh_mounted sh") (auto simp: session_ok_def sources_ok_def)
qed

theorem subscribed_to_selected_service_witness:
  "map snd (sh_open (shell_step no_platform (\<lambda>_. None) (se_action (act_setService ''b''))
     (shell_step no_platform (\<lambda>_. None) (se_action (act_setService ''a'')) (shell_init initial_store)))) = [''b'']"
proof -
  let ?sh = "\<lambda>name. shell_step no_platform (\<lambda>_. None) (se_action (act_setService name))"
  let ?b = "?sh ''b'' (?sh ''a'' (shell_init initial_store))"
  have "shell_reachable no_platform (\<lambda>_. None) ?b"
    by (intro shell_reachable.intros) (simp add: initial_store_def)
  moreover have "sh_mounted ?b" "service_of ?b = Some ''b''"
    by (simp_all add: shell_step_def shell_init_def run_effects_def subscribe_effect_def protocol_effect_def
        close_source_def setProtocol_def setService_def setConnection_def initial_store_def subscribe_effects_def Let_def)
  ultimately show ?thesis using subscribed_to_selected_service by fastforce
qed

text \<open>
  In a viewport of at least 57 pixels the initial widths and the handle fill it
  exactly, both panels have their minimum, the list takes at most half unless its minimum is
  more, and a stored width that fits is kept.
\<close>

theorem initial_widths_fill_viewport:
  assumes "57 \<le> w"
  shows "\<exists>l i. getInitialPanelSizes (Some w) stored = (l, Some i) \<and> l + RESIZE_HANDLE_WIDTH_PX + i = w
    \<and> LIST_MIN_WIDTH_PX \<le> l \<and> INSPECTOR_MIN_WIDTH_PX \<le> i \<and> l \<le> max LIST_MIN_WIDTH_PX (w / 2)
    \<and> (LIST_MIN_WIDTH_PX \<le> stored \<and> stored \<le> of_int \<lfloor>w / 2\<rfloor> \<and> stored \<le> w - 31 \<longrightarrow> l = stored)"
proof -
  have "of_int \<lfloor>w / 2\<rfloor> \<le> w / 2" by (rule of_int_floor_le)
  then show ?thesis
    using assms
    by (auto simp: getInitialPanelSizes_def Let_def RESIZE_HANDLE_WIDTH_PX_def MAX_INITIAL_LIST_SHARE_def
        LIST_MIN_WIDTH_PX_def INSPECTOR_MIN_WIDTH_PX_def max_def min_def)
qed

theorem initial_widths_fill_viewport_witness:
  "\<exists>l i. getInitialPanelSizes (Some 1200) 640 = (l, Some i) \<and> l + 1 + i = 1200 \<and> 30 \<le> i"
  using initial_widths_fill_viewport [of 1200 640]
  by (auto simp: RESIZE_HANDLE_WIDTH_PX_def INSPECTOR_MIN_WIDTH_PX_def)

end
