(* ===== verification/Shell_Keys.thy ===== *)
theory Shell_Keys
  imports Shell
begin

text \<open>
  Navigation in the page: the inspector's previous, next, next matching and next in trace, and
  the global keys, all of \<open>components/app-shell.tsx\<close>.

  Shown: the keys \<open>j\<close> and \<open>k\<close> reach every request of the list; an open palette or help takes
  the keys away from the list; stepping through a trace cycles through its requests in order; no
  key is bound to the grouping of traces.
\<close>

section \<open>Moving the selection\<close>

text \<open>\<open>ids.indexOf(selectedId ?? -1)\<close>.\<close>

definition selection_index :: "nat list \<Rightarrow> nat option \<Rightarrow> int" where
  "selection_index ids selectedId = (case selectedId of
     None \<Rightarrow> -1
   | Some i \<Rightarrow> (case indexOf ids i of None \<Rightarrow> -1 | Some k \<Rightarrow> int k))"

definition clamp :: "int \<Rightarrow> nat list \<Rightarrow> int" where
  "clamp i ids = min (max i 0) (int (length ids) - 1)"

text \<open>\<open>ids[n]\<close>, undefined for an index out of range.\<close>

definition id_at :: "nat list \<Rightarrow> int \<Rightarrow> nat option" where
  "id_at ids n = (if 0 \<le> n \<and> n < int (length ids) then Some (ids ! nat n) else None)"

definition select_opt :: "nat option \<Rightarrow> ui_action list" where
  "select_opt i = (case i of None \<Rightarrow> [] | Some n \<Rightarrow> [ui_store (act_setSelectedId (Some n))])"

definition onPrev :: "StoreState \<Rightarrow> ui_action list" where
  "onPrev s = (let ids = selectVisibleIds s
     in select_opt (id_at ids (clamp (selection_index ids (st_selectedId s) - 1) ids)))"

definition onNext :: "StoreState \<Rightarrow> ui_action list" where
  "onNext s = (let ids = selectVisibleIds s
     in select_opt (id_at ids (clamp (selection_index ids (st_selectedId s) + 1) ids)))"

text \<open>
  The loop over \<open>ids[(start + k) % ids.length]\<close>, \<open>k = 1 .. ids.length\<close>, up to the first
  candidate that is accepted; \<open>start\<close> may be -1.
\<close>

definition next_candidate :: "(Exchange \<Rightarrow> bool) \<Rightarrow> StoreState \<Rightarrow> Exchange \<Rightarrow> nat option" where
  "next_candidate accept s cur =
     (let ids = selectVisibleIds s;
          start = selection_index ids (Some (ex_id cur));
          candidates = map (\<lambda>k. ids ! (nat (start + int k) mod length ids)) [1..<length ids + 1]
      in case find (\<lambda>i. case st_exchanges s i of None \<Rightarrow> False | Some x \<Rightarrow> accept x) candidates of
           None \<Rightarrow> None
         | Some i \<Rightarrow> map_option ex_id (st_exchanges s i))"

definition uri_path :: "Exchange \<Rightarrow> string" where
  "uri_path x = hd (split_on (CHR ''?'') (case ex_uri x of Some u \<Rightarrow> u | None \<Rightarrow> []))"

definition onNextMatching :: "Exchange \<Rightarrow> StoreState \<Rightarrow> ui_action list" where
  "onNextMatching cur s =
     select_opt (next_candidate (\<lambda>cand. ex_method cand = ex_method cur \<and> uri_path cand = uri_path cur) s cur)"

definition onNextInTrace :: "Exchange \<Rightarrow> string \<Rightarrow> StoreState \<Rightarrow> ui_action list" where
  "onNextInTrace cur traceId s = select_opt (next_candidate (\<lambda>cand. ex_traceId cand = Some traceId) s cur)"

text \<open>The inspector's actions in the page.\<close>

fun inspector_panel_action :: "StoreState \<Rightarrow> inspector_action \<Rightarrow> ui_action list" where
  "inspector_panel_action s ia_prev = onPrev s"
| "inspector_panel_action s ia_next = onNext s"
| "inspector_panel_action s (ia_next_matching x) = onNextMatching x s"
| "inspector_panel_action s (ia_filter_trace t) = [ui_store (act_setTraceFilter (Some t))]"
| "inspector_panel_action s (ia_copy_trace t) = [ui_copy t]"
| "inspector_panel_action s (ia_next_in_trace x t) = onNextInTrace x t s"
| "inspector_panel_action s a = []"

definition InspectorPanel ::
    "(string \<Rightarrow> int option) \<Rightarrow> (int \<Rightarrow> int) \<Rightarrow> (Exchange \<Rightarrow> Protocol option \<Rightarrow> inspector_action dom) \<Rightarrow>
     (Exchange \<Rightarrow> Protocol option \<Rightarrow> inspector_action dom) option \<Rightarrow> string \<Rightarrow> StoreState \<Rightarrow> Inspector \<Rightarrow>
     inspector_action dom" where
  "InspectorPanel getTime offset renderBodySplit renderMsearch typed s inspector =
     (case selectSelected s of
        None \<Rightarrow> El ''div'' [] [] [Txt (lat ''Select a request to inspect'')]
      | Some x \<Rightarrow> El ''div'' [] []
          [Inspector_view getTime offset x (pp_timeZone s) (showPairsTab (st_protocol s) (ex_uri x))
             (renderBodySplit x (st_protocol s)) (map_option (\<lambda>f. f x (st_protocol s)) renderMsearch) typed inspector])"

section \<open>Keys\<close>

text \<open>\<open>ke_target\<close> is the target's tag name and whether it is content-editable.\<close>

record KeyEvent =
  ke_key :: string
  ke_metaKey :: bool
  ke_ctrlKey :: bool
  ke_target :: "(string \<times> bool) option"

definition is_typing :: "KeyEvent \<Rightarrow> bool" where
  "is_typing e = (case ke_target e of
     None \<Rightarrow> False
   | Some (tagName, editable) \<Rightarrow> tagName = ''INPUT'' \<or> tagName = ''TEXTAREA'' \<or> editable)"

definition key_move :: "int \<Rightarrow> StoreState \<Rightarrow> ui_action list" where
  "key_move delta s =
     (let ids = selectVisibleIds s
      in if ids = [] then []
         else let i = selection_index ids (st_selectedId s);
                  ni = (if i = -1 then (if delta > 0 then 0 else int (length ids) - 1) else clamp (i + delta) ids)
              in select_opt (id_at ids ni))"

text \<open>Whether the default is prevented, and the actions.\<close>

definition onKey :: "KeyEvent \<Rightarrow> StoreState \<Rightarrow> bool \<times> ui_action list" where
  "onKey e s =
     (if (ke_metaKey e \<or> ke_ctrlKey e) \<and> toLowerCase (ke_key e) = ''k'' then
        (True, if st_helpOpen s then [] else [ui_store (act_setCmdKOpen (\<not> st_cmdKOpen s))])
      else if st_cmdKOpen s \<or> st_helpOpen s then (False, [])
      else if is_typing e then (False, [])
      else if ke_key e \<in> {''j'', ''ArrowDown''} then (True, key_move 1 s)
      else if ke_key e \<in> {''k'', ''ArrowUp''} then (True, key_move (- 1) s)
      else if ke_key e = ''/'' then (True, [ui_focus_filter])
      else if ke_key e = ''?'' then (True, [ui_store (act_setHelpOpen True)])
      else if ke_key e = ''Escape'' then
        (False, if (st_traceFilter s \<noteq> None \<and> st_traceFilter s \<noteq> Some []) \<or> st_filter s \<noteq> []
                then [ui_store (act_setTraceFilter None), ui_store (act_setFilter [])] else [])
      else (False, []))"

definition press :: "'a platform_scheme \<Rightarrow> KeyEvent \<Rightarrow> StoreState \<Rightarrow> StoreState" where
  "press P e s = ui_run P (snd (onKey e s)) s"

definition plain_key :: "string \<Rightarrow> KeyEvent" where
  "plain_key k = \<lparr>ke_key = k, ke_metaKey = False, ke_ctrlKey = False, ke_target = None\<rparr>"

section \<open>Lemmas\<close>

lemma visible_setSelectedId [simp]: "selectVisibleIds (setSelectedId i s) = selectVisibleIds s"
  by (simp add: setSelectedId_def selectVisibleIds_def selectVisibleExchanges_def)

lemma indexOf_nth: "distinct xs \<Longrightarrow> n < length xs \<Longrightarrow> indexOf xs (xs ! n) = Some n"
  using indexOf_mem [of "xs ! n" xs] indexOf_Some [of xs "xs ! n"] nth_mem [of n xs]
  by (metis nth_eq_iff_index_eq)

lemma selection_index_nth:
  "distinct ids \<Longrightarrow> n < length ids \<Longrightarrow> selection_index ids (Some (ids ! n)) = int n"
  by (simp add: selection_index_def indexOf_nth)

text \<open>One press of \<open>j\<close> or \<open>k\<close> with the overlays closed.\<close>

lemma press_move:
  assumes "\<not> st_cmdKOpen s" "\<not> st_helpOpen s" "d \<in> {''j'', ''k''}"
  shows "press P (plain_key d) s = ui_run P (key_move (if d = ''j'' then 1 else - 1) s) s"
  using assms by (auto simp: press_def onKey_def plain_key_def is_typing_def)

lemma key_move_from:
  assumes "distinct (selectVisibleIds s)" "st_selectedId s = Some (selectVisibleIds s ! n)" "n < length (selectVisibleIds s)"
    and "m < length (selectVisibleIds s)" "int m = int n + delta"
  shows "ui_run P (key_move delta s) s = setSelectedId (Some (selectVisibleIds s ! m)) s"
proof -
  have "clamp (int n + delta) (selectVisibleIds s) = int m" using assms(4,5) by (simp add: clamp_def)
  moreover have "nat (int n + delta) = m" using assms(5) by simp
  ultimately show ?thesis
    using assms by (auto simp: key_move_def selection_index_nth id_at_def select_opt_def Let_def)
qed

lemma key_move_start:
  assumes "selection_index (selectVisibleIds s) (st_selectedId s) = -1" "selectVisibleIds s \<noteq> []"
  shows "ui_run P (key_move 1 s) s = setSelectedId (Some (selectVisibleIds s ! 0)) s"
  using assms by (simp add: key_move_def id_at_def select_opt_def Let_def)

text \<open>The state a walk of the selection leaves, apart from the selection.\<close>

abbreviation overlays_closed :: "StoreState \<Rightarrow> bool" where
  "overlays_closed s \<equiv> \<not> st_cmdKOpen s \<and> \<not> st_helpOpen s"

lemma overlays_setSelectedId [simp]:
  "st_cmdKOpen (setSelectedId i s) = st_cmdKOpen s" "st_helpOpen (setSelectedId i s) = st_helpOpen s"
  "st_selectedId (setSelectedId i s) = i"
  by (simp_all add: setSelectedId_def)

lemma walk:
  assumes "distinct (selectVisibleIds s)" "overlays_closed s" "d \<in> {''j'', ''k''}"
    and "st_selectedId s = Some (selectVisibleIds s ! n)" "n < length (selectVisibleIds s)"
    and "m < length (selectVisibleIds s)" "int m = int n + (if d = ''j'' then int c else - int c)"
  shows "st_selectedId (fold (\<lambda>k. press P (plain_key k)) (replicate c d) s) = Some (selectVisibleIds s ! m)"
  using assms
proof (induction c arbitrary: s n)
  case (Suc c)
  let ?n = "if d = ''j'' then n + 1 else n - 1"
  have n: "?n < length (selectVisibleIds s)" "int ?n = int n + (if d = ''j'' then 1 else - 1)"
    using Suc.prems(5-7) by (auto split: if_splits)
  have p: "press P (plain_key d) s = setSelectedId (Some (selectVisibleIds s ! ?n)) s"
    unfolding press_move [OF conjunct1 [OF Suc.prems(2)] conjunct2 [OF Suc.prems(2)] Suc.prems(3)]
    by (rule key_move_from [OF Suc.prems(1,4,5) n])
  have "st_selectedId (fold (\<lambda>k. press P (plain_key k)) (replicate c d) (press P (plain_key d) s))
      = Some (selectVisibleIds (press P (plain_key d) s) ! m)"
    by (rule Suc.IH [where n = ?n]) (use Suc.prems n p in \<open>auto split: if_splits\<close>)
  then show ?case by (simp add: p)
qed (simp split: if_splits)

section \<open>Properties\<close>

text \<open>
  Property C19. With the palette and the help closed, the keys \<open>j\<close> and \<open>k\<close> reach every request of
  the list, in at most as many presses as the list has requests.
\<close>

theorem keys_reach_every_request:
  assumes "store_reachable P s" "overlays_closed s" "target \<in> set (selectVisibleIds s)"
  shows "\<exists>keys. set keys \<subseteq> {''j'', ''k''} \<and> length keys \<le> length (selectVisibleIds s)
    \<and> st_selectedId (fold (\<lambda>k. press P (plain_key k)) keys s) = Some target"
proof -
  let ?ids = "selectVisibleIds s"
  have d: "distinct ?ids"
  proof -
    have "store_wf (exchange_store_of s)" using reachable_ok [OF assms(1)] by (simp add: store_ok_def)
    then show ?thesis by (simp add: visible_ids_eq store_wf_def)
  qed
  obtain m where m: "m < length ?ids" "target = ?ids ! m" using assms(3) by (metis in_set_conv_nth)
  show ?thesis
  proof (cases "selection_index ?ids (st_selectedId s) = -1")
    case True
    let ?s = "setSelectedId (Some (?ids ! 0)) s"
    have p: "press P (plain_key ''j'') s = ?s"
      using assms(2) press_move [of s "''j''" P] key_move_start [OF True, of P] m(1) by force
    have "st_selectedId (fold (\<lambda>k. press P (plain_key k)) (replicate m ''j'') ?s) = Some (selectVisibleIds ?s ! m)"
      by (rule walk [where n = 0]) (use d assms(2) m in auto)
    then show ?thesis
      using m p by (intro exI [of _ "''j'' # replicate m ''j''"]) auto
  next
    case False
    then obtain n where n: "st_selectedId s = Some (?ids ! n)" "n < length ?ids"
      by (auto simp: selection_index_def split: option.splits dest: indexOf_Some)
    show ?thesis
    proof (cases "n \<le> m")
      case True
      then have "st_selectedId (fold (\<lambda>k. press P (plain_key k)) (replicate (m - n) ''j'') s) = Some (?ids ! m)"
        by (intro walk [where n = n]) (use d assms(2) m n in auto)
      then show ?thesis using m by (intro exI [of _ "replicate (m - n) ''j''"]) auto
    next
      case False
      then have "st_selectedId (fold (\<lambda>k. press P (plain_key k)) (replicate (n - m) ''k'') s) = Some (?ids ! m)"
        by (intro walk [where n = n]) (use d assms(2) m n in auto)
      then show ?thesis using m n False by (intro exI [of _ "replicate (n - m) ''k''"]) auto
    qed
  qed
qed

theorem keys_reach_every_request_witness:
  "\<exists>keys. length keys \<le> 1 \<and> st_selectedId (fold (\<lambda>k. press no_platform (plain_key k)) keys traced_state) = Some 4"
proof -
  obtain x where x: "ex_id x = 4" "traced_state = initial_store\<lparr>st_exchanges := [4 \<mapsto> x], st_ids := [4]\<rparr>"
    using traced_state_eq by blast
  then have "overlays_closed traced_state" by (simp add: x(2) initial_store_def)
  then show ?thesis
    using keys_reach_every_request [OF traced_reachable, of 4] by (auto simp: traced_visible)
qed


text \<open>
  While the palette or the help is open, no key changes the page except the one that
  closes the palette; while the user types into a field, only the palette key acts.
\<close>

theorem overlay_takes_the_keys:
  "(st_cmdKOpen s \<or> st_helpOpen s \<or> is_typing e) \<longrightarrow>
     snd (onKey e s) = [] \<or> snd (onKey e s) = [ui_store (act_setCmdKOpen (\<not> st_cmdKOpen s))]"
  by (auto simp: onKey_def)

theorem overlay_takes_the_keys_witness:
  "let s = setHelpOpen True initial_store
   in snd (onKey (plain_key ''j'') s) = [] \<or> snd (onKey (plain_key ''j'') s) = [ui_store (act_setCmdKOpen (\<not> st_cmdKOpen s))]"
proof -
  have "st_helpOpen (setHelpOpen True initial_store)" by (simp add: setHelpOpen_def)
  then show ?thesis
    using overlay_takes_the_keys [of "setHelpOpen True initial_store" "plain_key ''j''"] unfolding Let_def by blast
qed

text \<open>
  The palette shows a shortcut with the letter G for grouping by trace, but no key
  event with it does anything, and no key at all groups traces.
\<close>

theorem group_shortcut_is_not_bound:
  "list_ex (\<lambda>d. text_content d = [Uni 0x21E7, Lat CHR ''G''])
     (concat (map dom_elements [CommandPalette focusable s]))
   \<and> onKey (e\<lparr>ke_key := ''G''\<rparr>) s = (False, []) \<and> onKey (e\<lparr>ke_key := ''g''\<rparr>) s = (False, [])
   \<and> ui_store act_toggleTraceGroup \<notin> set (snd (onKey e s))"
proof -
  have "onKey (e\<lparr>ke_key := ''G''\<rparr>) s = (False, [])" "onKey (e\<lparr>ke_key := ''g''\<rparr>) s = (False, [])"
    by (simp_all add: onKey_def char_eval)
  moreover have "ui_store act_toggleTraceGroup \<notin> set (snd (onKey e s))"
    by (auto simp: onKey_def key_move_def select_opt_def Let_def split: option.split)
  moreover have "list_ex (\<lambda>d. text_content d = [Uni 0x21E7, Lat CHR ''G'']) (concat (map dom_elements [CommandPalette focusable s]))"
    by (simp add: CommandPalette_def view_group_def CommandItem_def)
  ultimately show ?thesis by blast
qed

text \<open>The escape key clears both filters, and does nothing else.\<close>

lemma escape_clears_filters:
  assumes "overlays_closed s"
  shows "\<exists>t. press P (plain_key ''Escape'') s = s\<lparr>st_traceFilter := t, st_filter := []\<rparr> \<and> (t = None \<or> t = Some [])"
proof (cases "(st_traceFilter s \<noteq> None \<and> st_traceFilter s \<noteq> Some []) \<or> st_filter s \<noteq> []")
  case True
  then have "press P (plain_key ''Escape'') s = s\<lparr>st_traceFilter := None, st_filter := []\<rparr>"
    using assms by (auto simp: press_def onKey_def plain_key_def is_typing_def setTraceFilter_def setFilter_def char_eval)
  then show ?thesis by blast
next
  case False
  then have "press P (plain_key ''Escape'') s = s"
    using assms by (auto simp: press_def onKey_def plain_key_def is_typing_def char_eval)
  moreover have "s = s\<lparr>st_traceFilter := st_traceFilter s, st_filter := []\<rparr>" using False by simp
  ultimately show ?thesis using False by (intro exI [of _ "st_traceFilter s"]) auto
qed


section \<open>Stepping through a trace\<close>

lemma find_filter: "find q xs = (case filter q xs of [] \<Rightarrow> None | y # ys \<Rightarrow> Some y)"
  by (induction xs) simp_all

lemma candidates_rotate:
  assumes "a < length ids"
  shows "map (\<lambda>k. ids ! (nat (int a + int k) mod length ids)) [1..<length ids + 1] = rotate (a + 1) ids"
  by (rule nth_equalityI) (use assms in \<open>simp_all add: nth_rotate nat_int_add add.commute add.left_commute del: upt_Suc rotate_Suc\<close>)

text \<open>The first accepted candidate after a request is the next accepted one in cyclic order.\<close>

lemma next_cyclic:
  assumes d: "distinct ids" and x: "ids ! a = x" "a < length ids" "q x" and j: "filter q ids ! j = x" "j < length (filter q ids)"
  shows "find q (rotate (a + 1) ids) = Some (filter q ids ! ((j + 1) mod length (filter q ids)))"
proof -
  define A B where "A = take a ids" and "B = drop (Suc a) ids"
  have ids: "ids = A @ x # B" using x id_take_nth_drop [of a ids] by (simp add: A_def B_def)
  have "length A = a" using x(2) by (simp add: A_def)
  then have "rotate (a + 1) ids = B @ A @ [x]"
    using rotate_append [of "A @ [x]" B] by (simp add: ids)
  moreover have m: "filter q ids = filter q A @ x # filter q B" using x(3) by (simp add: ids)
  moreover have "j = length (filter q A)"
    using j distinct_filter [OF d, of q] nth_eq_iff_index_eq [of "filter q ids" j "length (filter q A)"]
    by (simp add: m)
  ultimately show ?thesis
    using x(3) by (cases "filter q B"; cases "filter q A") (auto simp: find_filter nth_append)
qed

text \<open>The button \<open>Next in trace\<close> of the selected request.\<close>

definition step_in_trace :: "'a platform_scheme \<Rightarrow> string \<Rightarrow> StoreState \<Rightarrow> StoreState" where
  "step_in_trace P t s = (case selectSelected s of None \<Rightarrow> s | Some cur \<Rightarrow> ui_run P (onNextInTrace cur t s) s)"

lemma in_trace_case:
  "(case e i of None \<Rightarrow> False | Some x \<Rightarrow> ex_traceId x = Some t) = in_trace e t i"
  by (auto simp: in_trace_def split: option.split)

lemma step_in_trace_next:
  assumes wf: "store_wf (exchange_store_of s)"
    and members_def: "members = filter (in_trace (st_exchanges s) t) (selectVisibleIds s)"
    and j: "j < length members" "st_selectedId s = Some (members ! j)"
  shows "step_in_trace P t s = setSelectedId (Some (members ! ((j + 1) mod length members))) s"
proof -
  let ?ids = "selectVisibleIds s" and ?q = "in_trace (st_exchanges s) t" and ?x = "members ! j"
  have d: "distinct ?ids" using wf by (simp add: visible_ids_eq store_wf_def)
  have entry: "\<exists>x. st_exchanges s i = Some x \<and> ex_id x = i" if "?q i" for i
    using that store_wf_entry [OF wf] by (auto simp: in_trace_def)
  have x: "?x \<in> set ?ids" "?q ?x" using nth_mem [OF j(1)] by (auto simp: members_def)
  then obtain a where a: "?ids ! a = ?x" "a < length ?ids" by (auto simp: in_set_conv_nth)
  obtain cur where cur: "st_exchanges s ?x = Some cur" "ex_id cur = ?x" using entry x(2) by blast
  have i: "selection_index ?ids (Some (ex_id cur)) = int a"
    using selection_index_nth [OF d a(2)] by (simp add: a(1) cur(2))
  have f: "find ?q (rotate (a + 1) ?ids) = Some (members ! ((j + 1) mod length members))"
    unfolding members_def by (rule next_cyclic [where x = ?x, OF d a]) (use j x(2) in \<open>simp_all add: members_def\<close>)
  have "(j + 1) mod length members < length members" using j(1) by (intro mod_less_divisor) linarith
  then have "?q (members ! ((j + 1) mod length members))" using nth_mem by (fastforce simp: members_def)
  then have "map_option ex_id (st_exchanges s (members ! ((j + 1) mod length members)))
      = Some (members ! ((j + 1) mod length members))"
    using entry by fastforce
  then have "next_candidate (\<lambda>cand. ex_traceId cand = Some t) s cur = Some (members ! ((j + 1) mod length members))"
    unfolding next_candidate_def Let_def in_trace_case i candidates_rotate [OF a(2)] f by simp
  then show ?thesis
    by (simp add: step_in_trace_def selectSelected_def j(2) cur(1) onNextInTrace_def select_opt_def)
qed

text \<open>
  Property C20. From a visible request of a trace, the button steps through the trace's visible
  requests in list order and around: after \<open>k\<close> steps the selection is \<open>k\<close> places further, so that
  every one of them is reached.
\<close>

theorem stepping_cycles_through_trace:
  assumes "store_reachable P s"
    and "j < length (filter (in_trace (st_exchanges s) t) (selectVisibleIds s))"
    and "st_selectedId s = Some (filter (in_trace (st_exchanges s) t) (selectVisibleIds s) ! j)"
  shows "st_selectedId ((step_in_trace P t ^^ k) s) =
    Some (filter (in_trace (st_exchanges s) t) (selectVisibleIds s) !
      ((j + k) mod length (filter (in_trace (st_exchanges s) t) (selectVisibleIds s))))"
proof -
  let ?m = "filter (in_trace (st_exchanges s) t) (selectVisibleIds s)"
  have wf: "store_wf (exchange_store_of s)" using reachable_ok [OF assms(1)] by (simp add: store_ok_def)
  have "(step_in_trace P t ^^ k) s = s\<lparr>st_selectedId := Some (?m ! ((j + k) mod length ?m))\<rparr>"
  proof (induction k)
    case 0
    show ?case using assms(2,3) by simp
  next
    case (Suc k)
    let ?s = "s\<lparr>st_selectedId := Some (?m ! ((j + k) mod length ?m))\<rparr>"
    have v: "selectVisibleIds ?s = selectVisibleIds s"
      by (simp add: selectVisibleIds_def selectVisibleExchanges_def)
    have "(j + k) mod length ?m < length ?m" using assms(2) by (intro mod_less_divisor) linarith
    then have "step_in_trace P t ?s = setSelectedId (Some (?m ! (((j + k) mod length ?m + 1) mod length ?m))) ?s"
      using step_in_trace_next [of ?s _ t "(j + k) mod length ?m" P, OF _ refl] wf by (simp add: v)
    then show ?case using Suc by (simp add: setSelectedId_def mod_Suc_eq)
  qed
  then show ?thesis by simp
qed

theorem stepping_cycles_through_trace_witness:
  "st_selectedId ((step_in_trace no_platform ''4bf9'' ^^ 3) (setSelectedId (Some 4) traced_state)) = Some 4"
proof -
  let ?s = "setSelectedId (Some 4) traced_state"
  obtain x where x: "ex_id x = 4" "ex_traceId x = Some ''4bf9''"
      "traced_state = initial_store\<lparr>st_exchanges := [4 \<mapsto> x], st_ids := [4]\<rparr>"
    using traced_state_eq by blast
  then have m: "filter (in_trace (st_exchanges ?s) ''4bf9'') (selectVisibleIds ?s) = [4]"
    using x(2) by (simp add: in_trace_def traced_visible) (simp add: setSelectedId_def x(3))
  have "store_reachable no_platform ?s"
    using store_next [OF traced_reachable, of "act_setSelectedId (Some 4)"] by simp
  from stepping_cycles_through_trace [OF this, of 0 "''4bf9''" 3] show ?thesis
    unfolding m by simp
qed

end
