(* ===== verification/Transcript.thy ===== *)
theory Transcript
  imports Sse Dom
begin

text \<open>
  The chat transcript of an Anthropic stream: \<open>anthropic/transcript.ts\<close> and the
  \<open>TranscriptView\<close> of \<open>components/anthropic/chat-stream-view.tsx\<close>.

  The code casts the parsed data without checking it, so the model keeps JavaScript's reading of
  an arbitrary JSON value: truthiness, optional chaining, the conversion to a string, which
  throws for an object that hides \<open>toString\<close>, and React's rule that an object is not a child. A
  thrown exception is \<open>None\<close>.

  Shown: the transcript is the concatenated text deltas with the last message, stop reason and
  usage; the view of a typed stream never throws and shows exactly that text; the transcript of
  the retained events of a long stream is a suffix, without its model.
\<close>

section \<open>JavaScript's reading of JSON values\<close>

text \<open>\<open>None\<close> is \<open>undefined\<close>.\<close>

fun js_truthy :: "JsonValue option \<Rightarrow> bool" where
  "js_truthy None = False"
| "js_truthy (Some JNull) = False"
| "js_truthy (Some (JBool b)) = b"
| "js_truthy (Some (JNumber n)) = (n \<noteq> ''0'')"
| "js_truthy (Some (JString s)) = (s \<noteq> [])"
| "js_truthy (Some v) = True"

fun js_is_object :: "JsonValue \<Rightarrow> bool" where
  "js_is_object (JArray vs) = True"
| "js_is_object (JObject es) = True"
| "js_is_object v = False"

text \<open>
  \<open>v?.name\<close>; none of the names the code reads is a property of the built-in prototypes.
\<close>

fun js_member :: "JsonValue option \<Rightarrow> string \<Rightarrow> JsonValue option" where
  "js_member (Some (JObject es)) name = map_of es name"
| "js_member v name = None"

text \<open>\<open>v ?? undefined\<close>, and \<open>v != null\<close>.\<close>

definition js_present :: "JsonValue option \<Rightarrow> JsonValue option" where
  "js_present v = (if v = Some JNull then None else v)"

text \<open>
  \<open>String(v)\<close>. An array joins its elements, \<open>null\<close> as the empty string; an object with an own
  property \<open>toString\<close>, which is not a function in parsed JSON, has no primitive value.
\<close>

fun js_to_string :: "JsonValue \<Rightarrow> string option" where
  "js_to_string JNull = Some ''null''"
| "js_to_string (JBool b) = Some (if b then ''true'' else ''false'')"
| "js_to_string (JNumber n) = Some n"
| "js_to_string (JString s) = Some s"
| "js_to_string (JArray vs) =
     map_option (join '','') (those (map (\<lambda>v. if v = JNull then Some [] else js_to_string v) vs))"
| "js_to_string (JObject es) =
     (if map_of es ''toString'' = None then Some ''[object Object]'' else None)"

text \<open>A value as a React child: an object throws, and so does an array that contains one.\<close>

fun react_child :: "JsonValue \<Rightarrow> glyph list option" where
  "react_child JNull = Some []"
| "react_child (JBool b) = Some []"
| "react_child (JNumber n) = Some (lat n)"
| "react_child (JString s) = Some (lat s)"
| "react_child (JArray vs) = map_option concat (those (map react_child vs))"
| "react_child (JObject es) = None"

section \<open>\<open>extractAnthropicTranscript\<close>\<close>

record Transcript =
  ts_text :: string
  ts_model :: "JsonValue option"
  ts_messageId :: "JsonValue option"
  ts_stopReason :: "JsonValue option"
  ts_usage :: "(JsonValue option \<times> JsonValue option) option"
  ts_isComplete :: bool

definition transcript_init :: Transcript where
  "transcript_init = \<lparr>ts_text = [], ts_model = None, ts_messageId = None, ts_stopReason = None,
     ts_usage = None, ts_isComplete = False\<rparr>"

definition transcript_step :: "SSEEvent \<Rightarrow> Transcript \<Rightarrow> Transcript option" where
  "transcript_step event t = (case ev_parsedData event of
     None \<Rightarrow> Some t
   | Some d \<Rightarrow>
       if \<not> js_is_object d then Some t
       else if ev_type event = ''message_start'' then
         (let msg = js_member (Some d) ''message''
          in if js_truthy msg
             then Some (t\<lparr>ts_model := js_member msg ''model'', ts_messageId := js_member msg ''id''\<rparr>)
             else Some t)
       else if ev_type event = ''content_block_delta'' then
         (let delta = js_member (Some d) ''delta''
          in if js_member delta ''type'' = Some (JString ''text_delta'')
             then (case js_present (js_member delta ''text'') of
                 None \<Rightarrow> Some t
               | Some v \<Rightarrow> map_option (\<lambda>s. t\<lparr>ts_text := ts_text t @ s\<rparr>) (js_to_string v))
             else Some t)
       else if ev_type event = ''message_delta'' then
         (let delta = js_member (Some d) ''delta'';
              stop_reason = js_member delta ''stop_reason'';
              u = js_member (Some d) ''usage'';
              t' = (if js_truthy stop_reason then t\<lparr>ts_stopReason := stop_reason\<rparr> else t)
          in Some (if js_truthy u
                   then t'\<lparr>ts_usage := Some (js_member u ''input_tokens'', js_member u ''output_tokens'')\<rparr>
                   else t'))
       else if ev_type event = ''message_stop'' then Some (t\<lparr>ts_isComplete := True\<rparr>)
       else Some t)"

fun transcript_loop :: "SSEEvent list \<Rightarrow> Transcript \<Rightarrow> Transcript option" where
  "transcript_loop [] t = Some t"
| "transcript_loop (event # events) t =
     (case transcript_step event t of None \<Rightarrow> None | Some t' \<Rightarrow> transcript_loop events t')"

definition extractAnthropicTranscript :: "SSEEvent list \<Rightarrow> Transcript option" where
  "extractAnthropicTranscript events = transcript_loop events transcript_init"

section \<open>\<open>TranscriptView\<close>\<close>

text \<open>\<open>messageId.slice(0, 14)\<close> as a child: a string or an array has \<open>slice\<close>.\<close>

fun message_id_child :: "JsonValue \<Rightarrow> glyph list option" where
  "message_id_child (JString s) = Some (lat (take 14 s))"
| "message_id_child (JArray vs) = react_child (JArray (take 14 vs))"
| "message_id_child v = None"

text \<open>The header line, when there is one: an absent child is no element.\<close>

definition transcript_head :: "Transcript \<Rightarrow> 'h dom list option" where
  "transcript_head t =
     (let model = js_present (ts_model t); messageId = js_present (ts_messageId t);
          sep = (if model \<noteq> None \<and> messageId \<noteq> None then [El ''span'' [] [] [Txt (lat [CHR 0xB7])]] else [])
      in if model = None \<and> messageId = None then Some []
         else case (case model of None \<Rightarrow> Some [] | Some m \<Rightarrow>
                      map_option (\<lambda>c. [El ''span'' [] [] [Txt c]]) (react_child m)) of
             None \<Rightarrow> None
           | Some model_part \<Rightarrow>
               (case (case messageId of None \<Rightarrow> Some [] | Some i \<Rightarrow>
                        map_option (\<lambda>c. [El ''span'' [] [] [Txt (lat ''msg '' @ c @ [ellipsis])]]) (message_id_child i)) of
                  None \<Rightarrow> None
                | Some id_part \<Rightarrow> Some [El ''div'' [] [] (model_part @ sep @ id_part)]))"

text \<open>One of the two usage texts, if its count is there.\<close>

definition usage_part :: "string \<Rightarrow> JsonValue option \<Rightarrow> string \<Rightarrow> string list option" where
  "usage_part before v after = (case js_present v of
     None \<Rightarrow> Some []
   | Some n \<Rightarrow> map_option (\<lambda>s. [before @ s @ after]) (js_to_string n))"

definition usage_text :: "JsonValue option \<times> JsonValue option \<Rightarrow> string option" where
  "usage_text u = (case (usage_part ''usage: '' (fst u) '' in'', usage_part [] (snd u) '' out'') of
     (Some a, Some b) \<Rightarrow> Some (join '' / '' (a @ b))
   | _ \<Rightarrow> None)"

definition transcript_foot :: "Transcript \<Rightarrow> 'h dom list option" where
  "transcript_foot t =
     (if \<not> ts_isComplete t then Some []
      else case (case js_present (ts_stopReason t) of None \<Rightarrow> Some [em_dash] | Some v \<Rightarrow> react_child v) of
        None \<Rightarrow> None
      | Some reason \<Rightarrow>
          (case (case ts_usage t of None \<Rightarrow> Some [] | Some u \<Rightarrow>
                   map_option (\<lambda>s. [El ''span'' [] [] [Txt (lat s)]]) (usage_text u)) of
             None \<Rightarrow> None
           | Some usage_span \<Rightarrow>
               Some [El ''div'' [] [] (El ''span'' [] [] [Txt (lat ''stop_reason: '' @ reason)] # usage_span)]))"

definition TranscriptView :: "SSEEvent list \<Rightarrow> bool \<Rightarrow> 'h dom option" where
  "TranscriptView events isTerminal = (case extractAnthropicTranscript events of
     None \<Rightarrow> None
   | Some t \<Rightarrow> (case (transcript_head t, transcript_foot t) of
       (Some head, Some foot) \<Rightarrow> Some (El ''div'' [] []
         (head
          @ [El ''pre'' [] [] (Txt (lat (ts_text t))
               # child_if (\<not> isTerminal \<and> \<not> ts_isComplete t) [El ''span'' [] [] []])]
          @ foot))
     | _ \<Rightarrow> None))"


section \<open>What the events say\<close>

text \<open>
  One event on its own: the text it adds, the message it starts, the stop reason and the usage it
  reports, and whether it ends the message.
\<close>

definition object_event :: "string \<Rightarrow> SSEEvent \<Rightarrow> JsonValue option" where
  "object_event type event = (case ev_parsedData event of
     Some d \<Rightarrow> if ev_type event = type \<and> js_is_object d then Some d else None
   | None \<Rightarrow> None)"

definition said_text :: "SSEEvent \<Rightarrow> JsonValue option" where
  "said_text event =
     (let delta = js_member (object_event ''content_block_delta'' event) ''delta''
      in if js_member delta ''type'' = Some (JString ''text_delta'') then js_present (js_member delta ''text'') else None)"

definition said_message :: "SSEEvent \<Rightarrow> (JsonValue option \<times> JsonValue option) option" where
  "said_message event =
     (let msg = js_member (object_event ''message_start'' event) ''message''
      in if js_truthy msg then Some (js_member msg ''model'', js_member msg ''id'') else None)"

definition said_stop :: "SSEEvent \<Rightarrow> JsonValue option" where
  "said_stop event =
     (let reason = js_member (js_member (object_event ''message_delta'' event) ''delta'') ''stop_reason''
      in if js_truthy reason then reason else None)"

definition said_usage :: "SSEEvent \<Rightarrow> (JsonValue option \<times> JsonValue option) option" where
  "said_usage event =
     (let u = js_member (object_event ''message_delta'' event) ''usage''
      in if js_truthy u then Some (js_member u ''input_tokens'', js_member u ''output_tokens'') else None)"

definition said_end :: "SSEEvent \<Rightarrow> bool" where
  "said_end event = (object_event ''message_stop'' event \<noteq> None)"

text \<open>The last value that \<open>f\<close> gives on a list, or the default.\<close>

definition last_said :: "('a \<Rightarrow> 'b option) \<Rightarrow> 'a list \<Rightarrow> 'b option" where
  "last_said f xs = (case rev (List.map_filter f xs) of [] \<Rightarrow> None | v # vs \<Rightarrow> Some v)"

lemma last_said_Nil [simp]: "last_said f [] = None"
  by (simp add: last_said_def List.map_filter_def)

lemma last_said_Cons: "last_said f (x # xs) = (case last_said f xs of None \<Rightarrow> f x | Some v \<Rightarrow> Some v)"
  by (simp add: last_said_def List.map_filter_def split: option.split list.split)

lemma object_event_eq: "ev_parsedData e = Some d \<Longrightarrow> js_is_object d \<Longrightarrow>
    object_event type e = (if ev_type e = type then Some d else None)"
  by (simp add: object_event_def)

text \<open>One step of the loop adds what its event says.\<close>

definition add_said :: "SSEEvent \<Rightarrow> Transcript \<Rightarrow> string \<Rightarrow> Transcript" where
  "add_said e t s =
     \<lparr>ts_text = ts_text t @ s,
      ts_model = (case said_message e of None \<Rightarrow> ts_model t | Some m \<Rightarrow> fst m),
      ts_messageId = (case said_message e of None \<Rightarrow> ts_messageId t | Some m \<Rightarrow> snd m),
      ts_stopReason = (case said_stop e of None \<Rightarrow> ts_stopReason t | Some r \<Rightarrow> Some r),
      ts_usage = (case said_usage e of None \<Rightarrow> ts_usage t | Some u \<Rightarrow> Some u),
      ts_isComplete = (ts_isComplete t \<or> said_end e)\<rparr>"

lemmas said_defs = add_said_def said_text_def said_message_def said_stop_def said_usage_def said_end_def

lemma transcript_step_adds:
  "transcript_step e t =
     (case said_text e of None \<Rightarrow> Some (add_said e t []) | Some v \<Rightarrow> map_option (add_said e t) (js_to_string v))"
proof (cases "\<exists>d. ev_parsedData e = Some d \<and> js_is_object d")
  case False
  then have none: "object_event type e = None" for type
    by (auto simp: object_event_def split: option.splits)
  then have "add_said e t [] = t" "said_text e = None" by (simp_all add: said_defs)
  moreover have "transcript_step e t = Some t" using False by (auto simp: transcript_step_def split: option.splits)
  ultimately show ?thesis by simp
next
  case True
  then obtain d where d: "ev_parsedData e = Some d" "js_is_object d" by blast
  note ev = object_event_eq [OF d]
  show ?thesis
  proof (cases "ev_type e = ''content_block_delta''")
    case True
    have plus: "t\<lparr>ts_text := ts_text t @ s\<rparr> = add_said e t s" for s
      using True by (simp add: said_defs ev)
    show ?thesis using True d plus plus [of "[]"]
      by (simp add: transcript_step_def said_text_def ev Let_def plus split: option.split)
  next
    case False
    consider "ev_type e = ''message_start''" | "ev_type e = ''message_delta''" | "ev_type e = ''message_stop''"
      | "ev_type e \<notin> {''message_start'', ''message_delta'', ''message_stop''}" by blast
    then show ?thesis
      using d False by cases (simp_all add: transcript_step_def said_defs ev Let_def split: option.split)
  qed
qed


text \<open>The texts of the deltas, converted to strings; \<open>None\<close> when a conversion throws.\<close>

definition said_texts :: "SSEEvent list \<Rightarrow> string list option" where
  "said_texts events = those (map js_to_string (List.map_filter said_text events))"

lemma said_texts_Nil [simp]: "said_texts [] = Some []"
  by (simp add: said_texts_def List.map_filter_def)

lemma said_texts_Cons: "said_texts (e # es) = (case said_text e of
    None \<Rightarrow> said_texts es
  | Some v \<Rightarrow> (case js_to_string v of None \<Rightarrow> None | Some s \<Rightarrow> map_option ((#) s) (said_texts es)))"
  by (simp add: said_texts_def List.map_filter_def split: option.split)

definition add_all :: "SSEEvent list \<Rightarrow> Transcript \<Rightarrow> string \<Rightarrow> Transcript" where
  "add_all es t s =
     \<lparr>ts_text = ts_text t @ s,
      ts_model = (case last_said said_message es of None \<Rightarrow> ts_model t | Some m \<Rightarrow> fst m),
      ts_messageId = (case last_said said_message es of None \<Rightarrow> ts_messageId t | Some m \<Rightarrow> snd m),
      ts_stopReason = (case last_said said_stop es of None \<Rightarrow> ts_stopReason t | Some r \<Rightarrow> Some r),
      ts_usage = (case last_said said_usage es of None \<Rightarrow> ts_usage t | Some u \<Rightarrow> Some u),
      ts_isComplete = (ts_isComplete t \<or> list_ex said_end es)\<rparr>"

lemma add_all_Nil: "add_all [] t [] = t"
  by (simp add: add_all_def)

lemma add_all_Cons: "add_all (e # es) t (a @ b) = add_all es (add_said e t a) b"
  by (simp add: add_all_def add_said_def last_said_Cons split: option.split)

lemma transcript_loop_eq: "transcript_loop es t = map_option (\<lambda>ps. add_all es t (concat ps)) (said_texts es)"
proof (induction es arbitrary: t)
  case Nil
  then show ?case by (simp add: add_all_Nil)
next
  case (Cons e es)
  have none: "add_all (e # es) t s = add_all es (add_said e t []) s" for s
    using add_all_Cons [of e es t "[]" s] by simp
  show ?case
  proof (cases "said_text e")
    case None
    then show ?thesis by (simp add: transcript_step_adds said_texts_Cons Cons.IH none)
  next
    case (Some v)
    then show ?thesis
      by (simp add: transcript_step_adds said_texts_Cons Cons.IH add_all_Cons option.map_comp comp_def split: option.split)
  qed
qed

section \<open>Properties\<close>

text \<open>
  Property C23. The transcript of a stream is what its events say: its text is the texts of all
  text deltas in order, the model and the id are those of the last message that was started, the
  stop reason and the usage are the last ones that were reported, and it is complete when some
  event ended the message. It throws exactly when the text of some delta has no string form.
\<close>

theorem transcript_is_what_events_say:
  "extractAnthropicTranscript events =
     (case those (map js_to_string (List.map_filter said_text events)) of
        None \<Rightarrow> None
      | Some ps \<Rightarrow> Some
          \<lparr>ts_text = concat ps,
           ts_model = Option.bind (last_said said_message events) fst,
           ts_messageId = Option.bind (last_said said_message events) snd,
           ts_stopReason = last_said said_stop events,
           ts_usage = last_said said_usage events,
           ts_isComplete = list_ex said_end events\<rparr>)"
  unfolding extractAnthropicTranscript_def transcript_loop_eq said_texts_def add_all_def
  by (simp add: transcript_init_def Option.bind_def split: option.split)


lemma said_texts_append:
  "said_texts (a @ b) = (case said_texts a of None \<Rightarrow> None | Some ps \<Rightarrow> map_option ((@) ps) (said_texts b))"
  by (cases "said_texts b"; induction a) (auto simp: said_texts_Cons split: option.split)

lemma last_said_None: "list_all (\<lambda>e. f e = None) es \<Longrightarrow> last_said f es = None"
  by (induction es) (simp_all add: last_said_Cons)

lemma list_ex_drop: "list_ex P (drop n xs) \<Longrightarrow> list_ex P xs"
  by (auto simp: list_ex_iff dest: in_set_dropD)

text \<open>
  Property C24. The transcript of a stream that outgrew the retention cap: when the transcript of
  the whole stream exists, the one the view computes from the retained events exists too, its
  text is the end of the whole text, and what it reports is reported by the stream; but when no
  retained event starts a message, its model and id are gone although the stream named them.
\<close>

theorem transcript_of_retained_events:
  assumes "extractAnthropicTranscript (ss_events s) = Some full"
  shows "\<exists>t front. extractAnthropicTranscript (ss_events (applyRetention cap s)) = Some t
     \<and> ts_text full = front @ ts_text t
     \<and> (ts_isComplete t \<longrightarrow> ts_isComplete full)
     \<and> (list_all (\<lambda>e. said_message e = None) (ss_events (applyRetention cap s))
          \<longrightarrow> ts_model t = None \<and> ts_messageId t = None)"
proof -
  let ?n = "length (ss_events s) - cap"
  have kept: "ss_events (applyRetention cap s) = drop ?n (ss_events s)"
    by (simp add: applyRetention_alt take_last_def)
  obtain ps where ps: "said_texts (ss_events s) = Some ps" and full: "full = add_all (ss_events s) transcript_init (concat ps)"
    using assms by (auto simp: extractAnthropicTranscript_def transcript_loop_eq)
  have "said_texts (take ?n (ss_events s) @ drop ?n (ss_events s)) = Some ps" using ps by simp
  then obtain a b where ab: "ps = a @ b" "said_texts (drop ?n (ss_events s)) = Some b"
    unfolding said_texts_append by (auto split: option.splits)
  let ?t = "add_all (drop ?n (ss_events s)) transcript_init (concat b)"
  have "extractAnthropicTranscript (ss_events (applyRetention cap s)) = Some ?t"
    by (simp add: kept extractAnthropicTranscript_def transcript_loop_eq ab(2))
  moreover have "ts_text full = concat a @ ts_text ?t"
    by (simp add: full ab(1) add_all_def transcript_init_def)
  moreover have "ts_isComplete ?t \<longrightarrow> ts_isComplete full"
    by (auto simp: full add_all_def transcript_init_def dest: list_ex_drop)
  moreover have "list_all (\<lambda>e. said_message e = None) (ss_events (applyRetention cap s))
      \<longrightarrow> ts_model ?t = None \<and> ts_messageId ?t = None"
    by (simp add: kept last_said_None add_all_def transcript_init_def)
  ultimately show ?thesis by blast
qed

definition sample_start :: SSEEvent where
  "sample_start = \<lparr>ev_type = ''message_start'', ev_data = ''x'', ev_id = None,
     ev_parsedData = Some (JObject [(''message'', JObject [(''id'', JString ''m1''), (''model'', JString ''c'')])]), ev_index = 0\<rparr>"

definition sample_delta :: "nat \<Rightarrow> string \<Rightarrow> SSEEvent" where
  "sample_delta i s = \<lparr>ev_type = ''content_block_delta'', ev_data = ''x'', ev_id = None,
     ev_parsedData = Some (JObject [(''delta'', JObject [(''type'', JString ''text_delta''), (''text'', JString s)])]),
     ev_index = i\<rparr>"

lemmas sample_event_defs = sample_start_def sample_delta_def transcript_step_def transcript_init_def js_present_def

lemma sample_transcript:
  "extractAnthropicTranscript [sample_start, sample_delta 1 ''Hi '', sample_delta 2 ''there''] =
     Some (transcript_init\<lparr>ts_text := ''Hi there'', ts_model := Some (JString ''c''), ts_messageId := Some (JString ''m1'')\<rparr>)"
  by (simp add: extractAnthropicTranscript_def sample_event_defs)

theorem transcript_of_retained_events_witness:
  "\<exists>t. extractAnthropicTranscript (ss_events (applyRetention 1
       \<lparr>ss_events = [sample_start, sample_delta 1 ''Hi '', sample_delta 2 ''there''], ss_totalEventCount = 3, ss_parserRemainder = []\<rparr>))
     = Some t \<and> ts_model t = None"
proof -
  let ?s = "\<lparr>ss_events = [sample_start, sample_delta 1 ''Hi '', sample_delta 2 ''there''], ss_totalEventCount = 3, ss_parserRemainder = []\<rparr>"
  have "extractAnthropicTranscript (ss_events ?s) = Some (transcript_init\<lparr>ts_text := ''Hi there'',
      ts_model := Some (JString ''c''), ts_messageId := Some (JString ''m1'')\<rparr>)"
    using sample_transcript by simp
  from transcript_of_retained_events [OF this, of 1] obtain t
    where "extractAnthropicTranscript (ss_events (applyRetention 1 ?s)) = Some t"
      and gone: "list_all (\<lambda>e. said_message e = None) (ss_events (applyRetention 1 ?s)) \<longrightarrow> ts_model t = None \<and> ts_messageId t = None"
    by blast
  moreover have "list_all (\<lambda>e. said_message e = None) (ss_events (applyRetention 1 ?s))"
    by (simp add: applyRetention_alt take_last_def sample_delta_def said_message_def object_event_def)
  ultimately show ?thesis by blast
qed


text \<open>
  A typed event: what it says has the type that the code's casts claim, strings for texts, models,
  ids and stop reasons and numbers for token counts, and a missing field is not there.
\<close>

fun is_jstring :: "JsonValue option \<Rightarrow> bool" where
  "is_jstring None = True"
| "is_jstring (Some (JString s)) = True"
| "is_jstring v = False"

fun is_jnumber :: "JsonValue option \<Rightarrow> bool" where
  "is_jnumber None = True"
| "is_jnumber (Some (JNumber s)) = True"
| "is_jnumber v = False"

definition typed_event :: "SSEEvent \<Rightarrow> bool" where
  "typed_event e \<longleftrightarrow> is_jstring (said_text e) \<and> is_jstring (said_stop e)
     \<and> pred_option (\<lambda>m. is_jstring (fst m) \<and> is_jstring (snd m)) (said_message e)
     \<and> pred_option (\<lambda>u. is_jnumber (fst u) \<and> is_jnumber (snd u)) (said_usage e)"

lemma is_jstring_cases: "is_jstring v \<Longrightarrow> v = None \<or> (\<exists>s. v = Some (JString s))"
  by (cases v rule: is_jstring.cases) simp_all

lemma is_jnumber_cases: "is_jnumber v \<Longrightarrow> v = None \<or> (\<exists>s. v = Some (JNumber s))"
  by (cases v rule: is_jnumber.cases) simp_all

lemma last_said_holds: "list_all (\<lambda>e. pred_option P (f e)) es \<Longrightarrow> pred_option P (last_said f es)"
  by (induction es) (auto simp: last_said_Cons split: option.split)

definition string_of :: "JsonValue \<Rightarrow> string" where
  "string_of v = (case v of JString s \<Rightarrow> s | _ \<Rightarrow> [])"

lemma said_texts_typed:
  "list_all typed_event es \<Longrightarrow> said_texts es = Some (map string_of (List.map_filter said_text es))"
proof (induction es)
  case (Cons e es)
  then have "is_jstring (said_text e)" by (simp add: typed_event_def)
  then show ?case using Cons is_jstring_cases [of "said_text e"]
    by (auto simp: said_texts_Cons List.map_filter_def string_of_def)
qed (simp add: List.map_filter_def)

lemma usage_text_typed: "is_jnumber a \<Longrightarrow> is_jnumber b \<Longrightarrow> usage_text (a, b) \<noteq> None"
  by (auto dest!: is_jnumber_cases simp: usage_text_def usage_part_def js_present_def)

lemma transcript_head_typed: "is_jstring (ts_model t) \<Longrightarrow> is_jstring (ts_messageId t) \<Longrightarrow> transcript_head t \<noteq> None"
  by (auto dest!: is_jstring_cases simp: transcript_head_def js_present_def Let_def)

lemma transcript_foot_typed:
  "is_jstring (ts_stopReason t) \<Longrightarrow> pred_option (\<lambda>u. is_jnumber (fst u) \<and> is_jnumber (snd u)) (ts_usage t)
   \<Longrightarrow> transcript_foot t \<noteq> None"
  by (cases "ts_usage t")
     (auto dest!: is_jstring_cases dest: usage_text_typed simp: transcript_foot_def js_present_def split: option.split)

text \<open>
  The view of a stream of typed events never throws, and the block it shows is the
  texts of all text deltas in order, with a cursor exactly while the stream is neither over nor
  ended by an event.
\<close>

theorem transcript_view_shows_text:
  assumes "list_all typed_event events"
  shows "\<exists>view. TranscriptView events isTerminal = Some view
    \<and> El ''pre'' [] [] (Txt (lat (concat (map string_of (List.map_filter said_text events))))
         # (if isTerminal \<or> list_ex said_end events then [] else [El ''span'' [] [] []])) \<in> set (dom_elements view)"
proof -
  let ?t = "add_all events transcript_init (concat (map string_of (List.map_filter said_text events)))"
  have t: "extractAnthropicTranscript events = Some ?t"
    by (simp add: extractAnthropicTranscript_def transcript_loop_eq said_texts_typed assms)
  have said: "ts_text ?t = concat (map string_of (List.map_filter said_text events))"
    and ended: "ts_isComplete ?t = list_ex said_end events"
    by (simp_all add: add_all_def transcript_init_def)
  have message: "pred_option (\<lambda>m. is_jstring (fst m) \<and> is_jstring (snd m)) (last_said said_message events)"
    by (rule last_said_holds) (use assms in \<open>auto simp: typed_event_def list_all_iff\<close>)
  have "pred_option (\<lambda>v. is_jstring (Some v)) (last_said said_stop events)"
    by (rule last_said_holds) (use assms in \<open>auto simp: typed_event_def list_all_iff pred_option_def\<close>)
  then have stop: "is_jstring (ts_stopReason ?t)"
    by (auto simp: add_all_def transcript_init_def split: option.split)
  have "pred_option (\<lambda>u. is_jnumber (fst u) \<and> is_jnumber (snd u)) (last_said said_usage events)"
    by (rule last_said_holds) (use assms in \<open>auto simp: typed_event_def list_all_iff\<close>)
  then have usage: "pred_option (\<lambda>u. is_jnumber (fst u) \<and> is_jnumber (snd u)) (ts_usage ?t)"
    by (auto simp: add_all_def transcript_init_def split: option.split)
  have "transcript_head ?t \<noteq> None"
    by (rule transcript_head_typed; use message in \<open>auto simp: add_all_def transcript_init_def split: option.split\<close>)
  moreover have "transcript_foot ?t \<noteq> None" by (rule transcript_foot_typed [OF stop usage])
  ultimately obtain head foot :: "'a dom list" where parts: "transcript_head ?t = Some head" "transcript_foot ?t = Some foot"
    by blast
  show ?thesis
    unfolding TranscriptView_def t option.case parts prod.case by (simp add: said ended)
qed

theorem transcript_view_shows_text_witness:
  "\<exists>view :: nat dom. TranscriptView [sample_start, sample_delta 1 ''Hi''] False = Some view"
proof -
  have "list_all typed_event [sample_start, sample_delta 1 ''Hi'']"
    by (simp add: typed_event_def sample_start_def sample_delta_def said_text_def said_stop_def said_message_def
        said_usage_def object_event_def js_present_def)
  from transcript_view_shows_text [OF this, of False] show ?thesis by blast
qed

text \<open>The casts are not checked: a numeric message id makes the view throw.\<close>

lemma numeric_id_throws:
  "ts_messageId t = Some (JNumber n) \<Longrightarrow> transcript_head t = None"
  by (cases "js_present (ts_model t)")
     (auto simp: transcript_head_def js_present_def Let_def split: option.split)

end
