(* ===== verification/Json_Model.thy ===== *)
theory Json_Model
  imports Wire
begin

text \<open>
  The tree model of the JSON viewer, \<open>components/json-tree/model.ts\<close>: building a tree or a
  forest with a shared id counter, paths, value reconstruction, truncation marking.

  A node is a datatype with the interface's fields. Absent children and an empty array of
  children, which no operation tells apart, are both the empty list. \<open>value\<close> holds a primitive
  \<open>JsonValue\<close>. The mutable counter is passed and returned.

  Shown: ids number the nodes in document order; every node's path leads to its value; the value
  is reconstructed, except for entries named \<open>__proto__\<close>; formatted paths are unambiguous;
  exactly one node is marked as the truncation point.
\<close>

section \<open>Nodes\<close>

datatype JsonNodeType = nt_object | nt_array | nt_string | nt_number | nt_boolean | nt_null

datatype PathSegment = seg_key string | seg_index nat

datatype JsonTreeNode = JsonTreeNode
  (n_id: nat) (n_type: JsonNodeType) (n_path: "PathSegment list") (n_depth: nat)
  (n_key: "string option") (n_value: "JsonValue option") (n_children: "JsonTreeNode list")
  (n_childCount: nat) (n_truncated: bool) (n_totalNodes: nat)

section \<open>Building\<close>

definition sum_totals :: "JsonTreeNode list \<Rightarrow> nat" where
  "sum_totals children = foldl (\<lambda>s c. s + n_totalNodes c) 1 children"

fun buildNode ::
    "JsonValue \<Rightarrow> string option \<Rightarrow> PathSegment list \<Rightarrow> nat \<Rightarrow> nat \<Rightarrow> JsonTreeNode \<times> nat"
  and buildItems :: "JsonValue list \<Rightarrow> nat \<Rightarrow> PathSegment list \<Rightarrow> nat \<Rightarrow> nat \<Rightarrow> JsonTreeNode list \<times> nat"
  and buildEntries ::
    "(string \<times> JsonValue) list \<Rightarrow> PathSegment list \<Rightarrow> nat \<Rightarrow> nat \<Rightarrow> JsonTreeNode list \<times> nat" where
  "buildNode JNull key path depth counter =
     (JsonTreeNode counter nt_null path depth key (Some JNull) [] 0 False 1, counter + 1)"
| "buildNode (JString s) key path depth counter =
     (JsonTreeNode counter nt_string path depth key (Some (JString s)) [] 0 False 1, counter + 1)"
| "buildNode (JNumber n) key path depth counter =
     (JsonTreeNode counter nt_number path depth key (Some (JNumber n)) [] 0 False 1, counter + 1)"
| "buildNode (JBool b) key path depth counter =
     (JsonTreeNode counter nt_boolean path depth key (Some (JBool b)) [] 0 False 1, counter + 1)"
| "buildNode (JArray items) key path depth counter =
     (let (children, counter') = buildItems items 0 path (depth + 1) (counter + 1)
      in (JsonTreeNode counter nt_array path depth key None children (length children) False
            (sum_totals children), counter'))"
| "buildNode (JObject entries) key path depth counter =
     (let (children, counter') = buildEntries entries path (depth + 1) (counter + 1)
      in (JsonTreeNode counter nt_object path depth key None children (length children) False
            (sum_totals children), counter'))"
| "buildItems [] i path depth counter = ([], counter)"
| "buildItems (v # vs) i path depth counter =
     (let (node, counter') = buildNode v None (path @ [seg_index i]) depth counter;
          (nodes, counter'') = buildItems vs (i + 1) path depth counter'
      in (node # nodes, counter''))"
| "buildEntries [] path depth counter = ([], counter)"
| "buildEntries ((k, v) # es) path depth counter =
     (let (node, counter') = buildNode v (Some k) (path @ [seg_key k]) depth counter;
          (nodes, counter'') = buildEntries es path depth counter'
      in (node # nodes, counter''))"

definition buildJsonTree :: "JsonValue \<Rightarrow> JsonTreeNode" where
  "buildJsonTree v = fst (buildNode v None [] 0 0)"

fun build_forest_from :: "JsonValue list \<Rightarrow> nat \<Rightarrow> JsonTreeNode list" where
  "build_forest_from [] counter = []"
| "build_forest_from (v # vs) counter =
     (let (node, counter') = buildNode v None [] 0 counter in node # build_forest_from vs counter')"

definition buildJsonForest :: "JsonValue list \<Rightarrow> JsonTreeNode list" where
  "buildJsonForest values = build_forest_from values 0"

section \<open>Paths\<close>

definition is_ident_start :: "char \<Rightarrow> bool" where
  "is_ident_start c = (let n = charCode c in
     (65 \<le> n \<and> n \<le> 90) \<or> (97 \<le> n \<and> n \<le> 122) \<or> n = 95 \<or> n = 36)"

definition is_ident_char :: "char \<Rightarrow> bool" where
  "is_ident_char c = (let n = charCode c in is_ident_start c \<or> (48 \<le> n \<and> n \<le> 57))"

text \<open>The test of \<open>IDENTIFIER_RE\<close>.\<close>

definition is_identifier :: "string \<Rightarrow> bool" where
  "is_identifier s = (case s of [] \<Rightarrow> False | c # r \<Rightarrow> is_ident_start c \<and> list_all is_ident_char r)"

text \<open>\<open>JSON.stringify\<close> of a string: one code unit, and the quoted string.\<close>

definition json_escape :: "char \<Rightarrow> string" where
  "json_escape c = (let n = charCode c in
     if n = 8 then [CHR 0x5C, CHR ''b'']
     else if n = 9 then [CHR 0x5C, CHR ''t'']
     else if n = 10 then [CHR 0x5C, CHR ''n'']
     else if n = 12 then [CHR 0x5C, CHR ''f'']
     else if n = 13 then [CHR 0x5C, CHR ''r'']
     else if n = 34 then [CHR 0x5C, CHR 0x22]
     else if n = 92 then [CHR 0x5C, CHR 0x5C]
     else if n < 32 then [CHR 0x5C, CHR ''u'', CHR ''0'', CHR ''0'', digit_char (n div 16), digit_char (n mod 16)]
     else [c])"

definition json_quote :: "string \<Rightarrow> string" where
  "json_quote s = CHR 0x22 # concat (map json_escape s) @ [CHR 0x22]"

definition path_segment_text :: "PathSegment \<Rightarrow> string" where
  "path_segment_text seg = (case seg of
     seg_index i \<Rightarrow> ''['' @ showNat i @ '']''
   | seg_key k \<Rightarrow> if is_identifier k then ''.'' @ k else ''['' @ json_quote k @ '']'')"

definition formatPath :: "PathSegment list \<Rightarrow> string" where
  "formatPath path = foldl (\<lambda>out seg. out @ path_segment_text seg) ''$'' path"

section \<open>Value reconstruction\<close>

text \<open>
  \<open>obj[k] = v\<close> on an object literal. The name \<open>__proto__\<close> reaches the accessor inherited from
  \<open>Object.prototype\<close>, which makes no entry; any other name is updated in place or appended (the
  children come in entry order, so appending keeps that order).
\<close>

fun update_entry :: "(string \<times> JsonValue) list \<Rightarrow> string \<Rightarrow> JsonValue \<Rightarrow> (string \<times> JsonValue) list" where
  "update_entry [] k v = [(k, v)]"
| "update_entry ((k', v') # es) k v = (if k' = k then (k, v) # es else (k', v') # update_entry es k v)"

definition set_property :: "(string \<times> JsonValue) list \<Rightarrow> string \<Rightarrow> JsonValue \<Rightarrow> (string \<times> JsonValue) list" where
  "set_property obj k v = (if k = ''__proto__'' then obj else update_entry obj k v)"

fun nodeToValue :: "JsonTreeNode \<Rightarrow> JsonValue" where
  "nodeToValue (JsonTreeNode i ty path depth key val children cc trunc total_nodes) =
     (if ty = nt_array then JArray (map nodeToValue children)
      else if ty = nt_object then
        JObject (foldl (\<lambda>obj (k, v). set_property obj k v) []
          (map (\<lambda>child. (case n_key child of Some k \<Rightarrow> k | None \<Rightarrow> [], nodeToValue child)) children))
      else (case val of Some v \<Rightarrow> v | None \<Rightarrow> JNull))"

section \<open>Truncation marking\<close>

lemma size_last_child: "children \<noteq> [] \<Longrightarrow> size (last children) \<le> size_list size children"
  for children :: "JsonTreeNode list"
  by (intro size_list_estimation' [OF last_in_set]) simp_all

text \<open>The marked tree and \<open>ancestorIds\<close>.\<close>

function markTruncationPoint :: "JsonTreeNode \<Rightarrow> JsonTreeNode \<times> nat list" where
  "markTruncationPoint (JsonTreeNode i ty path depth key val children cc trunc total_nodes) =
     (if children = [] then (JsonTreeNode i ty path depth key val children cc True total_nodes, [])
      else let (child, ids) = markTruncationPoint (last children)
           in (JsonTreeNode i ty path depth key val (butlast children @ [child]) cc trunc total_nodes, i # ids))"
  by pat_completeness auto

termination
  by (relation "measure size") (auto simp: size_last_child less_Suc_eq_le)

section \<open>Size\<close>

fun countNodes :: "JsonTreeNode \<Rightarrow> nat" where
  "countNodes (JsonTreeNode i ty path depth key val children cc trunc total_nodes) =
     foldl (+) 1 (map countNodes children)"


section \<open>Numbering\<close>

text \<open>The nodes of a tree in document order.\<close>

fun preorder :: "JsonTreeNode \<Rightarrow> JsonTreeNode list" where
  "preorder (JsonTreeNode i ty path depth key val children cc trunc total_nodes) =
     JsonTreeNode i ty path depth key val children cc trunc total_nodes # concat (map preorder children)"

abbreviation preorders :: "JsonTreeNode list \<Rightarrow> JsonTreeNode list" where
  "preorders ns \<equiv> concat (map preorder ns)"

lemma foldl_plus: "foldl (+) (n :: nat) xs = n + sum_list xs"
  by (induction xs arbitrary: n) simp_all

lemma sum_totals_eq: "sum_totals ns = 1 + sum_list (map n_totalNodes ns)"
proof -
  have "foldl (\<lambda>s c. s + n_totalNodes c) k ns = k + sum_list (map n_totalNodes ns)" for k
    by (induction ns arbitrary: k) simp_all
  then show ?thesis by (simp add: sum_totals_def)
qed

lemma length_preorder: "length (preorder n) = countNodes n"
  by (induction n rule: preorder.induct) (simp add: foldl_plus length_concat comp_def cong: map_cong)

lemma build_ids:
  "buildNode v key path depth c = (node, c') \<Longrightarrow>
     c < c' \<and> map n_id (preorder node) = [c..<c'] \<and> n_totalNodes node = c' - c"
  "buildItems vs i path depth c = (nodes, c') \<Longrightarrow>
     c \<le> c' \<and> map n_id (preorders nodes) = [c..<c'] \<and> sum_list (map n_totalNodes nodes) = c' - c"
  "buildEntries es path depth c = (nodes, c') \<Longrightarrow>
     c \<le> c' \<and> map n_id (preorders nodes) = [c..<c'] \<and> sum_list (map n_totalNodes nodes) = c' - c"
proof (induction v key path depth c and vs i path depth c and es path depth c
    arbitrary: node c' and nodes c' and nodes c' rule: buildNode_buildItems_buildEntries.induct)
  case (5 items key path depth counter)
  then obtain children where b: "buildItems items 0 path (depth + 1) (counter + 1) = (children, c')"
    and n: "node = JsonTreeNode counter nt_array path depth key None children (length children) False
      (sum_totals children)"
    by (auto split: prod.splits)
  from "5.IH" [OF b] show ?case
    by (auto simp: n sum_totals_eq map_concat comp_def upt_conv_Cons simp del: upt_Suc)
next
  case (6 entries key path depth counter)
  then obtain children where b: "buildEntries entries path (depth + 1) (counter + 1) = (children, c')"
    and n: "node = JsonTreeNode counter nt_object path depth key None children (length children) False
      (sum_totals children)"
    by (auto split: prod.splits)
  from "6.IH" [OF b] show ?case
    by (auto simp: n sum_totals_eq map_concat comp_def upt_conv_Cons simp del: upt_Suc)
next
  case (8 v vs i path depth counter)
  then obtain nd c1 ns where b: "buildNode v None (path @ [seg_index i]) depth counter = (nd, c1)"
    "buildItems vs (i + 1) path depth c1 = (ns, c')" "nodes = nd # ns"
    by (auto split: prod.splits)
  from "8.IH"(1) [OF b(1)] "8.IH"(2) [OF b(1) [symmetric] refl b(2)] show ?case
    by (auto simp: b(3) upt_join simp del: upt_Suc)
next
  case (10 k v es path depth counter)
  then obtain nd c1 ns where b: "buildNode v (Some k) (path @ [seg_key k]) depth counter = (nd, c1)"
    "buildEntries es path depth c1 = (ns, c')" "nodes = nd # ns"
    by (auto split: prod.splits)
  from "10.IH"(1) [OF b(1)] "10.IH"(2) [OF b(1) [symmetric] refl b(2)] show ?case
    by (auto simp: b(3) upt_join simp del: upt_Suc)
qed auto


lemma buildJsonTree_ids:
  "map n_id (preorder (buildJsonTree v)) = [0..<n_totalNodes (buildJsonTree v)]"
proof -
  obtain node c where b: "buildNode v None [] 0 0 = (node, c)" by fastforce
  from build_ids(1) [OF b] show ?thesis by (simp add: buildJsonTree_def b)
qed

lemma build_forest_ids:
  "\<exists>k. map n_id (preorders (build_forest_from vs c)) = [c..<k] \<and> c \<le> k"
proof (induction vs arbitrary: c)
  case (Cons v vs)
  obtain node c1 where b: "buildNode v None [] 0 c = (node, c1)" by fastforce
  obtain k where k: "map n_id (preorders (build_forest_from vs c1)) = [c1..<k]" "c1 \<le> k"
    using Cons by blast
  from build_ids(1) [OF b] k show ?case
    by (intro exI [of _ k]) (auto simp: b upt_join simp del: upt_Suc)
next
  case Nil
  show ?case by (intro exI [of _ c]) simp
qed

section \<open>Values\<close>

text \<open>
  The values \<open>JSON.parse\<close> returns have distinct keys; \<open>no_proto\<close> excludes entries named
  \<open>__proto__\<close>.
\<close>

fun json_distinct :: "JsonValue \<Rightarrow> bool" where
  "json_distinct (JArray vs) = list_all json_distinct vs"
| "json_distinct (JObject es) = (distinct (map fst es) \<and> list_all (\<lambda>(k, v). json_distinct v) es)"
| "json_distinct v = True"

fun no_proto :: "JsonValue \<Rightarrow> bool" where
  "no_proto (JArray vs) = list_all no_proto vs"
| "no_proto (JObject es) = list_all (\<lambda>(k, v). k \<noteq> ''__proto__'' \<and> no_proto v) es"
| "no_proto v = True"

lemma update_entry_new: "k \<notin> set (map fst es) \<Longrightarrow> update_entry es k v = es @ [(k, v)]"
  by (induction es k v rule: update_entry.induct) auto

lemma set_properties_distinct:
  "distinct (map fst (obj @ es)) \<Longrightarrow> ''__proto__'' \<notin> set (map fst es) \<Longrightarrow>
   foldl (\<lambda>obj (k, v). set_property obj k v) obj es = obj @ es"
proof (induction es arbitrary: obj)
  case (Cons e es)
  obtain k v where e: "e = (k, v)" by fastforce
  have "set_property obj k v = obj @ [(k, v)]"
    using Cons.prems e by (auto simp: set_property_def intro!: update_entry_new)
  then show ?case using Cons.IH [of "obj @ [(k, v)]"] Cons.prems e by auto
qed simp

definition child_entry :: "JsonTreeNode \<Rightarrow> string \<times> JsonValue" where
  "child_entry child = (case n_key child of Some k \<Rightarrow> k | None \<Rightarrow> [], nodeToValue child)"

lemma build_key: "n_key (fst (buildNode v key path depth c)) = key"
  by (cases v) (auto split: prod.split)

lemma build_value:
  "buildNode v key path depth c = (node, c') \<Longrightarrow> json_distinct v \<Longrightarrow> no_proto v \<Longrightarrow> nodeToValue node = v"
  "buildItems vs i path depth c = (nodes, c') \<Longrightarrow> list_all json_distinct vs \<Longrightarrow> list_all no_proto vs \<Longrightarrow>
     map nodeToValue nodes = vs"
  "buildEntries es path depth c = (nodes, c') \<Longrightarrow> list_all (\<lambda>(k, v). json_distinct v) es \<Longrightarrow>
     list_all (\<lambda>(k, v). no_proto v) es \<Longrightarrow> map child_entry nodes = es"
proof (induction v key path depth c and vs i path depth c and es path depth c
    arbitrary: node c' and nodes c' and nodes c' rule: buildNode_buildItems_buildEntries.induct)
  case (6 entries key path depth counter)
  then obtain children where b: "buildEntries entries path (depth + 1) (counter + 1) = (children, c')"
    and n: "node = JsonTreeNode counter nt_object path depth key None children (length children) False
      (sum_totals children)"
    by (auto split: prod.splits)
  have "list_all (\<lambda>(k, v). no_proto v) entries" "''__proto__'' \<notin> set (map fst entries)"
    using "6.prems"(3) by (auto simp: list_all_iff)
  moreover from this have "map child_entry children = entries"
    using "6.IH" [OF b] "6.prems"(2) by simp
  ultimately show ?case
    using "6.prems"(2) set_properties_distinct [of "[]" entries]
    by (simp add: n child_entry_def [symmetric])
next
  case (10 k v es path depth counter)
  then obtain nd c1 ns where b: "buildNode v (Some k) (path @ [seg_key k]) depth counter = (nd, c1)"
    "buildEntries es path depth c1 = (ns, c')" "nodes = nd # ns"
    by (auto split: prod.splits)
  have "n_key nd = Some k" using build_key [of v "Some k" "path @ [seg_key k]" depth counter] b(1) by simp
  with "10.IH"(1) [OF b(1)] "10.IH"(2) [OF b(1) [symmetric] refl b(2)] "10.prems" show ?case
    by (simp add: b(3) child_entry_def)
qed (auto split: prod.splits)

section \<open>Paths lead to values\<close>

fun json_at :: "JsonValue \<Rightarrow> PathSegment list \<Rightarrow> JsonValue option" where
  "json_at v [] = Some v"
| "json_at (JArray vs) (seg_index i # p) = (if i < length vs then json_at (vs ! i) p else None)"
| "json_at (JObject es) (seg_key k # p) = (case map_of es k of None \<Rightarrow> None | Some v \<Rightarrow> json_at v p)"
| "json_at v p = None"

text \<open>A node of the tree of \<open>v\<close>, whose root has path \<open>path\<close> and depth \<open>depth\<close>.\<close>

definition addresses :: "JsonValue \<Rightarrow> PathSegment list \<Rightarrow> nat \<Rightarrow> JsonTreeNode \<Rightarrow> bool" where
  "addresses v path depth n \<longleftrightarrow>
     (\<exists>q. n_path n = path @ q \<and> n_depth n = depth + length q \<and> json_at v q = Some (nodeToValue n))"

lemma addressesI:
  "n_path n = path @ q \<Longrightarrow> n_depth n = depth + length q \<Longrightarrow> json_at v q = Some (nodeToValue n) \<Longrightarrow>
   addresses v path depth n"
  by (auto simp: addresses_def)

lemma build_root:
  "buildNode v key path depth c = (node, c') \<Longrightarrow> n_path node = path \<and> n_depth node = depth"
  by (cases v) (auto split: prod.splits)

lemma preorder_root: "preorder n = n # preorders (n_children n)"
  by (cases n) simp

text \<open>A node below an item or an entry, seen from the container.\<close>

lemma addresses_item:
  assumes "j < length items" "addresses (items ! j) (path @ [seg_index j]) (Suc depth) m"
  shows "addresses (JArray items) path depth m"
proof -
  obtain q where "n_path m = path @ seg_index j # q" "n_depth m = depth + Suc (length q)"
    "json_at (items ! j) q = Some (nodeToValue m)"
    using assms(2) by (auto simp: addresses_def)
  then show ?thesis using assms(1) by (intro addressesI [of _ _ "seg_index j # q"]) simp_all
qed

lemma addresses_entry:
  assumes "addresses w (path @ [seg_key k]) (depth + 1) m" "map_of entries k = Some w"
  shows "addresses (JObject entries) path depth m"
proof -
  obtain q where "n_path m = path @ seg_key k # q" "n_depth m = depth + Suc (length q)"
    "json_at w q = Some (nodeToValue m)"
    using assms(1) by (auto simp: addresses_def)
  then show ?thesis using assms(2) by (intro addressesI [of _ _ "seg_key k # q"]) simp_all
qed

lemma addresses_items:
  assumes "\<forall>m\<in>M. \<exists>j<length items. addresses (items ! j) (path @ [seg_index j]) (Suc depth) m"
  shows "\<forall>m\<in>M. addresses (JArray items) path depth m"
  using assms addresses_item by blast

lemma addresses_entries:
  assumes "\<forall>m\<in>M. \<exists>(k, v)\<in>set entries. addresses v (path @ [seg_key k]) (depth + 1) m"
    and "distinct (map fst entries)"
  shows "\<forall>m\<in>M. addresses (JObject entries) path depth m"
proof
  fix m assume "m \<in> M"
  from bspec [OF assms(1) this] obtain k w where
    k: "(k, w) \<in> set entries" "addresses w (path @ [seg_key k]) (depth + 1) m"
    by blast
  from map_of_is_SomeI [OF assms(2) k(1)] show "addresses (JObject entries) path depth m"
    by (rule addresses_entry [OF k(2)])
qed

text \<open>The items after the first one are numbered from one further.\<close>

lemma addresses_items_Cons:
  assumes "\<forall>n\<in>A. addresses v (path @ [seg_index i]) depth n"
    and "\<forall>n\<in>B. \<exists>j<length vs. addresses (vs ! j) (path @ [seg_index (i + 1 + j)]) depth n"
  shows "\<forall>n\<in>A \<union> B. \<exists>j<length (v # vs). addresses ((v # vs) ! j) (path @ [seg_index (i + j)]) depth n"
proof
  fix n assume "n \<in> A \<union> B"
  then consider "n \<in> A" | "n \<in> B" by blast
  then show "\<exists>j<length (v # vs). addresses ((v # vs) ! j) (path @ [seg_index (i + j)]) depth n"
  proof cases
    case 1
    with assms(1) show ?thesis by (intro exI [of _ 0]) simp
  next
    case 2
    with assms(2) obtain j where "j < length vs" "addresses (vs ! j) (path @ [seg_index (i + 1 + j)]) depth n"
      by blast
    then show ?thesis by (intro exI [of _ "Suc j"]) simp
  qed
qed

lemma build_addresses:
  "buildNode v key path depth c = (node, c') \<Longrightarrow> json_distinct v \<Longrightarrow> no_proto v \<Longrightarrow>
     \<forall>n\<in>set (preorder node). addresses v path depth n"
  "buildItems vs i path depth c = (nodes, c') \<Longrightarrow> list_all json_distinct vs \<Longrightarrow> list_all no_proto vs \<Longrightarrow>
     \<forall>n\<in>set (preorders nodes). \<exists>j<length vs. addresses (vs ! j) (path @ [seg_index (i + j)]) depth n"
  "buildEntries es path depth c = (nodes, c') \<Longrightarrow> list_all (\<lambda>(k, v). json_distinct v) es \<Longrightarrow>
     list_all (\<lambda>(k, v). no_proto v) es \<Longrightarrow>
     \<forall>n\<in>set (preorders nodes). \<exists>(k, v)\<in>set es. addresses v (path @ [seg_key k]) depth n"
proof (induction v key path depth c and vs i path depth c and es path depth c
    arbitrary: node c' and nodes c' and nodes c' rule: buildNode_buildItems_buildEntries.induct)
  case (5 items key path depth counter)
  then obtain children where b: "buildItems items 0 path (depth + 1) (counter + 1) = (children, c')"
    and n: "n_children node = children"
    by (auto split: prod.splits)
  have root: "addresses (JArray items) path depth node"
    using build_value(1) [OF "5.prems"(1)] build_root [OF "5.prems"(1)] "5.prems"
    by (intro addressesI [of _ _ "[]"]) simp_all
  have "\<forall>m\<in>set (preorders children). addresses (JArray items) path depth m"
    using "5.IH" [OF b] "5.prems" by (intro addresses_items) simp
  with root show ?case by (simp add: preorder_root [of node] n)
next
  case (6 entries key path depth counter)
  then obtain children where b: "buildEntries entries path (depth + 1) (counter + 1) = (children, c')"
    and n: "n_children node = children"
    by (auto split: prod.splits)
  have root: "addresses (JObject entries) path depth node"
    using build_value(1) [OF "6.prems"(1)] build_root [OF "6.prems"(1)] "6.prems"
    by (intro addressesI [of _ _ "[]"]) simp_all
  have "list_all (\<lambda>(k, v). no_proto v) entries" using "6.prems"(3) by (auto simp: list_all_iff)
  then have "\<forall>m\<in>set (preorders children). \<exists>(k, v)\<in>set entries. addresses v (path @ [seg_key k]) (depth + 1) m"
    using "6.IH" [OF b] "6.prems"(2) by simp
  from addresses_entries [OF this] "6.prems"(2)
  have "\<forall>m\<in>set (preorders children). addresses (JObject entries) path depth m" by simp
  with root show ?case by (simp add: preorder_root [of node] n)
next
  case (8 v vs i path depth counter)
  then obtain nd c1 ns where b: "buildNode v None (path @ [seg_index i]) depth counter = (nd, c1)"
    "buildItems vs (i + 1) path depth c1 = (ns, c')" "nodes = nd # ns"
    by (auto split: prod.splits)
  have "\<forall>n\<in>set (preorder nd). addresses v (path @ [seg_index i]) depth n"
    using "8.IH"(1) [OF b(1)] "8.prems" by simp
  moreover have "\<forall>n\<in>set (preorders ns). \<exists>j<length vs. addresses (vs ! j) (path @ [seg_index (i + 1 + j)]) depth n"
    using "8.IH"(2) [OF b(1) [symmetric] refl b(2)] "8.prems" by simp
  ultimately have "\<forall>n\<in>set (preorder nd) \<union> set (preorders ns).
      \<exists>j<length (v # vs). addresses ((v # vs) ! j) (path @ [seg_index (i + j)]) depth n"
    by (rule addresses_items_Cons)
  then show ?case unfolding b(3) by simp
next
  case (10 k v es path depth counter)
  then obtain nd c1 ns where b: "buildNode v (Some k) (path @ [seg_key k]) depth counter = (nd, c1)"
    "buildEntries es path depth c1 = (ns, c')" "nodes = nd # ns"
    by (auto split: prod.splits)
  from "10.IH"(1) [OF b(1)] "10.IH"(2) [OF b(1) [symmetric] refl b(2)] "10.prems" show ?case
    by (auto simp: b(3))
qed (auto intro!: addressesI [where q = "[]"])


text \<open>The type of a value, and the key a path ends in.\<close>

fun json_type :: "JsonValue \<Rightarrow> JsonNodeType" where
  "json_type JNull = nt_null"
| "json_type (JBool b) = nt_boolean"
| "json_type (JNumber n) = nt_number"
| "json_type (JString s) = nt_string"
| "json_type (JArray vs) = nt_array"
| "json_type (JObject es) = nt_object"

definition path_key :: "PathSegment list \<Rightarrow> string option" where
  "path_key path = (if path = [] then None else case last path of seg_key k \<Rightarrow> Some k | seg_index i \<Rightarrow> None)"

lemma path_key_simps [simp]:
  "path_key [] = None" "path_key (path @ [seg_key k]) = Some k" "path_key (path @ [seg_index i]) = None"
  by (simp_all add: path_key_def)

definition described :: "JsonTreeNode \<Rightarrow> bool" where
  "described m \<longleftrightarrow> n_key m = path_key (n_path m) \<and> n_type m = json_type (nodeToValue m)"

lemma described_simps [simp]:
  "described (JsonTreeNode i nt_array p d k w cs cc tr n) \<longleftrightarrow> k = path_key p"
  "described (JsonTreeNode i nt_object p d k w cs cc tr n) \<longleftrightarrow> k = path_key p"
  "ty \<noteq> nt_array \<Longrightarrow> ty \<noteq> nt_object \<Longrightarrow>
   described (JsonTreeNode i ty p d k (Some v) cs cc tr n) \<longleftrightarrow> k = path_key p \<and> ty = json_type v"
  by (simp_all add: described_def)

lemma build_described:
  "buildNode v key path depth c = (node, c') \<Longrightarrow> key = path_key path \<Longrightarrow> \<forall>m\<in>set (preorder node). described m"
  "buildItems vs i path depth c = (nodes, c') \<Longrightarrow> \<forall>m\<in>set (preorders nodes). described m"
  "buildEntries es path depth c = (nodes, c') \<Longrightarrow> \<forall>m\<in>set (preorders nodes). described m"
proof (induction v key path depth c and vs i path depth c and es path depth c
    arbitrary: node c' and nodes c' and nodes c' rule: buildNode_buildItems_buildEntries.induct)
  case (5 items key path depth counter)
  from "5.prems"(1) obtain children where b: "buildItems items 0 path (depth + 1) (counter + 1) = (children, c')"
    and n: "node = JsonTreeNode counter nt_array path depth key None children (length children) False
      (sum_totals children)"
    by (auto split: prod.splits)
  from "5.IH" [OF b] "5.prems"(2) show ?case by (simp add: n)
next
  case (6 entries key path depth counter)
  from "6.prems"(1) obtain children where b: "buildEntries entries path (depth + 1) (counter + 1) = (children, c')"
    and n: "node = JsonTreeNode counter nt_object path depth key None children (length children) False
      (sum_totals children)"
    by (auto split: prod.splits)
  from "6.IH" [OF b] "6.prems"(2) show ?case by (simp add: n)
next
  case (8 v vs i path depth counter)
  from "8.prems" obtain nd c1 ns where b: "buildNode v None (path @ [seg_index i]) depth counter = (nd, c1)"
    "buildItems vs (i + 1) path depth c1 = (ns, c')" "nodes = nd # ns"
    by (auto split: prod.splits)
  from "8.IH"(1) [OF b(1)] "8.IH"(2) [OF b(1) [symmetric] refl b(2)] show ?case by (simp add: b(3) ball_Un)
next
  case (10 k v es path depth counter)
  from "10.prems" obtain nd c1 ns where b: "buildNode v (Some k) (path @ [seg_key k]) depth counter = (nd, c1)"
    "buildEntries es path depth c1 = (ns, c')" "nodes = nd # ns"
    by (auto split: prod.splits)
  from "10.IH"(1) [OF b(1)] "10.IH"(2) [OF b(1) [symmetric] refl b(2)] show ?case by (simp add: b(3) ball_Un)
qed auto


section \<open>Formatted paths are unambiguous\<close>

lemma charCode_simps: "charCode (CHR 0x5C) = 92" "charCode (CHR 0x22) = 34"
  by (simp_all add: charCode_def)

definition json_special :: "char \<Rightarrow> bool" where
  "json_special c \<longleftrightarrow> charCode c = 34 \<or> charCode c = 92 \<or> charCode c < 32"

lemma json_escape_plain: "\<not> json_special c \<Longrightarrow> json_escape c = [c]"
  by (simp add: json_special_def json_escape_def Let_def)

lemma json_escape_special: "json_special c \<Longrightarrow> hd (json_escape c) = CHR 0x5C"
  by (auto simp: json_special_def json_escape_def Let_def)

lemma json_escape_34: "charCode c = 34 \<Longrightarrow> json_escape c = [CHR 0x5C, CHR 0x22]"
  and json_escape_92: "charCode c = 92 \<Longrightarrow> json_escape c = [CHR 0x5C, CHR 0x5C]"
  by (simp_all add: json_escape_def Let_def)

lemma json_escape_low:
  "charCode c < 32 \<Longrightarrow> \<exists>x y. json_escape c = CHR 0x5C # x # y \<and> x \<noteq> CHR 0x22 \<and> x \<noteq> CHR 0x5C"
  by (simp add: json_escape_def Let_def)

lemma json_escape_not_Nil [simp]: "json_escape c \<noteq> []"
  by (simp add: json_escape_def Let_def)

lemma json_escape_hd: "hd (json_escape c) \<noteq> CHR 0x22"
proof (cases "json_special c")
  case True
  then show ?thesis by (simp add: json_escape_special)
next
  case False
  then show ?thesis using charCode_simps(2) by (auto simp: json_escape_plain json_special_def)
qed

text \<open>Reading back the escape of a control character.\<close>

fun json_unescape :: "string \<Rightarrow> nat \<times> string" where
  "json_unescape (a # x # r) =
     (if x = CHR ''b'' then (8, r) else if x = CHR ''t'' then (9, r) else if x = CHR ''n'' then (10, r)
      else if x = CHR ''f'' then (12, r) else if x = CHR ''r'' then (13, r)
      else (case r of y # z # p # q # r' \<Rightarrow> (digit_value p * 16 + digit_value q, r') | _ \<Rightarrow> (0, r)))"
| "json_unescape s = (0, s)"

lemma json_unescape_low: "charCode c < 32 \<Longrightarrow> json_unescape (json_escape c @ r) = (charCode c, r)"
proof -
  assume low: "charCode c < 32"
  let ?n = "charCode c"
  show ?thesis
  proof (cases "?n \<in> {8, 9, 10, 12, 13}")
    case True
    then show ?thesis by (elim insertE) (simp_all add: json_escape_def)
  next
    case False
    define p q where "p = digit_char (?n div 16)" and "q = digit_char (?n mod 16)"
    have esc: "json_escape c = [CHR 0x5C, CHR ''u'', CHR ''0'', CHR ''0'', p, q]"
      using False low by (simp add: json_escape_def Let_def p_def q_def)
    have "digit_value p * 16 + digit_value q = ?n div 16 * 16 + ?n mod 16"
      using low unfolding p_def q_def by (subst (1 2) digit_value_char) simp_all
    then have v: "digit_value p * 16 + digit_value q = ?n" by (simp only: div_mult_mod_eq)
    have "json_unescape (json_escape c @ r) = (digit_value p * 16 + digit_value q, r)"
      unfolding esc by simp
    then show ?thesis by (simp only: v)
  qed
qed

lemma json_escape_inject: "json_escape c @ r = json_escape d @ s \<longleftrightarrow> c = d \<and> r = s"
proof
  assume e: "json_escape c @ r = json_escape d @ s"
  show "c = d \<and> r = s"
  proof (cases "charCode c < 32 \<and> charCode d < 32")
    case True
    then have "json_unescape (json_escape c @ r) = (charCode c, r)"
      "json_unescape (json_escape d @ s) = (charCode d, s)"
      by (simp_all only: json_unescape_low)
    then have "(charCode c, r) = (charCode d, s)" unfolding e by (rule trans [OF sym])
    then show ?thesis by simp
  next
    case low: False
    show ?thesis
    proof (cases "json_special c")
      case c: True
      then have h: "hd (json_escape d @ s) = CHR 0x5C" using e json_escape_special [of c] by (metis hd_append2 json_escape_not_Nil)
      have d: "json_special d"
      proof (rule ccontr)
        assume d: "\<not> json_special d"
        with h have "d = CHR 0x5C" by (simp add: json_escape_plain)
        with d charCode_simps show False by (simp add: json_special_def)
      qed
      have "charCode c = charCode d"
        using e c d low json_escape_low [of c] json_escape_low [of d]
        by (auto simp: json_special_def json_escape_34 json_escape_92 simp del: charCode_inject)
      then show ?thesis using e by simp
    next
      case c: False
      then have ec: "json_escape c = [c]" by (simp add: json_escape_plain)
      then have "hd (json_escape d @ s) = c" using e by (metis append_Cons list.sel(1))
      then have "\<not> json_special d"
        using c json_escape_special [of d] charCode_simps by (auto simp: json_special_def)
      then show ?thesis using e ec by (simp add: json_escape_plain)
    qed
  qed
qed simp

lemma json_quote_inject: "json_quote a @ r = json_quote b @ s \<longleftrightarrow> a = b \<and> r = s"
proof -
  have "concat (map json_escape a) @ CHR 0x22 # r = concat (map json_escape b) @ CHR 0x22 # s \<Longrightarrow> a = b \<and> r = s"
  proof (induction a arbitrary: b)
    case Nil
    show ?case
    proof (cases b)
      case (Cons d b')
      have "CHR 0x22 # y \<noteq> json_escape d @ x" for x y
        using json_escape_hd [of d] by (metis hd_append2 json_escape_not_Nil list.sel(1))
      then show ?thesis using Nil Cons by auto
    qed (use Nil in simp)
  next
    case (Cons c a)
    show ?case
    proof (cases b)
      case Nil
      then show ?thesis using Cons.prems json_escape_hd [of c] by (auto simp: append_eq_Cons_conv)
    next
      case (Cons d b')
      with Cons.prems have "json_escape c @ (concat (map json_escape a) @ CHR 0x22 # r)
          = json_escape d @ (concat (map json_escape b') @ CHR 0x22 # s)" by simp
      then show ?thesis using Cons Cons.IH [of b'] by (simp add: json_escape_inject)
    qed
  qed
  then show ?thesis by (auto simp: json_quote_def)
qed

text \<open>What can follow a segment: nothing, or the start of another one.\<close>

definition path_tail :: "string \<Rightarrow> bool" where
  "path_tail r \<longleftrightarrow> r = [] \<or> hd r = CHR ''.'' \<or> hd r = CHR ''[''"

lemma path_segment_text_tail [simp]: "path_tail (path_segment_text s @ r)"
  by (auto simp: path_tail_def path_segment_text_def split: PathSegment.split)

lemma path_segment_text_not_Nil [simp]: "path_segment_text s \<noteq> []"
  by (auto simp: path_segment_text_def split: PathSegment.split)

lemma identifier_takeWhile: "is_identifier k \<Longrightarrow> path_tail r \<Longrightarrow> takeWhile is_ident_char (k @ r) = k"
proof -
  assume k: "is_identifier k" "path_tail r"
  have "\<not> is_ident_char (CHR ''.'')" "\<not> is_ident_char (CHR ''['')"
    by (simp_all add: is_ident_char_def is_ident_start_def charCode_def Let_def)
  then have "takeWhile is_ident_char r = []"
    using k(2) by (cases r) (auto simp: path_tail_def)
  moreover have "\<forall>c\<in>set k. is_ident_char c"
    using k(1) by (auto simp: is_identifier_def is_ident_char_def Let_def list_all_iff split: list.splits)
  ultimately show ?thesis by (simp add: takeWhile_append2)
qed

lemma showNat_no_bracket: "CHR '']'' \<notin> set (showNat i)" "hd (showNat i) \<noteq> CHR 0x22"
proof -
  have "charCode (CHR '']'') = 93" "charCode (CHR 0x22) = 34" by (simp_all add: charCode_def)
  then show "CHR '']'' \<notin> set (showNat i)" "hd (showNat i) \<noteq> CHR 0x22"
    using showNat_digits [of _ i] hd_in_set [OF showNat_not_Nil, of i] by fastforce+
qed

lemma showNat_no_quote: "showNat i @ x \<noteq> CHR 0x22 # y"
  using showNat_no_bracket(2) [of i] by (metis hd_append2 list.sel(1) showNat_not_Nil)

lemma path_segment_inject:
  assumes "path_segment_text s @ r = path_segment_text t @ q" "path_tail r" "path_tail q"
  shows "s = t \<and> r = q"
proof (cases s)
  case s: (seg_index i)
  show ?thesis
  proof (cases t)
    case (seg_index j)
    with assms(1) s have "showNat i @ CHR '']'' # r = showNat j @ CHR '']'' # q"
      by (simp add: path_segment_text_def)
    then show ?thesis
      using s seg_index by (simp add: append_sep_inject showNat_no_bracket)
  next
    case (seg_key k)
    then show ?thesis
      using assms(1) s seg_key showNat_no_quote [of i]
      by (auto simp: path_segment_text_def json_quote_def split: if_splits)
  qed
next
  case s: (seg_key k)
  show ?thesis
  proof (cases t)
    case (seg_index j)
    then show ?thesis
      using assms(1) s seg_index showNat_no_quote [of j, THEN not_sym]
      by (auto simp: path_segment_text_def json_quote_def split: if_splits)
  next
    case t: (seg_key l)
    consider "is_identifier k" "is_identifier l" | "\<not> is_identifier k" "\<not> is_identifier l"
      using assms(1) s t by (auto simp: path_segment_text_def split: if_splits)
    then show ?thesis
    proof cases
      case 1
      then have "k @ r = l @ q" using assms(1) s t by (simp add: path_segment_text_def)
      with 1 assms(2,3) have "k = l" by (metis identifier_takeWhile)
      with \<open>k @ r = l @ q\<close> s t show ?thesis by simp
    next
      case 2
      then have "json_quote k @ ('']'' @ r) = json_quote l @ ('']'' @ q)"
        using assms(1) s t by (simp add: path_segment_text_def)
      then show ?thesis using s t by (simp only: json_quote_inject) simp
    qed
  qed
qed

lemma formatPath_eq: "formatPath p = ''$'' @ concat (map path_segment_text p)"
proof -
  have "foldl (\<lambda>out seg. out @ path_segment_text seg) a p = a @ concat (map path_segment_text p)" for a
    by (induction p arbitrary: a) simp_all
  then show ?thesis by (simp add: formatPath_def)
qed

lemma segments_tail: "path_tail (concat (map path_segment_text p))"
  by (cases p) (simp_all add: path_tail_def [of "[]"])

lemma segments_inject: "concat (map path_segment_text p) = concat (map path_segment_text q) \<Longrightarrow> p = q"
proof (induction p arbitrary: q)
  case Nil
  then show ?case by (cases q) simp_all
next
  case (Cons s p)
  show ?case
  proof (cases q)
    case Nil
    then show ?thesis using Cons.prems by simp
  next
    case (Cons t q')
    with Cons.prems have "path_segment_text s @ concat (map path_segment_text p)
        = path_segment_text t @ concat (map path_segment_text q')" by simp
    from path_segment_inject [OF this segments_tail segments_tail] Cons Cons.IH show ?thesis by simp
  qed
qed


section \<open>The marked node\<close>

text \<open>What every node has as it is built.\<close>

lemma build_all:
  assumes "\<And>i ty p d k v. Q (JsonTreeNode i ty p d k (Some v) [] 0 False 1)"
    and "\<And>i p d k cs t. Q (JsonTreeNode i nt_array p d k None cs (length cs) False t)"
    and "\<And>i p d k cs t. Q (JsonTreeNode i nt_object p d k None cs (length cs) False t)"
  shows
    "buildNode v key path depth c = (node, c') \<Longrightarrow> \<forall>m\<in>set (preorder node). Q m"
    "buildItems vs i path depth c = (nodes, c') \<Longrightarrow> \<forall>m\<in>set (preorders nodes). Q m"
    "buildEntries es path depth c = (nodes, c') \<Longrightarrow> \<forall>m\<in>set (preorders nodes). Q m"
  by (induction v key path depth c and vs i path depth c and es path depth c
    arbitrary: node c' and nodes c' and nodes c' rule: buildNode_buildItems_buildEntries.induct)
     (auto simp: assms assms(1) [unfolded One_nat_def] split: prod.splits)

lemma buildJsonTree_all:
  assumes "\<And>i ty p d k v. Q (JsonTreeNode i ty p d k (Some v) [] 0 False 1)"
    and "\<And>i p d k cs t. Q (JsonTreeNode i nt_array p d k None cs (length cs) False t)"
    and "\<And>i p d k cs t. Q (JsonTreeNode i nt_object p d k None cs (length cs) False t)"
  shows "\<forall>m\<in>set (preorder (buildJsonTree v)). Q m"
proof -
  obtain node c where b: "buildNode v None [] 0 0 = (node, c)" by fastforce
  from build_all(1) [where Q = Q, OF assms b] show ?thesis by (simp add: buildJsonTree_def b)
qed

lemma mark_same_value: "nodeToValue (fst (markTruncationPoint n)) = nodeToValue n \<and> n_key (fst (markTruncationPoint n)) = n_key n"
proof (induction n rule: markTruncationPoint.induct)
  case (1 i ty path depth key val children cc trunc total_nodes)
  show ?case
  proof (cases "children = []")
    case False
    obtain child ids where m: "markTruncationPoint (last children) = (child, ids)" by fastforce
    then have c: "nodeToValue child = nodeToValue (last children)" "n_key child = n_key (last children)"
      using "1.IH" [OF False] by simp_all
    have swap: "f child = f (last children) \<Longrightarrow> map f (butlast children @ [child]) = map f children"
      for f :: "JsonTreeNode \<Rightarrow> 'x"
      using arg_cong [OF append_butlast_last_id [OF False], of "map f"] by simp
    have "map nodeToValue (butlast children @ [child]) = map nodeToValue children"
      using c by (intro swap)
    moreover have "map child_entry (butlast children @ [child]) = map child_entry children"
      using c by (intro swap) (simp add: child_entry_def)
    ultimately show ?thesis
      using False m by (simp add: child_entry_def [symmetric] del: map_append)
  qed simp
qed

lemma filter_none: "filter P xs = [] \<longleftrightarrow> (\<forall>x\<in>set xs. \<not> P x)"
  by (simp add: filter_empty_conv)

lemma marked_containers:
  assumes "children \<noteq> []"
    and "set ids \<subseteq> {n_id m | m. m \<in> set (preorder (last children)) \<and> n_children m \<noteq> []}"
    and "set (preorder (last children)) \<subseteq> set (preorder n)" "n_children n = children"
  shows "set (n_id n # ids) \<subseteq> {n_id m | m. m \<in> set (preorder n) \<and> n_children m \<noteq> []}"
proof -
  have "n \<in> set (preorder n)" by (simp add: preorder_root [of n])
  then show ?thesis using assms by auto
qed

lemma mark_spec:
  "\<forall>m\<in>set (preorder n). \<not> n_truncated m \<Longrightarrow>
   map n_id (preorder (fst (markTruncationPoint n))) = map n_id (preorder n)
   \<and> (\<exists>m. filter n_truncated (preorder (fst (markTruncationPoint n))) = [m] \<and> n_children m = []
        \<and> m = last (preorder (fst (markTruncationPoint n))))
   \<and> set (snd (markTruncationPoint n)) \<subseteq> {n_id m | m. m \<in> set (preorder n) \<and> n_children m \<noteq> []}"
proof (induction n rule: markTruncationPoint.induct)
  case (1 i ty path depth key val children cc trunc total_nodes)
  show ?case
  proof (cases "children = []")
    case True
    then show ?thesis by simp
  next
    case False
    obtain child ids where m: "markTruncationPoint (last children) = (child, ids)" by fastforce
    have sp: "preorders children = preorders (butlast children) @ preorder (last children)"
      using arg_cong [OF append_butlast_last_id [OF False], of preorders] by simp
    have "\<forall>m\<in>set (preorder (last children)). \<not> n_truncated m" "\<forall>m\<in>set (preorders (butlast children)). \<not> n_truncated m"
      using "1.prems" sp by (auto simp del: set_concat)
    then have none: "filter n_truncated (preorders (butlast children)) = []" "\<not> trunc"
      and ih: "map n_id (preorder child) = map n_id (preorder (last children))"
        "\<exists>m. filter n_truncated (preorder child) = [m] \<and> n_children m = [] \<and> m = last (preorder child)"
        "set ids \<subseteq> {n_id m | m. m \<in> set (preorder (last children)) \<and> n_children m \<noteq> []}"
      using "1.IH" [OF False] "1.prems" m by (auto simp: filter_none)
    let ?n = "JsonTreeNode i ty path depth key val children cc trunc total_nodes"
    let ?a = "preorders (butlast children)"
    define n' where "n' = JsonTreeNode i ty path depth key val (butlast children @ [child]) cc trunc total_nodes"
    have n': "fst (markTruncationPoint ?n) = n'" "snd (markTruncationPoint ?n) = i # ids"
      using False m by (simp_all add: n'_def)
    have pre: "preorder n' = n' # ?a @ preorder child" "preorder ?n = ?n # ?a @ preorder (last children)"
      using sp by (simp_all add: n'_def)
    have "set (preorder (last children)) \<subseteq> set (preorder ?n)" unfolding pre by auto
    from marked_containers [OF False ih(3) this]
    have A: "set (i # ids) \<subseteq> {n_id m | m. m \<in> set (preorder ?n) \<and> n_children m \<noteq> []}" by simp
    have B: "map n_id (preorder n') = map n_id (preorder ?n)"
      unfolding pre using ih(1) by (simp add: n'_def)
    have "filter n_truncated (preorder n') = filter n_truncated (preorder child)"
      unfolding pre using none by (simp add: n'_def)
    moreover have "last (preorder n') = last (preorder child)"
      unfolding pre by (cases child) simp
    ultimately have C: "\<exists>m. filter n_truncated (preorder n') = [m] \<and> n_children m = [] \<and> m = last (preorder n')"
      using ih(2) by simp
    show ?thesis unfolding n' by (intro conjI A B C)
  qed
qed

section \<open>Properties\<close>

text \<open>
  Property C30. Building a tree numbers its nodes 0, 1, 2, ... in document order and counts them:
  the ids are distinct and \<open>totalNodes\<close> is the size of the tree. In a forest the numbering
  continues from one document to the next.
\<close>

theorem tree_ids_number_nodes:
  "map n_id (preorder (buildJsonTree v)) = [0..<countNodes (buildJsonTree v)]
   \<and> n_totalNodes (buildJsonTree v) = countNodes (buildJsonTree v)
   \<and> (\<exists>k. map n_id (preorders (buildJsonForest vs)) = [0..<k])"
proof -
  have "countNodes (buildJsonTree v) = n_totalNodes (buildJsonTree v)"
    using arg_cong [OF buildJsonTree_ids [of v], of length] by (simp add: length_preorder)
  then show ?thesis
    using buildJsonTree_ids [of v] build_forest_ids [of vs 0] by (auto simp: buildJsonForest_def)
qed

text \<open>
  Property C31. In the tree of a value with distinct keys and no \<open>__proto__\<close> entry, every node's path
  leads from the root to the value that copying the node yields; the node has the type of that
  value, the key its path ends in, and the length of the path as its depth; and copying the root
  gives back the whole value.
\<close>

theorem node_paths_lead_to_values:
  assumes "json_distinct v" "no_proto v"
  shows "nodeToValue (buildJsonTree v) = v \<and>
    (\<forall>n\<in>set (preorder (buildJsonTree v)).
       json_at v (n_path n) = Some (nodeToValue n) \<and> n_type n = json_type (nodeToValue n)
       \<and> n_key n = path_key (n_path n) \<and> n_depth n = length (n_path n))"
proof -
  obtain node c where b: "buildNode v None [] 0 0 = (node, c)" by fastforce
  have "nodeToValue node = v" using build_value(1) [OF b assms] .
  moreover have "\<forall>n\<in>set (preorder node). addresses v [] 0 n" using build_addresses(1) [OF b assms] .
  moreover have "\<forall>n\<in>set (preorder node). described n" using build_described(1) [OF b] by simp
  ultimately show ?thesis by (auto simp: buildJsonTree_def b addresses_def described_def)
qed

definition sample_json :: JsonValue where
  "sample_json = JObject [(''a'', JArray [JNumber ''1'', JNull]), (''b c'', JBool True)]"

theorem node_paths_lead_to_values_witness:
  "nodeToValue (buildJsonTree sample_json) = sample_json"
  using node_paths_lead_to_values [of sample_json] by (simp add: sample_json_def)

text \<open>
  An entry named \<open>__proto__\<close>, which \<open>JSON.parse\<close> does produce, is shown in the tree
  and lost when the object is copied.
\<close>

theorem proto_entry_lost_on_copy:
  assumes "\<forall>(k, v)\<in>set es. k = ''__proto__''"
  shows "nodeToValue (buildJsonTree (JObject es)) = JObject []
    \<and> length (n_children (buildJsonTree (JObject es))) = length es"
proof -
  have keys: "buildEntries xs path d c = (nodes, c') \<Longrightarrow> map n_key nodes = map (Some \<circ> fst) xs"
    for xs path d c nodes c'
  proof (induction xs arbitrary: c nodes c')
    case (Cons e xs)
    obtain k v where e: "e = (k, v)" by fastforce
    obtain nd c1 where n: "buildNode v (Some k) (path @ [seg_key k]) d c = (nd, c1)" by fastforce
    obtain ns c2 where ns: "buildEntries xs path d c1 = (ns, c2)" by fastforce
    from Cons.prems e n ns Cons.IH [OF ns] build_key [of v "Some k" "path @ [seg_key k]" d c]
    show ?case by auto
  qed simp
  obtain nodes c where b: "buildEntries es [] 1 1 = (nodes, c)" by fastforce
  have "foldl (\<lambda>obj (k, v). set_property obj k v) [] xs = []"
    if "\<forall>(k, v)\<in>set xs. k = ''__proto__''" for xs
    using that by (induction xs) (auto simp: set_property_def)
  moreover have "\<forall>(k, v)\<in>set (map child_entry nodes). k = ''__proto__''"
  proof -
    have "set (map n_key nodes) \<subseteq> {Some ''__proto__''}"
      using keys [OF b] assms by (auto simp: case_prod_beta)
    then show ?thesis by (auto simp: child_entry_def)
  qed
  ultimately have "foldl (\<lambda>obj (k, v). set_property obj k v) [] (map child_entry nodes) = []" by blast
  moreover have "length nodes = length es"
    using arg_cong [OF keys [OF b], of length] by simp
  ultimately show ?thesis
    using b by (simp add: buildJsonTree_def child_entry_def [symmetric])
qed

theorem proto_entry_lost_on_copy_witness:
  "nodeToValue (buildJsonTree (JObject [(''__proto__'', JNull)])) = JObject []"
  using proto_entry_lost_on_copy [of "[(''__proto__'', JNull)]"] by simp

text \<open>
  Formatted paths are unambiguous: different paths, with any keys, have different
  texts.
\<close>

theorem formatPath_inject: "formatPath p = formatPath q \<longleftrightarrow> p = q"
  using segments_inject by (auto simp: formatPath_eq)

text \<open>
  Marking the truncation point of a fresh tree flags exactly one node, the last one
  in document order, which has no children; ids and values stay, and the returned ids are
  containers of the tree.
\<close>

theorem truncation_marks_last_node:
  "\<exists>m ids. filter n_truncated (preorder (fst (markTruncationPoint (buildJsonTree v)))) = [m]
   \<and> m = last (preorder (fst (markTruncationPoint (buildJsonTree v)))) \<and> n_children m = []
   \<and> nodeToValue (fst (markTruncationPoint (buildJsonTree v))) = nodeToValue (buildJsonTree v)
   \<and> map n_id (preorder (fst (markTruncationPoint (buildJsonTree v)))) = map n_id (preorder (buildJsonTree v))
   \<and> snd (markTruncationPoint (buildJsonTree v)) = ids
   \<and> set ids \<subseteq> {n_id m | m. m \<in> set (preorder (buildJsonTree v)) \<and> n_children m \<noteq> []}"
proof -
  have "\<forall>m\<in>set (preorder (buildJsonTree v)). \<not> n_truncated m"
    by (rule buildJsonTree_all) simp_all
  from mark_spec [OF this] mark_same_value [of "buildJsonTree v"] show ?thesis by blast
qed

end
