(* ===== verification/Json_Expand.thy ===== *)
theory Json_Expand
  imports Json_Model
begin

text \<open>
  The collapse-by-default heuristics, \<open>components/json-tree/expand.ts\<close>. \<open>Infinity\<close> is \<open>None\<close>
  of a \<open>nat option\<close>; a \<open>Set\<close> of ids is a set, passed and returned where the code mutates it.

  Shown: which containers a tree opens with; the documents of a forest that open stay within the
  byte budget, and an oversized document does not close the ones after it.
\<close>

definition DEFAULT_EXPAND_DEPTH :: nat where
  "DEFAULT_EXPAND_DEPTH = 4"

definition LARGE_CONTAINER_CHILD_COUNT :: nat where
  "LARGE_CONTAINER_CHILD_COUNT = 100"

definition SMALL_TREE_NODE_COUNT :: nat where
  "SMALL_TREE_NODE_COUNT = 50"

definition FOREST_EXPAND_BUDGET :: nat where
  "FOREST_EXPAND_BUDGET = 32768"

record DefaultExpandOptions =
  dx_maxDepth :: "nat option"
  dx_maxChildren :: "nat option"
  dx_smallTreeNodeCount :: "nat option"

definition no_expand_options :: DefaultExpandOptions where
  "no_expand_options = \<lparr>dx_maxDepth = None, dx_maxChildren = None, dx_smallTreeNodeCount = None\<rparr>"

definition or_default :: "nat option \<Rightarrow> nat \<Rightarrow> nat" where
  "or_default x d = (case x of Some n \<Rightarrow> n | None \<Rightarrow> d)"

text \<open>\<open>a <= b\<close> where \<open>b\<close> may be \<open>Infinity\<close>.\<close>

definition le_inf :: "nat \<Rightarrow> nat option \<Rightarrow> bool" where
  "le_inf a b = (case b of None \<Rightarrow> True | Some n \<Rightarrow> a \<le> n)"

definition is_container :: "JsonTreeNode \<Rightarrow> bool" where
  "is_container node \<longleftrightarrow> n_type node = nt_object \<or> n_type node = nt_array"

fun collectExpanded :: "JsonTreeNode \<Rightarrow> nat option \<Rightarrow> nat \<Rightarrow> nat set \<Rightarrow> nat set" where
  "collectExpanded (JsonTreeNode i ty path depth key val children cc trunc total_nodes) maxDepth maxChildren out =
     (if \<not> (ty = nt_object \<or> ty = nt_array) then out
      else if children = [] then out
      else foldl (\<lambda>out child. collectExpanded child maxDepth maxChildren out)
             (if le_inf depth maxDepth \<and> cc \<le> maxChildren then insert i out else out) children)"

definition computeDefaultExpanded :: "JsonTreeNode \<Rightarrow> DefaultExpandOptions \<Rightarrow> nat set" where
  "computeDefaultExpanded rt opts =
     (let maxDepth = or_default (dx_maxDepth opts) DEFAULT_EXPAND_DEPTH;
          maxChildren = or_default (dx_maxChildren opts) LARGE_CONTAINER_CHILD_COUNT;
          smallTreeNodeCount = or_default (dx_smallTreeNodeCount opts) SMALL_TREE_NODE_COUNT;
          effectiveMaxDepth = (if n_totalNodes rt \<le> smallTreeNodeCount then None else Some maxDepth)
      in collectExpanded rt effectiveMaxDepth maxChildren {})"

text \<open>
  The loop over the documents and their sizes; a missing size is \<open>Infinity\<close> (\<open>None\<close>), which
  exceeds every budget.
\<close>

fun forest_expand_loop ::
  "(JsonTreeNode \<times> nat option) list \<Rightarrow> DefaultExpandOptions \<Rightarrow> nat set \<Rightarrow> nat \<Rightarrow> nat set" where
  "forest_expand_loop [] opts expanded budget = expanded"
| "forest_expand_loop ((rt, doc_size) # docs) opts expanded budget =
     (let expanded' = expanded \<union> computeDefaultExpanded rt opts
      in case doc_size of
           None \<Rightarrow> forest_expand_loop docs opts (expanded' - {n_id rt}) budget
         | Some n \<Rightarrow>
             if budget < n then forest_expand_loop docs opts (expanded' - {n_id rt}) budget
             else forest_expand_loop docs opts expanded' (budget - n))"

definition document_size :: "nat list option \<Rightarrow> nat \<Rightarrow> nat option" where
  "document_size sizes i = (case sizes of None \<Rightarrow> None | Some ns \<Rightarrow> if i < length ns then Some (ns ! i) else None)"

definition computeForestDefaultExpanded ::
  "JsonTreeNode list \<Rightarrow> DefaultExpandOptions \<Rightarrow> nat list option \<Rightarrow> nat set" where
  "computeForestDefaultExpanded roots opts documentSizes =
     forest_expand_loop (zip roots (map (document_size documentSizes) [0..<length roots])) opts {} FOREST_EXPAND_BUDGET"

section \<open>What opens\<close>

text \<open>Only containers have children, in every tree the model builds.\<close>

definition containers_only :: "JsonTreeNode \<Rightarrow> bool" where
  "containers_only t \<longleftrightarrow> (\<forall>n\<in>set (preorder t). n_children n \<noteq> [] \<longrightarrow> is_container n)"

lemma containers_only_child:
  "containers_only (JsonTreeNode i ty path depth key val children cc trunc total_nodes) \<Longrightarrow>
   c \<in> set children \<Longrightarrow> containers_only c"
  by (auto simp: containers_only_def)

lemma containers_only_build: "containers_only (buildJsonTree v)"
  unfolding containers_only_def by (rule buildJsonTree_all) (simp_all add: is_container_def)

definition opens :: "nat option \<Rightarrow> nat \<Rightarrow> JsonTreeNode \<Rightarrow> bool" where
  "opens maxDepth maxChildren n \<longleftrightarrow>
     n_children n \<noteq> [] \<and> le_inf (n_depth n) maxDepth \<and> n_childCount n \<le> maxChildren"

lemma collectExpanded_eq:
  "containers_only t \<Longrightarrow>
   collectExpanded t d m out = out \<union> n_id ` set (filter (opens d m) (preorder t))"
proof (induction t d m out rule: collectExpanded.induct)
  case (1 i ty path depth key val children cc trunc total_nodes d m out)
  let ?n = "JsonTreeNode i ty path depth key val children cc trunc total_nodes"
  show ?case
  proof (cases "children = []")
    case True
    then show ?thesis by (auto simp: opens_def)
  next
    case False
    then have c: "ty = nt_object \<or> ty = nt_array"
      using "1.prems" by (simp add: containers_only_def is_container_def)
    let ?S = "\<lambda>cs. n_id ` set (filter (opens d m) (preorders cs))"
    have ih: "collectExpanded child d m o' = o' \<union> n_id ` set (filter (opens d m) (preorder child))"
      if "child \<in> set children" for child o'
      using "1.IH" c False that containers_only_child [OF "1.prems" that] by blast
    have "foldl (\<lambda>out child. collectExpanded child d m out) o' cs = o' \<union> ?S cs"
      if "set cs \<subseteq> set children" for cs o'
      using that by (induction cs arbitrary: o') (simp_all add: ih image_Un Un_assoc)
    from this [of children] c False show ?thesis by (simp add: opens_def)
  qed
qed

section \<open>The budget of a forest\<close>

definition doc_cost :: "nat option \<Rightarrow> nat" where
  "doc_cost s = (case s of None \<Rightarrow> 0 | Some n \<Rightarrow> n)"

lemma compute_default_ids: "containers_only t \<Longrightarrow> computeDefaultExpanded t opts \<subseteq> n_id ` set (preorder t)"
  by (auto simp: computeDefaultExpanded_def collectExpanded_eq Let_def)

text \<open>The documents that open, with distinct ids across the forest, cost at most the budget.\<close>

lemma forest_loop_keeps:
  "i \<notin> set (map n_id (preorders (map fst docs))) \<Longrightarrow> list_all (\<lambda>(t, s). containers_only t) docs \<Longrightarrow>
   i \<in> forest_expand_loop docs opts expanded budget \<longleftrightarrow> i \<in> expanded"
proof (induction docs opts expanded budget rule: forest_expand_loop.induct)
  case (2 rt doc_size docs opts expanded budget)
  then have "i \<notin> computeDefaultExpanded rt opts" "i \<noteq> n_id rt"
    using compute_default_ids [of rt opts] preorder_root [of rt] by auto
  with 2 show ?case by (auto simp: Let_def split: option.split)
qed simp

lemma forest_loop_budget:
  "distinct (map n_id (preorders (map fst docs))) \<Longrightarrow> list_all (\<lambda>(t, s). containers_only t) docs \<Longrightarrow>
   (\<forall>(r, s)\<in>set docs. n_id r \<notin> expanded) \<Longrightarrow>
   sum_list (map (\<lambda>(r, s). if n_id r \<in> forest_expand_loop docs opts expanded budget then doc_cost s else 0) docs) \<le> budget"
proof (induction docs opts expanded budget rule: forest_expand_loop.induct)
  case (2 rt doc_size docs opts expanded budget)
  let ?E = "expanded \<union> computeDefaultExpanded rt opts"
  have dis: "n_id rt \<notin> set (map n_id (preorders (map fst docs)))" "distinct (map n_id (preorders (map fst docs)))"
    "set (map n_id (preorder rt)) \<inter> set (map n_id (preorders (map fst docs))) = {}"
    using "2.prems"(1) preorder_root [of rt] by auto
  have con: "list_all (\<lambda>(t, s). containers_only t) docs" "containers_only rt" using "2.prems"(2) by auto
  have roots: "n_id r \<in> set (map n_id (preorders (map fst docs)))" if "(r, s) \<in> set docs" for r s
    using that preorder_root [of r] by force
  have "computeDefaultExpanded rt opts \<subseteq> set (map n_id (preorder rt))"
    using compute_default_ids [OF con(2)] by auto
  then have fresh: "\<forall>(r, s)\<in>set docs. n_id r \<notin> ?E" "\<forall>(r, s)\<in>set docs. n_id r \<notin> ?E - {n_id rt}"
    using "2.prems"(3) roots dis(3) by fastforce+
  note keep = forest_loop_keeps [OF dis(1) con(1)]
  show ?case
  proof (cases doc_size)
    case None
    then show ?thesis
      using "2.IH"(1) [OF refl None dis(2) con(1) fresh(2)] by (simp add: keep Let_def)
  next
    case (Some n)
    show ?thesis
    proof (cases "budget < n")
      case True
      then show ?thesis
        using "2.IH"(2) [OF refl Some True dis(2) con(1) fresh(2)] Some by (simp add: keep Let_def)
    next
      case False
      then show ?thesis
        using "2.IH"(3) [OF refl Some False dis(2) con(1) fresh(1)] Some
        by (auto simp: keep Let_def doc_cost_def)
    qed
  qed
qed simp


section \<open>Properties\<close>

text \<open>
  Property C33. A tree opens exactly the non-empty containers with at most 100 children that are at
  depth 4 or less, and at any depth when the tree has at most 50 nodes.
\<close>

theorem default_expanded_exactly:
  "computeDefaultExpanded (buildJsonTree v) no_expand_options =
   {n_id n | n. n \<in> set (preorder (buildJsonTree v)) \<and> n_children n \<noteq> [] \<and> length (n_children n) \<le> 100
      \<and> (n_depth n \<le> 4 \<or> n_totalNodes (buildJsonTree v) \<le> 50)}"
proof -
  have "\<forall>m\<in>set (preorder (buildJsonTree v)). n_childCount m = length (n_children m)"
    by (rule buildJsonTree_all) simp_all
  then show ?thesis
    by (auto simp: computeDefaultExpanded_def no_expand_options_def or_default_def Let_def le_inf_def
        collectExpanded_eq [OF containers_only_build] opens_def DEFAULT_EXPAND_DEPTH_def
        LARGE_CONTAINER_CHILD_COUNT_def SMALL_TREE_NODE_COUNT_def)
qed

lemma forest_length: "length (build_forest_from vs c) = length vs"
  by (induction vs arbitrary: c) (simp_all split: prod.split)

lemma build_forest_containers: "r \<in> set (build_forest_from vs c) \<Longrightarrow> containers_only r"
proof (induction vs arbitrary: c)
  case (Cons v vs)
  obtain node c1 where b: "buildNode v None [] 0 c = (node, c1)" by fastforce
  have "containers_only node"
    unfolding containers_only_def by (rule build_all(1) [OF _ _ _ b]) (simp_all add: is_container_def)
  with Cons b show ?case by auto
qed simp

text \<open>
  The documents of a forest that open on first render have, together, at most
  32768 bytes of source, whatever their sizes and trees.
\<close>

theorem forest_expansion_within_budget:
  assumes "length sizes = length vs"
  shows "sum_list (map (\<lambda>(r, s). if n_id r \<in> computeForestDefaultExpanded (buildJsonForest vs) opts (Some sizes)
                               then s else 0) (zip (buildJsonForest vs) sizes)) \<le> 32768"
proof -
  let ?roots = "buildJsonForest vs"
  let ?docs = "zip ?roots (map Some sizes)"
  have len: "length ?roots = length vs"
    by (simp add: buildJsonForest_def forest_length)
  have sz: "map (document_size (Some sizes)) [0..<length ?roots] = map Some sizes"
    using assms len by (intro nth_equalityI) (simp_all add: document_size_def)
  obtain k where "map n_id (preorders ?roots) = [0..<k]"
    using build_forest_ids [of vs 0] by (auto simp: buildJsonForest_def)
  then have "distinct (map n_id (preorders (map fst ?docs)))" using assms len by simp
  moreover have "list_all (\<lambda>(t, s). containers_only t) ?docs"
    using build_forest_containers by (auto simp: list_all_iff buildJsonForest_def dest: set_zip_leftD)
  ultimately have "sum_list (map (\<lambda>(r, s). if n_id r \<in> forest_expand_loop ?docs opts {} FOREST_EXPAND_BUDGET
      then doc_cost s else 0) ?docs) \<le> FOREST_EXPAND_BUDGET"
    by (rule forest_loop_budget) simp
  then show ?thesis
    by (simp add: computeForestDefaultExpanded_def sz zip_map2 comp_def case_prod_unfold doc_cost_def
        FOREST_EXPAND_BUDGET_def cong: if_cong)
qed

theorem forest_expansion_within_budget_witness:
  "sum_list (map (\<lambda>(r, s). if n_id r \<in> computeForestDefaultExpanded (buildJsonForest [sample_json, sample_json])
       no_expand_options (Some [40000, 30]) then s else 0)
     (zip (buildJsonForest [sample_json, sample_json]) [40000, 30 :: nat])) \<le> 32768"
  by (rule forest_expansion_within_budget) simp

text \<open>
  An oversized document stays closed but does not close the documents after it: a
  later one that fits the budget opens, although the comment says the rest start collapsed.
\<close>

theorem oversized_document_does_not_stop_expansion:
  assumes "FOREST_EXPAND_BUDGET < s" "t \<le> FOREST_EXPAND_BUDGET"
    and "n_id r2 \<in> computeDefaultExpanded r2 opts" "n_id r1 \<noteq> n_id r2"
  shows "n_id r1 \<notin> computeForestDefaultExpanded [r1] opts (Some [s])
    \<and> n_id r2 \<in> computeForestDefaultExpanded [r1, r2] opts (Some [s, t])"
  using assms by (simp add: computeForestDefaultExpanded_def document_size_def upt_rec Let_def)

theorem oversized_document_does_not_stop_expansion_witness:
  "let r1 = JsonTreeNode 7 nt_array [] 0 None None [JsonTreeNode 8 nt_null [] 1 None (Some JNull) [] 0 False 1] 1 False 2;
       r2 = JsonTreeNode 9 nt_array [] 0 None None [JsonTreeNode 10 nt_null [] 1 None (Some JNull) [] 0 False 1] 1 False 2
   in n_id r2 \<in> computeForestDefaultExpanded [r1, r2] no_expand_options (Some [40000, 30])"
  unfolding Let_def
  by (rule oversized_document_does_not_stop_expansion [THEN conjunct2])
     (simp_all add: FOREST_EXPAND_BUDGET_def computeDefaultExpanded_def no_expand_options_def or_default_def
       le_inf_def Let_def SMALL_TREE_NODE_COUNT_def LARGE_CONTAINER_CHILD_COUNT_def)

end
