(* ===== verification/Json_Flatten.thy ===== *)
theory Json_Flatten
  imports Json_Expand
begin

text \<open>
  The row list of the JSON viewer, \<open>components/json-tree/flatten.ts\<close>. A \<open>ReadonlyMap\<close> of limits
  is a partial function; the rows a call pushes are the list it returns.

  Shown: the rows are balanced brackets; the rows of an expanded tree spell its JSON text (in
  theory Json_Viewer, with the row texts); windows bound what an expanded container shows; a
  truncation marker beyond the window of its container is not shown.
\<close>

definition CONTAINER_WINDOW :: nat where
  "CONTAINER_WINDOW = LARGE_CONTAINER_CHILD_COUNT"

datatype FlatRowKind = row_open | row_close | row_collapsed | row_leaf | row_show_more

record FlatRow =
  fr_kind :: FlatRowKind
  fr_nodeId :: nat
  fr_depth :: nat
  fr_path :: "PathSegment list"
  fr_key :: "string option"
  fr_containerType :: "JsonNodeType option"
  fr_childCount :: "nat option"
  fr_shownCount :: "nat option"
  fr_valueText :: "string option"
  fr_valueCls :: "string option"
  fr_hasComma :: bool
  fr_truncated :: bool
  fr_docIndex :: "nat option"

text \<open>\<open>formatPrimitive\<close>: the text and its class.\<close>

fun formatPrimitive :: "JsonValue \<Rightarrow> string \<times> string" where
  "formatPrimitive JNull = (''null'', ''text-json-null'')"
| "formatPrimitive (JBool b) = (if b then ''true'' else ''false'', ''text-json-boolean'')"
| "formatPrimitive (JNumber n) = (n, ''text-json-number'')"
| "formatPrimitive (JString s) = (json_quote s, ''text-json-string'')"
| "formatPrimitive v = ([], [])"

definition empty_row :: "FlatRowKind \<Rightarrow> JsonTreeNode \<Rightarrow> FlatRow" where
  "empty_row kind node =
     \<lparr>fr_kind = kind, fr_nodeId = n_id node, fr_depth = n_depth node, fr_path = n_path node,
      fr_key = None, fr_containerType = None, fr_childCount = None, fr_shownCount = None,
      fr_valueText = None, fr_valueCls = None, fr_hasComma = False, fr_truncated = False,
      fr_docIndex = None\<rparr>"

definition leaf_row :: "JsonTreeNode \<Rightarrow> bool \<Rightarrow> string \<Rightarrow> string \<Rightarrow> FlatRow" where
  "leaf_row node hasComma txt cls = (empty_row row_leaf node)\<lparr>fr_key := n_key node,
     fr_valueText := Some txt, fr_valueCls := Some cls, fr_hasComma := hasComma,
     fr_truncated := n_truncated node\<rparr>"

definition collapsed_row :: "JsonTreeNode \<Rightarrow> bool \<Rightarrow> FlatRow" where
  "collapsed_row node hasComma = (empty_row row_collapsed node)\<lparr>fr_key := n_key node,
     fr_containerType := Some (n_type node), fr_childCount := Some (n_childCount node),
     fr_hasComma := hasComma, fr_truncated := n_truncated node\<rparr>"

definition open_row :: "JsonTreeNode \<Rightarrow> FlatRow" where
  "open_row node = (empty_row row_open node)\<lparr>fr_key := n_key node,
     fr_containerType := Some (n_type node), fr_childCount := Some (n_childCount node),
     fr_truncated := n_truncated node\<rparr>"

definition show_more_row :: "JsonTreeNode \<Rightarrow> nat \<Rightarrow> nat \<Rightarrow> FlatRow" where
  "show_more_row node shown_count total_count = (empty_row row_show_more node)\<lparr>fr_depth := n_depth node + 1,
     fr_containerType := Some (n_type node), fr_childCount := Some total_count,
     fr_shownCount := Some shown_count\<rparr>"

definition close_row :: "JsonTreeNode \<Rightarrow> bool \<Rightarrow> FlatRow" where
  "close_row node hasComma = (empty_row row_close node)\<lparr>
     fr_containerType := Some (n_type node), fr_hasComma := hasComma, fr_truncated := n_truncated node\<rparr>"

text \<open>How many of \<open>total_count\<close> children the window shows.\<close>

definition shown_children :: "(nat \<rightharpoonup> nat) \<Rightarrow> nat \<Rightarrow> nat \<Rightarrow> nat" where
  "shown_children limits i total_count =
     (if CONTAINER_WINDOW < total_count
      then min (case limits i of Some n \<Rightarrow> n | None \<Rightarrow> CONTAINER_WINDOW) total_count
      else total_count)"

fun flattenNode :: "JsonTreeNode \<Rightarrow> bool \<Rightarrow> nat set \<Rightarrow> (nat \<rightharpoonup> nat) \<Rightarrow> FlatRow list"
  and flattenChildren ::
    "JsonTreeNode list \<Rightarrow> nat \<Rightarrow> nat \<Rightarrow> nat \<Rightarrow> nat set \<Rightarrow> (nat \<rightharpoonup> nat) \<Rightarrow> FlatRow list" where
  "flattenNode (JsonTreeNode i ty path depth key val children cc trunc total_nodes) isLast expanded limits =
     (let node = JsonTreeNode i ty path depth key val children cc trunc total_nodes;
          hasComma = (\<not> isLast)
      in if \<not> (ty = nt_object \<or> ty = nt_array) then
           (let (txt, cls) = formatPrimitive (case val of Some v \<Rightarrow> v | None \<Rightarrow> JNull)
            in [leaf_row node hasComma txt cls])
         else if children = [] then
           [leaf_row node hasComma (if ty = nt_object then ''{}'' else ''[]'') ''text-json-punct'']
         else if i \<notin> expanded then [collapsed_row node hasComma]
         else
           let total_count = length children;
               shown_count = shown_children limits i total_count
           in [open_row node]
              @ flattenChildren children 0 shown_count total_count expanded limits
              @ (if shown_count < total_count then [show_more_row node shown_count total_count] else [])
              @ [close_row node hasComma])"
| "flattenChildren [] k shown_count total_count expanded limits = []"
| "flattenChildren (c # cs) k shown_count total_count expanded limits =
     (if k < shown_count
      then flattenNode c (k = total_count - 1) expanded limits
           @ flattenChildren cs (k + 1) shown_count total_count expanded limits
      else [])"

definition flattenTree :: "JsonTreeNode \<Rightarrow> nat set \<Rightarrow> (nat \<rightharpoonup> nat) \<Rightarrow> FlatRow list" where
  "flattenTree rt expanded limits = flattenNode rt True expanded limits"

definition tag_document :: "nat \<Rightarrow> FlatRow list \<Rightarrow> FlatRow list" where
  "tag_document docIndex rows = (case rows of [] \<Rightarrow> [] | r # rs \<Rightarrow> r\<lparr>fr_docIndex := Some docIndex\<rparr> # rs)"

fun flatten_documents :: "JsonTreeNode list \<Rightarrow> nat \<Rightarrow> nat set \<Rightarrow> (nat \<rightharpoonup> nat) \<Rightarrow> FlatRow list" where
  "flatten_documents [] docIndex expanded limits = []"
| "flatten_documents (rt # roots) docIndex expanded limits =
     tag_document docIndex (flattenNode rt True expanded limits)
     @ flatten_documents roots (docIndex + 1) expanded limits"

definition flattenForest :: "JsonTreeNode list \<Rightarrow> nat set \<Rightarrow> (nat \<rightharpoonup> nat) \<Rightarrow> FlatRow list" where
  "flattenForest roots expanded limits = flatten_documents roots 0 expanded limits"


section \<open>Brackets\<close>

text \<open>A run over the rows with a stack of open containers; \<open>None\<close> for a wrong close.\<close>

fun bracket_stack :: "nat list \<Rightarrow> FlatRow list \<Rightarrow> nat list option" where
  "bracket_stack st [] = Some st"
| "bracket_stack st (r # rs) =
     (if fr_kind r = row_open then bracket_stack (fr_nodeId r # st) rs
      else if fr_kind r = row_close then
        (case st of [] \<Rightarrow> None | i # st' \<Rightarrow> if i = fr_nodeId r then bracket_stack st' rs else None)
      else bracket_stack st rs)"

lemmas row_defs = empty_row_def leaf_row_def collapsed_row_def open_row_def show_more_row_def close_row_def

lemma flatten_brackets:
  "bracket_stack st (flattenNode n l e m @ rs) = bracket_stack st rs"
  "bracket_stack st (flattenChildren cs k s t e m @ rs) = bracket_stack st rs"
  by (induction n l e m and cs k s t e m arbitrary: st rs and st rs
      rule: flattenNode_flattenChildren.induct)
     (simp_all add: Let_def row_defs split: prod.split)

lemma forest_brackets: "bracket_stack st (flatten_documents rts k e m @ rs) = bracket_stack st rs"
proof (induction rts k e m arbitrary: st rs rule: flatten_documents.induct)
  case (2 rt roots k e m)
  have "bracket_stack st (tag_document k rows @ rs) = bracket_stack st (rows @ rs)" for st rows rs
    by (cases rows) (simp_all add: tag_document_def split: list.split)
  then show ?case using 2 by (simp add: flatten_brackets)
qed simp

section \<open>Truncation markers in the rows\<close>

lemma flatten_untruncated:
  "\<forall>x\<in>set (preorder n). \<not> n_truncated x \<Longrightarrow> \<forall>r\<in>set (flattenNode n l e m). \<not> fr_truncated r"
  "\<forall>x\<in>set (preorders cs). \<not> n_truncated x \<Longrightarrow> \<forall>r\<in>set (flattenChildren cs k s t e m). \<not> fr_truncated r"
  by (induction n l e m and cs k s t e m rule: flattenNode_flattenChildren.induct)
     (auto simp: Let_def row_defs split: prod.splits if_splits)

lemma flattenChildren_take:
  "flattenChildren cs k s t e m = flattenChildren (take (s - k) cs) k s t e m"
proof (induction cs arbitrary: k)
  case (Cons c cs)
  show ?case
  proof (cases "k < s")
    case True
    then have "s - k = Suc (s - (k + 1))" by simp
    then have "take (s - k) (c # cs) = c # take (s - (k + 1)) cs" by simp
    with True Cons [of "k + 1"] show ?thesis by simp
  qed simp
qed simp

section \<open>The number of rows\<close>

definition expanded_count :: "nat set \<Rightarrow> JsonTreeNode list \<Rightarrow> nat" where
  "expanded_count e ns = length (filter (\<lambda>n. n_id n \<in> e) ns)"

lemma shown_children_bound: "shown_children Map.empty i n \<le> 100"
  by (simp add: shown_children_def CONTAINER_WINDOW_def LARGE_CONTAINER_CHILD_COUNT_def)

lemma flatten_length:
  "m = Map.empty \<Longrightarrow> length (flattenNode n l e m) \<le> 1 + 102 * expanded_count e (preorder n)"
  "m = Map.empty \<Longrightarrow>
     length (flattenChildren cs k s t e m) \<le> (s - k) + 102 * expanded_count e (preorders cs)"
proof (induction n l e m and cs k s t e m rule: flattenNode_flattenChildren.induct)
  case (1 i ty path depth key val children cc trunc total_nodes isLast e m)
  let ?n = "JsonTreeNode i ty path depth key val children cc trunc total_nodes"
  show ?case
  proof (cases "(ty = nt_object \<or> ty = nt_array) \<and> children \<noteq> [] \<and> i \<in> e")
    case False
    then have "length (flattenNode ?n isLast e m) = 1"
      by (auto simp: Let_def split: prod.split)
    then show ?thesis by simp
  next
    case True
    let ?s = "shown_children m i (length children)"
    have "length (flattenChildren children 0 ?s (length children) e m)
        \<le> ?s + 102 * expanded_count e (preorders children)"
      using "1.IH" [OF refl refl] True "1.prems" by simp
    moreover have "?s \<le> 100" using "1.prems" shown_children_bound by simp
    moreover have "expanded_count e (preorder ?n) = Suc (expanded_count e (preorders children))"
      using True by (simp add: expanded_count_def)
    moreover have "length (flattenNode ?n isLast e m) \<le>
        3 + length (flattenChildren children 0 ?s (length children) e m)"
      using True by (auto simp: Let_def)
    ultimately show ?thesis by linarith
  qed
next
  case (3 c cs k s t e m)
  then show ?case
    by (cases "k < s") (auto simp: expanded_count_def)
qed simp

section \<open>Properties\<close>

text \<open>
  The rows of a tree or a forest are balanced: each close row closes the container
  opened last, whatever is expanded and however containers are windowed.
\<close>

theorem rows_balanced:
  "bracket_stack [] (flattenTree t expanded limits) = Some []
   \<and> bracket_stack [] (flattenForest ts expanded limits) = Some []"
  using flatten_brackets(1) [of "[]" t True expanded limits "[]"] forest_brackets [of "[]" ts 0 expanded limits "[]"]
  by (simp add: flattenTree_def flattenForest_def)

text \<open>
  Before any window is raised, a tree gives at most 1 + 102 rows per expanded node:
  the number of rows depends on what is expanded and not on the size of the body.
\<close>

theorem rows_bounded_by_expansion:
  "length (flattenTree (buildJsonTree v) expanded Map.empty)
   \<le> 1 + 102 * card (expanded \<inter> n_id ` set (preorder (buildJsonTree v)))"
proof -
  let ?ns = "preorder (buildJsonTree v)"
  have "distinct (map n_id ?ns)" by (simp add: buildJsonTree_ids)
  then have "distinct (map n_id (filter (\<lambda>n. n_id n \<in> expanded) ?ns))" by (rule distinct_map_filter)
  then have "expanded_count expanded ?ns = card (n_id ` set (filter (\<lambda>n. n_id n \<in> expanded) ?ns))"
    unfolding expanded_count_def using distinct_card by fastforce
  also have "n_id ` set (filter (\<lambda>n. n_id n \<in> expanded) ?ns) = expanded \<inter> n_id ` set ?ns"
    by auto
  finally show ?thesis
    using flatten_length(1) [OF refl, of "buildJsonTree v" True expanded] by (simp add: flattenTree_def)
qed

text \<open>
  The marker of a truncated array is not among the rows when the array has more than
  100 items, whatever is expanded, until its window is raised: the cut is at the last item and
  the window shows the first 100, although the path to the marker is expanded to show it.
\<close>

theorem truncation_marker_beyond_window_hidden:
  assumes "100 < length vs"
  shows "\<not> list_ex fr_truncated
    (flattenTree (fst (markTruncationPoint (buildJsonTree (JArray vs)))) expanded Map.empty)"
proof -
  obtain cs c where b: "buildItems vs 0 [] 1 1 = (cs, c)" by fastforce
  have t: "buildJsonTree (JArray vs) = JsonTreeNode 0 nt_array [] 0 None None cs (length cs) False (sum_totals cs)"
    using b by (simp add: buildJsonTree_def)
  have len: "length cs = length vs"
  proof -
    have "buildItems ws i p d k = (ns, k') \<Longrightarrow> length ns = length ws" for ws i p d k ns k'
      by (induction ws arbitrary: i k ns k') (auto split: prod.splits)
    then show ?thesis using b by blast
  qed
  then have ne: "cs \<noteq> []" using assms by auto
  obtain l ids where l: "markTruncationPoint (last cs) = (l, ids)" by fastforce
  let ?cs = "butlast cs @ [l]"
  have m: "fst (markTruncationPoint (buildJsonTree (JArray vs))) =
      JsonTreeNode 0 nt_array [] 0 None None ?cs (length cs) False (sum_totals cs)"
    using ne l by (simp add: t)
  have un: "\<forall>x\<in>set (preorders cs). \<not> n_truncated x"
    using buildJsonTree_all [of "\<lambda>n. \<not> n_truncated n" "JArray vs"] by (simp add: t)
  have "set (take 100 ?cs) \<subseteq> set (butlast cs)"
    using len assms by (auto dest: in_set_takeD)
  also have "\<dots> \<subseteq> set cs" by (auto dest: in_set_butlastD)
  finally have "\<forall>x\<in>set (preorders (take 100 ?cs)). \<not> n_truncated x" using un by auto
  then have "\<forall>r\<in>set (flattenChildren (take (100 - 0) ?cs) 0 100 (length ?cs) expanded Map.empty). \<not> fr_truncated r"
    by (intro flatten_untruncated(2)) simp
  then have "\<forall>r\<in>set (flattenChildren ?cs 0 100 (length ?cs) expanded Map.empty). \<not> fr_truncated r"
    by (simp only: flattenChildren_take [symmetric])
  moreover have "shown_children Map.empty 0 (length ?cs) = 100"
    using len assms ne by (simp add: shown_children_def CONTAINER_WINDOW_def LARGE_CONTAINER_CHILD_COUNT_def)
  ultimately show ?thesis
    unfolding m flattenTree_def by (auto simp: Let_def row_defs list_ex_iff split: if_splits)
qed

theorem truncation_marker_beyond_window_hidden_witness:
  "\<not> list_ex fr_truncated
    (flattenTree (fst (markTruncationPoint (buildJsonTree (JArray (replicate 101 JNull))))) {0} Map.empty)"
  by (rule truncation_marker_beyond_window_hidden) simp

end
