(* ===== verification/Json_Text.thy ===== *)
theory Json_Text
  imports Json_Model
begin

text \<open>
  \<open>JSON.stringify\<close> of the host, without an indent and with an indent of two spaces, on values as
  \<open>JSON.parse\<close> makes them. A number is carried as the text JavaScript writes for it.
\<close>

fun json_compact :: "JsonValue \<Rightarrow> string" where
  "json_compact JNull = ''null''"
| "json_compact (JBool b) = (if b then ''true'' else ''false'')"
| "json_compact (JNumber n) = n"
| "json_compact (JString s) = json_quote s"
| "json_compact (JArray vs) = ''['' @ join '','' (map json_compact vs) @ '']''"
| "json_compact (JObject es) =
     ''{'' @ join '','' (map (\<lambda>(k, v). json_quote k @ '':'' @ json_compact v) es) @ ''}''"

text \<open>The indent of a level: a new line and two spaces per level.\<close>

definition json_indent :: "nat \<Rightarrow> string" where
  "json_indent d = newline # replicate (2 * d) CHR '' ''"

fun json_pretty_at :: "nat \<Rightarrow> JsonValue \<Rightarrow> string" where
  "json_pretty_at d JNull = ''null''"
| "json_pretty_at d (JBool b) = (if b then ''true'' else ''false'')"
| "json_pretty_at d (JNumber n) = n"
| "json_pretty_at d (JString s) = json_quote s"
| "json_pretty_at d (JArray vs) =
     (if vs = [] then ''[]''
      else ''['' @ json_indent (d + 1)
           @ join ('','' @ json_indent (d + 1)) (map (json_pretty_at (d + 1)) vs)
           @ json_indent d @ '']'')"
| "json_pretty_at d (JObject es) =
     (if es = [] then ''{}''
      else ''{'' @ json_indent (d + 1)
           @ join ('','' @ json_indent (d + 1))
               (map (\<lambda>(k, v). json_quote k @ '': '' @ json_pretty_at (d + 1) v) es)
           @ json_indent d @ ''}'')"

definition json_pretty :: "JsonValue \<Rightarrow> string" where
  "json_pretty v = json_pretty_at 0 v"

end
