(* ===== verification/Json_Rows.thy ===== *)
theory Json_Rows
  imports Json_Flatten Json_Text Utils Dom
begin

text \<open>
  The rows of the JSON viewer as rendered by \<open>components/json-tree/json-tree-viewer.tsx\<close>: the
  document gutter, the truncation marker and banner, the show-more controls, the value of a row
  and the row itself.

  Shown: the rows of a fully revealed tree, read from top to bottom, spell the JSON text of the
  body, with every comma, colon, key and bracket in its place.
\<close>

section \<open>Components\<close>

datatype row_action =
    do_toggle nat
  | do_show_more nat nat
  | do_show_all nat nat

definition INDENT_PX :: nat where
  "INDENT_PX = 16"

definition indent_width :: "FlatRow \<Rightarrow> glyph list" where
  "indent_width row = lat (showNat (fr_depth row * INDENT_PX + 16) @ ''px'')"

definition TruncationBanner :: "bool \<Rightarrow> 'h dom" where
  "TruncationBanner multiDoc =
     El ''div'' [(''role'', lat ''status''), (''data-testid'', lat ''json-truncation-banner'')] []
       [El ''AlertTriangle'' [] [] [],
        El ''span'' [] []
          [Txt (if multiDoc
                then lat ''Body truncated '' @ [em_dash] @ lat '' showing the documents parsed so far.''
                else lat ''Body truncated '' @ [em_dash] @ lat '' showing the valid prefix.'')]]"

definition DocGutter :: "FlatRow \<Rightarrow> 'h dom" where
  "DocGutter row =
     El ''span'' (attr_if (fr_docIndex row = None) ''aria-hidden'' (lat ''true'')) []
       (case fr_docIndex row of Some i \<Rightarrow> [Txt (lat (showNat (i + 1)))] | None \<Rightarrow> [])"

definition TruncationMarker :: "'h dom" where
  "TruncationMarker =
     El ''span'' [(''data-testid'', lat ''json-truncation-marker'')] []
       [El ''AlertTriangle'' [(''aria-hidden'', lat ''true'')] [] [], Txt (lat ''truncated here'')]"

definition JsonTreeShowMore :: "FlatRow \<Rightarrow> row_action dom list" where
  "JsonTreeShowMore row =
     (let total_count = (case fr_childCount row of Some n \<Rightarrow> n | None \<Rightarrow> 0);
          shown_count = (case fr_shownCount row of Some n \<Rightarrow> n | None \<Rightarrow> 0);
          remaining = int total_count - int shown_count;
          step = min (int CONTAINER_WINDOW) remaining;
          noun = (if fr_containerType row = Some nt_array
                  then if remaining = 1 then ''item'' else ''items''
                  else if remaining = 1 then ''key'' else ''keys'')
      in [El ''span'' [(''width'', indent_width row)] [] [],
          El ''span'' [] []
            [El ''span'' [] [] [Txt (lat (showInt remaining @ '' more '' @ noun))],
             El ''Button'' [(''data-testid'', lat ''json-tree-show-more'')]
               [(''click'', do_show_more (fr_nodeId row) total_count)]
               [Txt (lat (''Show '' @ showInt step @ '' more''))],
             El ''Button'' [(''data-testid'', lat ''json-tree-show-all'')]
               [(''click'', do_show_all (fr_nodeId row) total_count)]
               [Txt (lat ''Show all'')]]])"

definition JsonTreeRowValue :: "FlatRow \<Rightarrow> row_action dom list" where
  "JsonTreeRowValue row = (case fr_kind row of
     row_open \<Rightarrow> [El ''span'' [] [] [Txt (lat (if fr_containerType row = Some nt_object then ''{'' else ''[''))]]
   | row_close \<Rightarrow> [El ''span'' [] [] [Txt (lat (if fr_containerType row = Some nt_object then ''}'' else '']''))]]
   | row_collapsed \<Rightarrow>
       (let isArray = (fr_containerType row = Some nt_array);
            count = (case fr_childCount row of Some n \<Rightarrow> n | None \<Rightarrow> 0);
            label = (if isArray
                     then if count = 1 then ''1 item'' else showNat count @ '' items''
                     else if count = 1 then ''1 key'' else showNat count @ '' keys'')
        in [El ''span'' [] [] [Txt (lat (if isArray then ''['' else ''{''))],
            El ''span'' [] [] [Txt [ellipsis]],
            El ''span'' [] [] [Txt (lat (if isArray then '']'' else ''}''))],
            El ''span'' [] [] [Txt (lat label)]])
   | row_leaf \<Rightarrow> [El ''span'' [(''class'', lat (or_empty (fr_valueCls row)))] []
                    [Txt (lat (or_empty (fr_valueText row)))]]
   | row_show_more \<Rightarrow> [])"

definition JsonTreeRow :: "FlatRow \<Rightarrow> row_action dom list" where
  "JsonTreeRow row =
     (if fr_kind row = row_show_more then JsonTreeShowMore row
      else
        let expandable = (fr_kind row = row_open \<or> fr_kind row = row_collapsed)
        in [El ''span'' [(''width'', indent_width row)] []
              (child_if expandable
                [El ''Button''
                   [(''aria-expanded'', bool_text (fr_kind row = row_open)),
                    (''aria-label'', lat (if fr_kind row = row_open then ''Collapse'' else ''Expand''))]
                   [(''click'', do_toggle (fr_nodeId row))]
                   [El ''ChevronRight'' [] [] []]]),
            El ''span'' [] []
              ((case fr_key row of
                  Some key \<Rightarrow> [El ''span'' [] [] [Txt (lat (json_quote key))], El ''span'' [] [] [Txt (lat '': '')]]
                | None \<Rightarrow> [])
               @ JsonTreeRowValue row
               @ child_if (fr_hasComma row) [El ''span'' [] [] [Txt (lat '','')]]
               @ child_if (fr_truncated row) [TruncationMarker])])"

section \<open>The text of a revealed tree\<close>

text \<open>The reference: the JSON text of a value, with a space after each colon.\<close>

fun json_spell :: "JsonValue \<Rightarrow> string" where
  "json_spell JNull = ''null''"
| "json_spell (JBool b) = (if b then ''true'' else ''false'')"
| "json_spell (JNumber n) = n"
| "json_spell (JString s) = json_quote s"
| "json_spell (JArray vs) = ''['' @ join '','' (map json_spell vs) @ '']''"
| "json_spell (JObject es) = ''{'' @ join '','' (map (\<lambda>(k, v). json_quote k @ '': '' @ json_spell v) es) @ ''}''"

definition rows_text :: "FlatRow list \<Rightarrow> glyph list" where
  "rows_text rows = concat (map (\<lambda>row. texts (JsonTreeRow row)) rows)"

lemma rows_text_append [simp]: "rows_text (a @ b) = rows_text a @ rows_text b"
  by (simp add: rows_text_def)

lemma rows_text_Nil [simp]: "rows_text [] = []"
  by (simp add: rows_text_def)

definition key_text :: "string option \<Rightarrow> string" where
  "key_text key = (case key of Some k \<Rightarrow> json_quote k @ '': '' | None \<Rightarrow> [])"

text \<open>A container is open with all its children shown.\<close>

definition revealed :: "nat set \<Rightarrow> (nat \<rightharpoonup> nat) \<Rightarrow> JsonTreeNode \<Rightarrow> bool" where
  "revealed expanded limits n =
     (n_children n = [] \<or> n_id n \<in> expanded \<and>
        shown_children limits (n_id n) (length (n_children n)) = length (n_children n))"

lemma leaf_text:
  "\<not> n_truncated node \<Longrightarrow>
   rows_text [leaf_row node hasComma txt cls] =
     lat (key_text (n_key node) @ txt @ (if hasComma then '','' else []))"
  by (simp add: rows_text_def JsonTreeRow_def JsonTreeRowValue_def row_defs key_text_def or_empty_def
      split: option.split)

lemma open_text:
  "\<not> n_truncated node \<Longrightarrow>
   rows_text [open_row node] = lat (key_text (n_key node) @ (if n_type node = nt_object then ''{'' else ''[''))"
  by (simp add: rows_text_def JsonTreeRow_def JsonTreeRowValue_def row_defs key_text_def split: option.split)

lemma close_text:
  "\<not> n_truncated node \<Longrightarrow>
   rows_text [close_row node hasComma] =
     lat ((if n_type node = nt_object then ''}'' else '']'') @ (if hasComma then '','' else []))"
  by (simp add: rows_text_def JsonTreeRow_def JsonTreeRowValue_def row_defs)

lemma container_text:
  assumes node_def: "node = JsonTreeNode i ty path depth key None children cc False total_nodes"
    and "ty = nt_object \<or> ty = nt_array" "revealed e m node"
    and "rows_text (flattenChildren children 0 (length children) (length children) e m) = lat inner"
    and "children = [] \<Longrightarrow> inner = []"
  shows "rows_text (flattenNode node l e m) =
    lat (key_text key @ (if ty = nt_object then ''{'' else ''['') @ inner
         @ (if ty = nt_object then ''}'' else '']'') @ (if l then [] else '',''))"
proof (cases "children = []")
  case True
  then show ?thesis
    using assms(2,5) unfolding node_def by (auto simp: Let_def leaf_text)
next
  case False
  have rs: "i \<in> e" "shown_children m i (length children) = length children"
    using assms(3) False by (simp_all add: node_def revealed_def)
  have "flattenNode node l e m = [open_row node]
      @ flattenChildren children 0 (length children) (length children) e m @ [close_row node (\<not> l)]"
    using assms(2) False rs unfolding node_def by (auto simp: Let_def)
  moreover have "\<not> n_truncated node" "n_key node = key" "n_type node = ty" by (simp_all add: node_def)
  ultimately show ?thesis
    by (simp add: rows_text_append open_text close_text assms(4) del: append_Cons append_Nil)
qed

lemma flatten_text:
  "buildNode v key path depth c = (node, c') \<Longrightarrow> \<forall>n\<in>set (preorder node). revealed e m n \<Longrightarrow>
     rows_text (flattenNode node l e m) = lat (key_text key @ json_spell v @ (if l then [] else '',''))"
  "buildItems vs i path depth c = (nodes, c') \<Longrightarrow> \<forall>n\<in>set (preorders nodes). revealed e m n \<Longrightarrow>
     rows_text (flattenChildren nodes k (k + length nodes) (k + length nodes) e m)
     = lat (join '','' (map json_spell vs)) \<and> (nodes = [] \<longleftrightarrow> vs = [])"
  "buildEntries es path depth c = (nodes, c') \<Longrightarrow> \<forall>n\<in>set (preorders nodes). revealed e m n \<Longrightarrow>
     rows_text (flattenChildren nodes k (k + length nodes) (k + length nodes) e m)
     = lat (join '','' (map (\<lambda>(k, v). json_quote k @ '': '' @ json_spell v) es)) \<and> (nodes = [] \<longleftrightarrow> es = [])"
proof (induction v key path depth c and vs i path depth c and es path depth c
    arbitrary: node c' l and nodes c' k and nodes c' k rule: buildNode_buildItems_buildEntries.induct)
  case (5 items key path depth counter)
  then obtain children where b: "buildItems items 0 path (depth + 1) (counter + 1) = (children, c')"
    and n: "node = JsonTreeNode counter nt_array path depth key None children (length children) False
      (sum_totals children)"
    by (auto split: prod.splits)
  have "rows_text (flattenChildren children 0 (length children) (length children) e m)
      = lat (join '','' (map json_spell items)) \<and> (children = [] \<longleftrightarrow> items = [])"
    using "5.IH" [OF b, of 0] "5.prems" n by simp
  then show ?case
    using "5.prems"(2) by (subst container_text [OF n]) (auto simp: n)
next
  case (6 entries key path depth counter)
  then obtain children where b: "buildEntries entries path (depth + 1) (counter + 1) = (children, c')"
    and n: "node = JsonTreeNode counter nt_object path depth key None children (length children) False
      (sum_totals children)"
    by (auto split: prod.splits)
  have "rows_text (flattenChildren children 0 (length children) (length children) e m)
      = lat (join '','' (map (\<lambda>(k, v). json_quote k @ '': '' @ json_spell v) entries))
      \<and> (children = [] \<longleftrightarrow> entries = [])"
    using "6.IH" [OF b, of 0] "6.prems" n by simp
  then show ?case
    using "6.prems"(2) by (subst container_text [OF n]) (auto simp: n)
next
  case (8 v vs i path depth counter)
  then obtain nd c1 ns where b: "buildNode v None (path @ [seg_index i]) depth counter = (nd, c1)"
    "buildItems vs (i + 1) path depth c1 = (ns, c')" "nodes = nd # ns"
    by (auto split: prod.splits)
  note h = "8.IH"(1) [OF b(1)] and t = "8.IH"(2) [OF b(1) [symmetric] refl b(2), of "Suc k"]
  show ?case
    using h "8.prems" t by (cases vs) (auto simp: b(3) key_text_def simp del: flattenNode.simps)
next
  case (10 k' v es path depth counter)
  then obtain nd c1 ns where b: "buildNode v (Some k') (path @ [seg_key k']) depth counter = (nd, c1)"
    "buildEntries es path depth c1 = (ns, c')" "nodes = nd # ns"
    by (auto split: prod.splits)
  note h = "10.IH"(1) [OF b(1)] and t = "10.IH"(2) [OF b(1) [symmetric] refl b(2), of "Suc k"]
  show ?case
    using h "10.prems" t by (cases es) (auto simp: b(3) key_text_def simp del: flattenNode.simps)
qed (auto simp: Let_def leaf_text)

section \<open>Properties\<close>

text \<open>
  Property C28. When every non-empty container of a tree is open and shows all its children, the
  texts of the rendered rows, one after the other, are the JSON text of the body with a space after
  each key's colon and no other: quoted keys, colons, commas and brackets included, at any nesting.
\<close>

theorem rows_spell_value:
  assumes "\<forall>n\<in>set (preorder (buildJsonTree v)). revealed expanded limits n"
  shows "rows_text (flattenTree (buildJsonTree v) expanded limits) = lat (json_spell v)"
proof -
  obtain node c where b: "buildNode v None [] 0 0 = (node, c)" by fastforce
  then show ?thesis
    using flatten_text(1) [OF b, of expanded limits True] assms
    by (simp add: buildJsonTree_def flattenTree_def key_text_def)
qed

theorem rows_spell_value_witness:
  "rows_text (flattenTree (buildJsonTree sample_json) {0..<20} Map.empty) = lat (json_spell sample_json)"
  by (rule rows_spell_value)
     (simp add: sample_json_def buildJsonTree_def revealed_def shown_children_def CONTAINER_WINDOW_def
        LARGE_CONTAINER_CHILD_COUNT_def sum_totals_def)

end
