(* ===== verification/Json_Viewer.thy ===== *)
theory Json_Viewer
  imports Json_Rows
begin

text \<open>
  The JSON tree viewer, \<open>components/json-tree/json-tree-viewer.tsx\<close>: its state (the lazily built
  forest, the expansion, the windows, the menu target), its callbacks and what it renders.

  \<open>ViewerProps\<close> are the props; \<open>vp_input\<close> is the identity of \<open>documents ?? value\<close>, which the
  component compares by reference. The refs and states of the component are the fields of
  \<open>ViewerState\<close>; a step is an event followed by the render it causes, so that \<open>expandedRef\<close>
  holds the current expansion. The virtualizer, a third-party hook, is the list of row indices
  it gives.

  Shown: the viewer that starts from the rows of the Worker behaves as the one that builds the
  tree itself; toggling twice restores the expansion and forgets the windows below; showing more
  reaches the last child.
\<close>

section \<open>Lookup\<close>

fun findNodeInSubtree :: "JsonTreeNode \<Rightarrow> nat \<Rightarrow> JsonTreeNode option"
  and findNodeById :: "JsonTreeNode list \<Rightarrow> nat \<Rightarrow> JsonTreeNode option" where
  "findNodeInSubtree (JsonTreeNode i ty path depth key val children cc trunc total_nodes) targetId =
     (if i = targetId then Some (JsonTreeNode i ty path depth key val children cc trunc total_nodes)
      else findNodeById children targetId)"
| "findNodeById [] targetId = None"
| "findNodeById (rt # roots) targetId =
     (case findNodeInSubtree rt targetId of Some found \<Rightarrow> Some found | None \<Rightarrow> findNodeById roots targetId)"

fun collectDescendantIds :: "JsonTreeNode \<Rightarrow> nat set \<Rightarrow> nat set" where
  "collectDescendantIds (JsonTreeNode i ty path depth key val children cc trunc total_nodes) out =
     foldl (\<lambda>out child. collectDescendantIds child (insert (n_id child) out)) out children"

section \<open>Props and state\<close>

record ViewerProps =
  vp_input :: nat
  vp_value :: JsonValue
  vp_documents :: "JsonValue list option"
  vp_initialRows :: "FlatRow list option"
  vp_initialExpanded :: "nat set option"
  vp_truncated :: bool

record ViewerState =
  jv_forest :: "JsonTreeNode list option"
  jv_treeReady :: bool
  jv_expanded :: "nat set"
  jv_limits :: "nat \<rightharpoonup> nat"
  jv_menuRow :: "FlatRow option"
  jv_rowClaimedMenu :: bool
  jv_prevInput :: nat

definition isForest :: "ViewerProps \<Rightarrow> bool" where
  "isForest p = (vp_documents p \<noteq> None)"

text \<open>\<open>buildForest\<close>: the roots and \<open>expandAncestors\<close>.\<close>

definition buildForest :: "JsonValue \<Rightarrow> JsonValue list option \<Rightarrow> bool \<Rightarrow> JsonTreeNode list \<times> nat list" where
  "buildForest value documents truncated =
     (let roots = (case documents of Some ds \<Rightarrow> buildJsonForest ds | None \<Rightarrow> [buildJsonTree value])
      in if truncated \<and> roots \<noteq> []
         then let (marked, ancestorIds) = markTruncationPoint (last roots)
              in (butlast roots @ [marked], ancestorIds)
         else (roots, []))"

definition build_props :: "ViewerProps \<Rightarrow> JsonTreeNode list \<times> nat list" where
  "build_props p = buildForest (vp_value p) (vp_documents p) (vp_truncated p)"

definition defaultExpandedFor :: "JsonTreeNode list \<times> nat list \<Rightarrow> bool \<Rightarrow> nat set" where
  "defaultExpandedFor built forest =
     (if forest then computeForestDefaultExpanded (fst built) no_expand_options None
      else computeDefaultExpanded (hd (fst built)) no_expand_options) \<union> set (snd built)"

text \<open>The initializers of the refs and states, on mount.\<close>

definition viewer_mount :: "ViewerProps \<Rightarrow> ViewerState" where
  "viewer_mount p =
     (let built = (if vp_initialRows p = None then Some (build_props p) else None)
      in \<lparr>jv_forest = map_option fst built,
          jv_treeReady = (built \<noteq> None),
          jv_expanded = (case vp_initialExpanded p of
              Some ex \<Rightarrow> ex
            | None \<Rightarrow> (case built of Some b \<Rightarrow> defaultExpandedFor b (isForest p) | None \<Rightarrow> {})),
          jv_limits = Map.empty,
          jv_menuRow = None,
          jv_rowClaimedMenu = False,
          jv_prevInput = vp_input p\<rparr>)"

text \<open>The reset when a different body is rendered.\<close>

definition viewer_rerender :: "ViewerProps \<Rightarrow> ViewerState \<Rightarrow> ViewerState" where
  "viewer_rerender p s =
     (if vp_input p \<noteq> jv_prevInput s then
        let s1 = s\<lparr>jv_prevInput := vp_input p\<rparr>;
            s2 = (case (vp_initialRows p, vp_initialExpanded p) of
                (Some rows, Some ex) \<Rightarrow>
                  s1\<lparr>jv_forest := None, jv_treeReady := False, jv_expanded := ex\<rparr>
              | _ \<Rightarrow>
                  let built = build_props p
                  in s1\<lparr>jv_forest := Some (fst built), jv_treeReady := True,
                        jv_expanded := defaultExpandedFor built (isForest p)\<rparr>)
        in s2\<lparr>jv_limits := Map.empty\<rparr>
      else s)"

section \<open>Callbacks\<close>

text \<open>\<open>ensureForest\<close>: the forest and the state in which it is cached.\<close>

definition ensureForest :: "ViewerProps \<Rightarrow> ViewerState \<Rightarrow> JsonTreeNode list \<times> ViewerState" where
  "ensureForest p s = (case jv_forest s of
     Some forest \<Rightarrow> (forest, s)
   | None \<Rightarrow> let forest = fst (build_props p) in (forest, s\<lparr>jv_forest := Some forest\<rparr>))"

definition viewer_rows :: "ViewerProps \<Rightarrow> ViewerState \<Rightarrow> FlatRow list" where
  "viewer_rows p s = (case (jv_treeReady s, vp_initialRows p) of
     (False, Some rows) \<Rightarrow> rows
   | _ \<Rightarrow> (case jv_forest s of
       None \<Rightarrow> []
     | Some forest \<Rightarrow> flattenForest forest (jv_expanded s) (jv_limits s)))"

text \<open>The window limits after the collapse of a node.\<close>

definition forget_limits :: "JsonTreeNode list \<Rightarrow> nat \<Rightarrow> (nat \<rightharpoonup> nat) \<Rightarrow> (nat \<rightharpoonup> nat)" where
  "forget_limits forest nodeId prev =
     (case findNodeById forest nodeId of
        None \<Rightarrow> prev
      | Some node \<Rightarrow>
          let toRemove = collectDescendantIds node {nodeId} in (\<lambda>i. if i \<in> toRemove then None else prev i))"

definition toggle :: "ViewerProps \<Rightarrow> nat \<Rightarrow> ViewerState \<Rightarrow> ViewerState" where
  "toggle p nodeId s =
     (let isCollapsing = (nodeId \<in> jv_expanded s);
          (forest, s1) = ensureForest p s;
          s2 = s1\<lparr>jv_treeReady := True,
                  jv_expanded := (if nodeId \<in> jv_expanded s1 then jv_expanded s1 - {nodeId}
                                  else insert nodeId (jv_expanded s1))\<rparr>
      in if isCollapsing then s2\<lparr>jv_limits := forget_limits forest nodeId (jv_limits s2)\<rparr> else s2)"

definition showMore :: "ViewerProps \<Rightarrow> nat \<Rightarrow> nat \<Rightarrow> ViewerState \<Rightarrow> ViewerState" where
  "showMore p nodeId total_count s =
     (let s1 = snd (ensureForest p s);
          current = (case jv_limits s1 nodeId of Some n \<Rightarrow> n | None \<Rightarrow> CONTAINER_WINDOW)
      in s1\<lparr>jv_treeReady := True,
            jv_limits := (jv_limits s1)(nodeId \<mapsto> min (current + CONTAINER_WINDOW) total_count)\<rparr>)"

definition showAll :: "ViewerProps \<Rightarrow> nat \<Rightarrow> nat \<Rightarrow> ViewerState \<Rightarrow> ViewerState" where
  "showAll p nodeId total_count s =
     (let s1 = snd (ensureForest p s)
      in s1\<lparr>jv_treeReady := True, jv_limits := (jv_limits s1)(nodeId \<mapsto> total_count)\<rparr>)"

text \<open>The copy callbacks give the text for the clipboard, when there is one.\<close>

definition copyValue :: "ViewerProps \<Rightarrow> nat \<Rightarrow> ViewerState \<Rightarrow> ViewerState \<times> string option" where
  "copyValue p nodeId s =
     (let (forest, s1) = ensureForest p s
      in (s1, map_option (\<lambda>node. json_pretty (nodeToValue node)) (findNodeById forest nodeId)))"

definition copyPath :: "FlatRow \<Rightarrow> string" where
  "copyPath row = formatPath (fr_path row)"

text \<open>The context menu: the handler of a row runs first, then the one of the container.\<close>

definition row_context_menu :: "FlatRow \<Rightarrow> ViewerState \<Rightarrow> ViewerState" where
  "row_context_menu row s =
     s\<lparr>jv_rowClaimedMenu := True, jv_menuRow := (if fr_kind row = row_show_more then None else Some row)\<rparr>"

definition container_context_menu :: "ViewerState \<Rightarrow> ViewerState" where
  "container_context_menu s =
     (if jv_rowClaimedMenu s then s\<lparr>jv_rowClaimedMenu := False\<rparr> else s\<lparr>jv_menuRow := None\<rparr>)"

section \<open>Events\<close>

datatype ViewerEvent =
    row_event row_action
  | right_click_row nat
  | right_click_space
  | menu_copy_value
  | menu_copy_path

definition row_step :: "ViewerProps \<Rightarrow> row_action \<Rightarrow> ViewerState \<Rightarrow> ViewerState" where
  "row_step p a s = (case a of
     do_toggle i \<Rightarrow> toggle p i s
   | do_show_more i n \<Rightarrow> showMore p i n s
   | do_show_all i n \<Rightarrow> showAll p i n s)"

definition viewer_step :: "ViewerProps \<Rightarrow> ViewerEvent \<Rightarrow> ViewerState \<Rightarrow> ViewerState \<times> string option" where
  "viewer_step p ev s = (case ev of
     row_event a \<Rightarrow> (row_step p a s, None)
   | right_click_row i \<Rightarrow>
       (if i < length (viewer_rows p s)
        then container_context_menu (row_context_menu (viewer_rows p s ! i) s) else s, None)
   | right_click_space \<Rightarrow> (container_context_menu s, None)
   | menu_copy_value \<Rightarrow>
       (case jv_menuRow s of Some row \<Rightarrow> copyValue p (fr_nodeId row) s | None \<Rightarrow> (s, None))
   | menu_copy_path \<Rightarrow> (s, map_option copyPath (jv_menuRow s)))"

text \<open>
  What the viewer renders, for the items of the virtualizer, which are below its \<open>count\<close>. The
  toggle button stops the propagation of its click, so a click runs one of the two handlers.
\<close>

definition row_dom :: "ViewerProps \<Rightarrow> FlatRow list \<Rightarrow> nat \<Rightarrow> ViewerEvent dom" where
  "row_dom p rows i =
     (let row = rows ! i;
          expandable = (fr_kind row = row_open \<or> fr_kind row = row_collapsed)
      in El ''div'' [(''data-index'', lat (showNat i))]
           ((if expandable then [(''click'', row_event (do_toggle (fr_nodeId row)))] else [])
            @ [(''contextmenu'', right_click_row i)])
           (child_if (isForest p) [DocGutter row]
            @ map (map_dom row_event) (JsonTreeRow row)))"

definition JsonTreeViewer :: "ViewerProps \<Rightarrow> glyph list \<Rightarrow> nat list \<Rightarrow> ViewerState \<Rightarrow> ViewerEvent dom" where
  "JsonTreeViewer p ariaLabel items s =
     (let rows = viewer_rows p s
      in El ''div'' [] []
           (child_if (vp_truncated p) [TruncationBanner (isForest p)]
            @ [El ''ContextMenu'' [] []
                 [El ''div'' [(''aria-label'', ariaLabel)] [(''contextmenu'', right_click_space)]
                    [El ''div'' [] [] (map (row_dom p rows) (filter (\<lambda>i. i < length rows) items))],
                  El ''ContextMenuContent'' [] []
                    [El ''ContextMenuItem'' (attr_if (jv_menuRow s = None) ''disabled'' (lat ''true''))
                       [(''select'', menu_copy_value)] [Txt (lat ''Copy value'')],
                     El ''ContextMenuItem'' (attr_if (jv_menuRow s = None) ''disabled'' (lat ''true''))
                       [(''select'', menu_copy_path)] [Txt (lat ''Copy path'')]]]]))"

text \<open>
  A run: what is rendered and what is put on the clipboard after each event, with the items the
  virtualizer gives then.
\<close>

fun viewer_run ::
    "ViewerProps \<Rightarrow> glyph list \<Rightarrow> (ViewerEvent \<times> nat list) list \<Rightarrow> ViewerState \<Rightarrow>
     (ViewerEvent dom \<times> string option) list" where
  "viewer_run p label [] s = []"
| "viewer_run p label ((ev, items) # evs) s =
     (let (s', clip) = viewer_step p ev s
      in (JsonTreeViewer p label items s', clip) # viewer_run p label evs s')"

section \<open>Lookup and descendants\<close>

lemma findNode_Some:
  "findNodeInSubtree n i = Some x \<Longrightarrow> x \<in> set (preorder n) \<and> n_id x = i"
  "findNodeById ns i = Some x \<Longrightarrow> x \<in> set (preorders ns) \<and> n_id x = i"
  by (induction n i and ns i rule: findNodeInSubtree_findNodeById.induct)
     (auto split: if_splits option.splits)

lemma findNode_None:
  "findNodeInSubtree n i = None \<longleftrightarrow> i \<notin> n_id ` set (preorder n)"
  "findNodeById ns i = None \<longleftrightarrow> i \<notin> n_id ` set (preorders ns)"
  by (induction n i and ns i rule: findNodeInSubtree_findNodeById.induct)
     (auto split: option.splits)

lemma collectDescendantIds_eq: "collectDescendantIds n out = out \<union> n_id ` set (preorders (n_children n))"
proof (induction n out rule: collectDescendantIds.induct)
  case (1 i ty path depth key val children cc trunc total_nodes out)
  have "set cs \<subseteq> set children \<Longrightarrow>
      foldl (\<lambda>out child. collectDescendantIds child (insert (n_id child) out)) out cs
      = out \<union> n_id ` set (preorders cs)" for out cs
  proof (induction cs arbitrary: out)
    case (Cons c cs)
    then show ?case by (simp add: 1 preorder_root [of c] image_Un Un_assoc del: set_concat)
  qed simp
  then show ?case by simp
qed

text \<open>The ids of the subtree of a node of the forest.\<close>

definition subtree_ids :: "JsonTreeNode list \<Rightarrow> nat \<Rightarrow> nat set" where
  "subtree_ids forest i =
     (case findNodeById forest i of None \<Rightarrow> {} | Some node \<Rightarrow> n_id ` set (preorder node))"

lemma forget_limits_eq: "forget_limits forest i m = m |` (- subtree_ids forest i)"
proof (cases "findNodeById forest i")
  case (Some node)
  then have "n_id node = i" using findNode_Some(2) by blast
  with Some show ?thesis
    by (auto simp: forget_limits_def subtree_ids_def collectDescendantIds_eq preorder_root [of node]
        restrict_map_def fun_eq_iff)
qed (simp add: forget_limits_def subtree_ids_def restrict_map_def)

lemma toggle_fields:
  "jv_forest (toggle p i s) = Some (fst (ensureForest p s))"
  "jv_expanded (toggle p i s) =
     (if i \<in> jv_expanded s then jv_expanded s - {i} else insert i (jv_expanded s))"
  "jv_limits (toggle p i s) =
     (if i \<in> jv_expanded s then jv_limits s |` (- subtree_ids (fst (ensureForest p s)) i) else jv_limits s)"
  by (cases "jv_forest s"; simp add: toggle_def ensureForest_def Let_def forget_limits_eq)+

section \<open>The lazy viewer and the eager one\<close>

text \<open>
  The document tag of a row is shown only in a forest: without it the rows of a single tree from
  \<open>flattenTree\<close>, which the Worker sends, and from \<open>flattenForest\<close>, which the viewer uses, are
  the same.
\<close>

definition untag :: "ViewerProps \<Rightarrow> FlatRow \<Rightarrow> FlatRow" where
  "untag p r = (if isForest p then r else r\<lparr>fr_docIndex := None\<rparr>)"

lemma untag_fields [simp]:
  "fr_kind (untag p r) = fr_kind r" "fr_nodeId (untag p r) = fr_nodeId r" "fr_path (untag p r) = fr_path r"
  by (simp_all add: untag_def)

lemma untag_row: "JsonTreeRow (untag p r) = JsonTreeRow r"
  by (cases "fr_kind r")
     (simp_all add: untag_def JsonTreeRow_def JsonTreeShowMore_def JsonTreeRowValue_def indent_width_def)

lemma untag_gutter: "isForest p \<Longrightarrow> untag p r = r"
  by (simp add: untag_def)

lemma row_dom_untag: "i < length rows \<Longrightarrow> row_dom p (map (untag p) rows) i = row_dom p rows i"
  by (cases "isForest p") (simp_all add: row_dom_def Let_def untag_row untag_gutter)

text \<open>
  The states of a viewer that was given rows and of one that was not: the first may have no
  forest yet, and shows the given rows while nothing has changed.
\<close>

definition viewer_sim :: "ViewerProps \<Rightarrow> nat set \<Rightarrow> ViewerState \<Rightarrow> ViewerState \<Rightarrow> bool" where
  "viewer_sim p ex s t \<longleftrightarrow>
     jv_forest t = Some (fst (build_props p)) \<and> jv_treeReady t
     \<and> (jv_forest s = None \<or> jv_forest s = jv_forest t)
     \<and> (jv_treeReady s \<longrightarrow> jv_forest s \<noteq> None)
     \<and> (\<not> jv_treeReady s \<longrightarrow> jv_expanded s = ex \<and> jv_limits s = Map.empty)
     \<and> jv_expanded s = jv_expanded t \<and> jv_limits s = jv_limits t
     \<and> map_option (untag p) (jv_menuRow s) = map_option (untag p) (jv_menuRow t)
     \<and> jv_rowClaimedMenu s = jv_rowClaimedMenu t"

text \<open>
  The viewer whose tree is already there, built at once, with the expansion it mounts with; the
  props of a viewer that is given neither rows nor expansion; and props with the same body.
\<close>

definition built_mount :: "ViewerProps \<Rightarrow> ViewerState" where
  "built_mount p = (viewer_mount p)\<lparr>jv_forest := Some (fst (build_props p)), jv_treeReady := True\<rparr>"

abbreviation plain :: "ViewerProps \<Rightarrow> ViewerProps" where
  "plain p \<equiv> p\<lparr>vp_initialRows := None, vp_initialExpanded := None\<rparr>"

definition same_body :: "ViewerProps \<Rightarrow> ViewerProps \<Rightarrow> bool" where
  "same_body p q \<longleftrightarrow> vp_value p = vp_value q \<and> vp_documents p = vp_documents q \<and> vp_truncated p = vp_truncated q"

text \<open>The rows the Worker sends: those of the built forest, for the expansion it sends.\<close>

definition worker_rows_ok :: "ViewerProps \<Rightarrow> bool" where
  "worker_rows_ok p = (case (vp_initialRows p, vp_initialExpanded p) of
     (Some rows, Some ex) \<Rightarrow>
       map (untag p) rows = map (untag p) (flattenForest (fst (build_props p)) ex Map.empty)
   | _ \<Rightarrow> False)"

lemma same_body_simps:
  "same_body p q \<Longrightarrow> build_props q = build_props p" "same_body p q \<Longrightarrow> isForest q = isForest p"
  "same_body p q \<Longrightarrow> untag q = untag p" "same_body p q \<Longrightarrow> vp_truncated q = vp_truncated p"
  by (simp_all add: same_body_def build_props_def isForest_def untag_def [abs_def])

lemma sim_ensure:
  assumes "viewer_sim p ex s t"
  shows "fst (ensureForest p s) = fst (build_props p)" "ensureForest q t = (fst (build_props p), t)"
    "snd (ensureForest p s) = s\<lparr>jv_forest := Some (fst (build_props p))\<rparr>"
  using assms by (auto simp: viewer_sim_def ensureForest_def Let_def)

lemmas viewer_defs = viewer_step_def row_step_def toggle_def showMore_def showAll_def copyValue_def
  row_context_menu_def container_context_menu_def copyPath_def

lemma sim_rows:
  assumes "worker_rows_ok p" "vp_initialExpanded p = Some ex" "viewer_sim p ex s t"
  shows "map (untag p) (viewer_rows p s) = map (untag p) (viewer_rows q t)"
  using assms
  by (cases "jv_treeReady s") (auto simp: viewer_sim_def viewer_rows_def worker_rows_ok_def split: option.splits)

lemma sim_copy_value:
  assumes "viewer_sim p ex s t"
  shows "snd (viewer_step p menu_copy_value s) = snd (viewer_step q menu_copy_value t)
    \<and> viewer_sim p ex (fst (viewer_step p menu_copy_value s)) (fst (viewer_step q menu_copy_value t))"
proof -
  note sm = assms [unfolded viewer_sim_def]
  obtain f s1 where e: "ensureForest p s = (f, s1)" by fastforce
  then have f: "f = fst (build_props p)" "s1 = s\<lparr>jv_forest := Some (fst (build_props p))\<rparr>"
    using sim_ensure [OF assms] by simp_all
  show ?thesis
  proof (cases "jv_menuRow s")
    case None
    with sm have "jv_menuRow t = None" by (metis map_option_is_None)
    with None assms show ?thesis by (simp add: viewer_step_def)
  next
    case (Some a)
    with sm obtain b where b: "jv_menuRow t = Some b" "untag p a = untag p b"
      by (metis map_option_eq_Some option.simps(9))
    then have id: "fr_nodeId a = fr_nodeId b" by (metis untag_fields(2))
    have "viewer_sim p ex (s\<lparr>jv_forest := Some (fst (build_props p))\<rparr>) t"
      using assms by (auto simp: viewer_sim_def)
    with Some b(1) id show ?thesis
      by (simp add: viewer_step_def copyValue_def e f sim_ensure(2) [OF assms])
  qed
qed

lemma sim_step:
  assumes "worker_rows_ok p" "vp_initialExpanded p = Some ex" "viewer_sim p ex s t"
  shows "snd (viewer_step p ev s) = snd (viewer_step q ev t)
    \<and> viewer_sim p ex (fst (viewer_step p ev s)) (fst (viewer_step q ev t))"
proof -
  obtain f s1 where e: "ensureForest p s = (f, s1)" by fastforce
  then have f: "f = fst (build_props p)" "s1 = s\<lparr>jv_forest := Some (fst (build_props p))\<rparr>"
    using sim_ensure [OF assms(3)] by simp_all
  note sm = assms(3) [unfolded viewer_sim_def]
  have len: "length (viewer_rows p s) = length (viewer_rows q t)"
    using arg_cong [OF sim_rows [OF assms], of length] by simp
  show ?thesis
  proof (cases ev)
    case (row_event a)
    then show ?thesis
      using sm e f sim_ensure(2) [OF assms(3)]
      by (cases a) (auto simp: viewer_defs viewer_sim_def Let_def)
  next
    case (right_click_row i)
    have row: "untag p (viewer_rows p s ! i) = untag p (viewer_rows q t ! i)"
      if "i < length (viewer_rows p s)"
      using that len arg_cong [OF sim_rows [OF assms, of q], of "\<lambda>xs. xs ! i"] by simp
    then have "fr_kind (viewer_rows p s ! i) = fr_kind (viewer_rows q t ! i)"
      if "i < length (viewer_rows p s)"
      using that by (metis untag_fields(1))
    with row right_click_row show ?thesis
      using sm len by (auto simp: viewer_defs viewer_sim_def)
  next
    case menu_copy_value
    with sim_copy_value [OF assms(3)] show ?thesis by simp
  next
    case menu_copy_path
    have "map_option copyPath (map_option (untag p) m) = map_option copyPath m" for m
      by (cases m) (simp_all add: copyPath_def)
    with sm have "map_option copyPath (jv_menuRow s) = map_option copyPath (jv_menuRow t)" by metis
    with assms(3) show ?thesis by (simp add: menu_copy_path viewer_step_def)
  qed (use sm in \<open>auto simp: viewer_defs viewer_sim_def\<close>)
qed

lemma sim_dom:
  assumes "worker_rows_ok p" "vp_initialExpanded p = Some ex" "viewer_sim p ex s t" and body: "same_body p q"
  shows "JsonTreeViewer p label items s = JsonTreeViewer q label items t"
proof -
  have rows: "map (untag p) (viewer_rows p s) = map (untag p) (viewer_rows q t)"
    by (rule sim_rows [OF assms(1-3)])
  have len: "length (viewer_rows p s) = length (viewer_rows q t)"
    using arg_cong [OF rows, of length] by simp
  have "row_dom p (viewer_rows p s) i = row_dom q (viewer_rows q t) i"
    if "i < length (viewer_rows p s)" for i
    using row_dom_untag [of i "viewer_rows p s" p] row_dom_untag [of i "viewer_rows q t" p] that len
    by (simp add: rows) (simp add: row_dom_def same_body_simps [OF body])
  then have "map (row_dom p (viewer_rows p s)) (filter (\<lambda>i. i < length (viewer_rows p s)) items) =
      map (row_dom q (viewer_rows q t)) (filter (\<lambda>i. i < length (viewer_rows q t)) items)"
    using len by simp
  moreover have "jv_menuRow s = None \<longleftrightarrow> jv_menuRow t = None"
    using assms(3) unfolding viewer_sim_def by (metis map_option_is_None)
  ultimately show ?thesis
    by (simp add: JsonTreeViewer_def Let_def same_body_simps [OF body])
qed

lemma viewer_sim_mount:
  "vp_initialRows p = Some rows \<Longrightarrow> vp_initialExpanded p = Some ex \<Longrightarrow>
   viewer_sim p ex (viewer_mount p) (built_mount p)"
  by (simp add: viewer_sim_def viewer_mount_def built_mount_def Let_def)

lemma plain_mount:
  assumes "vp_initialExpanded p = Some (defaultExpandedFor (build_props p) (isForest p))"
  shows "viewer_mount (plain p) = built_mount p"
proof -
  have "same_body p (plain p)" by (simp add: same_body_def)
  then show ?thesis using assms
    by (simp add: viewer_mount_def built_mount_def same_body_simps [of p "plain p"] Let_def)
qed

lemma sim_run:
  assumes "worker_rows_ok p" "vp_initialExpanded p = Some ex" and body: "same_body p q"
  shows "viewer_sim p ex s t \<Longrightarrow> viewer_run p label evs s = viewer_run q label evs t"
proof (induction evs arbitrary: s t)
  case (Cons e evs)
  obtain ev items where e: "e = (ev, items)" by fastforce
  obtain s' c t' c' where st: "viewer_step p ev s = (s', c)" "viewer_step q ev t = (t', c')" by fastforce
  from sim_step [OF assms(1,2) Cons.prems, of ev q] have "c = c'" "viewer_sim p ex s' t'" by (simp_all add: st)
  with Cons.IH sim_dom [OF assms(1,2) _ body] show ?case by (simp add: e st)
qed simp

lemma same_body_plain: "same_body p p" "same_body p (plain p)"
  by (simp_all add: same_body_def)

lemma viewer_refines:
  assumes "worker_rows_ok p"
  shows "viewer_run p label evs (viewer_mount p) = viewer_run p label evs (built_mount p)"
    and "JsonTreeViewer p label items (viewer_mount p) = JsonTreeViewer p label items (built_mount p)"
    and "vp_initialExpanded p = Some (defaultExpandedFor (build_props p) (isForest p)) \<Longrightarrow>
      viewer_run p label evs (viewer_mount p) = viewer_run (plain p) label evs (viewer_mount (plain p))"
    and "vp_initialExpanded p = Some (defaultExpandedFor (build_props p) (isForest p)) \<Longrightarrow>
      JsonTreeViewer p label items (viewer_mount p) = JsonTreeViewer (plain p) label items (viewer_mount (plain p))"
proof -
  obtain rows ex where p: "vp_initialRows p = Some rows" "vp_initialExpanded p = Some ex"
    using assms by (auto simp: worker_rows_ok_def split: option.splits)
  note sim = viewer_sim_mount [OF p] and run = sim_run [OF assms p(2)] and dom = sim_dom [OF assms p(2)]
  show "viewer_run p label evs (viewer_mount p) = viewer_run p label evs (built_mount p)"
    by (rule run [OF same_body_plain(1) sim])
  show "JsonTreeViewer p label items (viewer_mount p) = JsonTreeViewer p label items (built_mount p)"
    by (rule dom [OF sim same_body_plain(1)])
  assume e: "vp_initialExpanded p = Some (defaultExpandedFor (build_props p) (isForest p))"
  show "viewer_run p label evs (viewer_mount p) = viewer_run (plain p) label evs (viewer_mount (plain p))"
    unfolding plain_mount [OF e] by (rule run [OF same_body_plain(2) sim])
  show "JsonTreeViewer p label items (viewer_mount p) = JsonTreeViewer (plain p) label items (viewer_mount (plain p))"
    unfolding plain_mount [OF e] by (rule dom [OF sim same_body_plain(2)])
qed

section \<open>Properties\<close>

text \<open>
  Property C9. A viewer that is given the rows and the expansion of the Worker, and builds the
  tree only when it is first needed, cannot be told from one whose tree was built at once and which
  starts with that expansion: it renders the same on mount, and after every sequence of toggles,
  show-more and show-all clicks, right-clicks and copies it renders the same and puts the same text
  on the clipboard. When the Worker's expansion is the viewer's own default, the same holds of a
  viewer that is given neither rows nor expansion and computes both itself.
\<close>

theorem lazy_viewer_refines_eager:
  assumes "worker_rows_ok p"
  shows "JsonTreeViewer p label items (viewer_mount p) = JsonTreeViewer p label items (built_mount p)
    \<and> viewer_run p label evs (viewer_mount p) = viewer_run p label evs (built_mount p)
    \<and> (vp_initialExpanded p = Some (defaultExpandedFor (build_props p) (isForest p)) \<longrightarrow>
        JsonTreeViewer p label items (viewer_mount p) = JsonTreeViewer (plain p) label items (viewer_mount (plain p))
        \<and> viewer_run p label evs (viewer_mount p) = viewer_run (plain p) label evs (viewer_mount (plain p)))"
  using viewer_refines [OF assms] by blast

definition sample_props :: ViewerProps where
  "sample_props =
     \<lparr>vp_input = 1, vp_value = sample_json, vp_documents = None,
      vp_initialRows = Some (flattenTree (buildJsonTree sample_json) {0, 1} Map.empty),
      vp_initialExpanded = Some {0, 1}, vp_truncated = False\<rparr>"

lemma single_tree_rows:
  "\<not> isForest p \<Longrightarrow> map (untag p) (flattenTree t ex m) = map (untag p) (flattenForest [t] ex m)"
  by (cases "flattenNode t True ex m") (simp_all add: flattenTree_def flattenForest_def tag_document_def untag_def)

theorem lazy_viewer_refines_eager_witness:
  "JsonTreeViewer sample_props [] [0, 1] (viewer_mount sample_props)
     = JsonTreeViewer sample_props [] [0, 1] (built_mount sample_props)
   \<and> viewer_run sample_props [] [(row_event (do_toggle 2), [0, 1, 2]), (right_click_row 1, [0])] (viewer_mount sample_props)
     = viewer_run (plain sample_props) [] [(row_event (do_toggle 2), [0, 1, 2]), (right_click_row 1, [0])]
         (viewer_mount (plain sample_props))"
proof -
  have "worker_rows_ok sample_props"
    by (simp add: worker_rows_ok_def single_tree_rows isForest_def sample_props_def build_props_def buildForest_def)
  moreover have "vp_initialExpanded sample_props = Some (defaultExpandedFor (build_props sample_props) (isForest sample_props))"
    by code_simp
  ultimately show ?thesis using lazy_viewer_refines_eager by blast
qed

text \<open>
  The comment on the prop says that \<open>initialExpanded\<close> is ignored without \<open>initialRows\<close>. The
  initializer uses it all the same, while a later body with such props starts with the default.
\<close>

theorem expansion_used_without_rows:
  assumes "vp_initialRows p = None" "vp_initialExpanded p = Some ex" "vp_input p \<noteq> jv_prevInput s"
  shows "jv_expanded (viewer_mount p) = ex
    \<and> jv_expanded (viewer_rerender p s) = defaultExpandedFor (build_props p) (isForest p)"
  using assms by (simp add: viewer_mount_def viewer_rerender_def Let_def)

theorem expansion_used_without_rows_witness:
  "jv_expanded (viewer_mount (sample_props\<lparr>vp_initialRows := None, vp_initialExpanded := Some {2}\<rparr>)) = {2}"
  using expansion_used_without_rows [of "sample_props\<lparr>vp_initialRows := None, vp_initialExpanded := Some {2}\<rparr>" "{2}"
      "(viewer_mount sample_props)\<lparr>jv_prevInput := 9\<rparr>"]
  by (simp add: sample_props_def)

text \<open>
  Rendering another body resets the viewer to what a fresh mount with that body
  has: forest, expansion and windows of the last body are gone.
\<close>

theorem new_body_resets_viewer:
  assumes "vp_input p \<noteq> jv_prevInput s" "vp_initialRows p = None \<longleftrightarrow> vp_initialExpanded p = None"
  shows "let s' = viewer_rerender p s; m = viewer_mount p
    in jv_forest s' = jv_forest m \<and> jv_treeReady s' = jv_treeReady m \<and> jv_expanded s' = jv_expanded m
     \<and> jv_limits s' = jv_limits m \<and> viewer_rows p s' = viewer_rows p m \<and> viewer_rerender p s' = s'"
  using assms by (auto simp: viewer_rerender_def viewer_mount_def viewer_rows_def Let_def)

theorem new_body_resets_viewer_witness:
  "let p = sample_props\<lparr>vp_input := 2\<rparr>; s' = viewer_rerender p (viewer_mount sample_props); m = viewer_mount p
    in jv_forest s' = jv_forest m \<and> jv_treeReady s' = jv_treeReady m \<and> jv_expanded s' = jv_expanded m
     \<and> jv_limits s' = jv_limits m \<and> viewer_rows p s' = viewer_rows p m \<and> viewer_rerender p s' = s'"
  using new_body_resets_viewer [of "sample_props\<lparr>vp_input := 2\<rparr>" "viewer_mount sample_props"]
  by (simp add: Let_def sample_props_def viewer_mount_def)

text \<open>
  Toggling a node twice restores the expansion, and forgets the windows of the node
  and of everything below it, and of nothing else: after a collapse the next expansion starts
  from the first window again.
\<close>

theorem toggle_twice_forgets_windows:
  "let s' = toggle p i (toggle p i s); forest = fst (ensureForest p s)
   in jv_expanded s' = jv_expanded s \<and> jv_limits s' = jv_limits s |` (- subtree_ids forest i)
      \<and> jv_forest s' = Some forest"
proof -
  let ?f = "fst (ensureForest p s)"
  note t1 = toggle_fields [of p i s]
  have "fst (ensureForest p (toggle p i s)) = ?f"
    using t1(1) by (simp add: ensureForest_def)
  then show ?thesis
    using t1 toggle_fields [of p i "toggle p i s"] by (auto simp: Let_def)
qed

lemma showMore_limit:
  "jv_limits (showMore p i n s) i = Some (min ((case jv_limits s i of Some k \<Rightarrow> k | None \<Rightarrow> CONTAINER_WINDOW)
     + CONTAINER_WINDOW) n)"
  by (auto simp: showMore_def Let_def ensureForest_def split: option.split)

lemma showMore_limits:
  "jv_limits s i = None \<Longrightarrow> 0 < k \<Longrightarrow>
   jv_limits ((showMore p i n ^^ k) s) i = Some (min (100 * k + 100) n)"
proof (induction k)
  case (Suc k)
  then show ?case
    by (cases "k = 0")
       (simp_all add: showMore_limit CONTAINER_WINDOW_def LARGE_CONTAINER_CHILD_COUNT_def min_def)
qed simp

text \<open>
  Property C32. Pressing "Show more" on a container of n children reveals the next 100 each time:
  after k presses 100 (k + 1) children are shown, and n / 100 presses reveal all of them.
\<close>

theorem show_more_reaches_all:
  assumes "jv_limits s i = None"
  shows "shown_children (jv_limits ((showMore p i n ^^ k) s)) i n = min (100 * k + 100) n
    \<and> shown_children (jv_limits ((showMore p i n ^^ (n div 100)) s)) i n = n"
proof -
  have "shown_children (jv_limits ((showMore p i n ^^ k) s)) i n = min (100 * k + 100) n" for k
    using assms showMore_limits [of s i k p n]
    by (cases "k = 0")
       (simp_all add: shown_children_def CONTAINER_WINDOW_def LARGE_CONTAINER_CHILD_COUNT_def min_def)
  moreover have "min (100 * (n div 100) + 100) n = n" by (intro min_absorb2) simp
  ultimately show ?thesis by simp
qed

theorem show_more_reaches_all_witness:
  "shown_children (jv_limits ((showMore sample_props 0 250 ^^ 1) (viewer_mount sample_props))) 0 250 = min (100 * 1 + 100) 250
   \<and> shown_children (jv_limits ((showMore sample_props 0 250 ^^ (250 div 100)) (viewer_mount sample_props))) 0 250 = 250"
  by (rule show_more_reaches_all) (simp add: viewer_mount_def Let_def)

end
