(* ===== verification/Worker_Client.thy ===== *)
theory Worker_Client
  imports Prelude
begin

text \<open>
  The contract of a client of a Web Worker, as \<open>body/json-parse.ts\<close> and \<open>body/markup-format.ts\<close>
  implement it: jobs get ids from a counter, wait in a map of pending jobs and are settled by a
  message of the Worker, by a fatal error of the Worker, or at once when the Worker cannot be
  reached. The two clients interpret the locale in their own theories.

  A client's state is seen through its counter, the ids of the pending jobs and the ids of the
  settled promises in the order of their settlement.
\<close>

datatype JsError = SyntaxError string | GeneralError string

datatype ('i, 'm, 'e) client_event =
    start_job 'i
  | worker_message 'm
  | worker_error 'e

text \<open>The state after a sequence of calls, messages and errors.\<close>

fun client_run ::
    "('i \<Rightarrow> 's \<Rightarrow> string \<times> 's) \<Rightarrow> ('m \<Rightarrow> 's \<Rightarrow> 's) \<Rightarrow> ('e \<Rightarrow> 's \<Rightarrow> 's) \<Rightarrow>
     ('i, 'm, 'e) client_event list \<Rightarrow> 's \<Rightarrow> 's" where
  "client_run run message fatal [] s = s"
| "client_run run message fatal (ev # evs) s =
     client_run run message fatal evs
       (case ev of
          start_job x \<Rightarrow> snd (run x s)
        | worker_message m \<Rightarrow> message m s
        | worker_error e \<Rightarrow> fatal e s)"

text \<open>Every job started so far is pending or settled, and only one of them, and only once.\<close>

definition jobs_ok :: "nat \<Rightarrow> string list \<Rightarrow> string list \<Rightarrow> bool" where
  "jobs_ok counter pending settled \<longleftrightarrow>
     distinct (settled @ pending) \<and> set (settled @ pending) = showNat ` {..<counter}"

lemma jobs_ok_fresh: "jobs_ok n pending settled \<Longrightarrow> showNat n \<notin> set pending \<and> showNat n \<notin> set settled"
proof -
  have "showNat n \<notin> showNat ` {..<n}" by auto
  then show "jobs_ok n pending settled \<Longrightarrow> showNat n \<notin> set pending \<and> showNat n \<notin> set settled"
    unfolding jobs_ok_def by (metis UnI1 UnI2 set_append)
qed

lemma jobs_ok_start:
  assumes "jobs_ok n pending settled"
  shows "jobs_ok (Suc n) (pending @ [showNat n]) settled" "jobs_ok (Suc n) pending (settled @ [showNat n])"
  using assms jobs_ok_fresh [OF assms] by (auto simp: jobs_ok_def lessThan_Suc)

lemma jobs_ok_settle:
  assumes "jobs_ok n pending settled" "j \<in> set pending"
  shows "jobs_ok n (remove1 j pending) (settled @ [j])"
  using assms by (auto simp: jobs_ok_def distinct_remove1)

lemma jobs_ok_crash: "jobs_ok n pending settled \<Longrightarrow> jobs_ok n [] (settled @ pending)"
  by (simp add: jobs_ok_def)

text \<open>The events that settle a pending job.\<close>

definition settles :: "('m \<Rightarrow> string) \<Rightarrow> string \<Rightarrow> ('i, 'm, 'e) client_event \<Rightarrow> bool" where
  "settles message_job j ev = (case ev of
     start_job x \<Rightarrow> False | worker_message m \<Rightarrow> message_job m = j | worker_error e \<Rightarrow> True)"

locale worker_client =
  fixes run :: "'i \<Rightarrow> 's \<Rightarrow> string \<times> 's"
    and message :: "'m \<Rightarrow> 's \<Rightarrow> 's"
    and fatal :: "'e \<Rightarrow> 's \<Rightarrow> 's"
    and message_job :: "'m \<Rightarrow> string"
    and counter :: "'s \<Rightarrow> nat"
    and pending :: "'s \<Rightarrow> string list"
    and settled :: "'s \<Rightarrow> string list"
  assumes run_counter: "counter (snd (run x s)) = Suc (counter s)"
    and run_id: "fst (run x s) = showNat (counter s)"
    and run_job: "showNat (counter s) \<notin> set (pending s) \<Longrightarrow>
      (pending (snd (run x s)), settled (snd (run x s)))
      \<in> {(pending s @ [showNat (counter s)], settled s), (pending s, settled s @ [showNat (counter s)])}"
    and message_known: "message_job m \<in> set (pending s) \<Longrightarrow>
      pending (message m s) = remove1 (message_job m) (pending s)
      \<and> settled (message m s) = settled s @ [message_job m]"
    and message_unknown: "message_job m \<notin> set (pending s) \<Longrightarrow> message m s = s"
    and message_counter: "counter (message m s) = counter s"
    and fatal_jobs: "pending (fatal e s) = [] \<and> settled (fatal e s) = settled s @ pending s"
    and fatal_counter: "counter (fatal e s) = counter s"
begin

abbreviation ok :: "'s \<Rightarrow> bool" where
  "ok s \<equiv> jobs_ok (counter s) (pending s) (settled s)"

lemma ok_run: "ok s \<Longrightarrow> ok (snd (run x s))"
  using run_job [of s x] jobs_ok_fresh jobs_ok_start [of "counter s" "pending s" "settled s"]
  by (auto simp: run_counter)

lemma ok_message: "ok s \<Longrightarrow> ok (message m s)"
  using jobs_ok_settle message_known message_unknown
  by (cases "message_job m \<in> set (pending s)") (simp_all add: message_counter)

lemma ok_fatal: "ok s \<Longrightarrow> ok (fatal e s)"
  using fatal_jobs [of e s] by (simp add: jobs_ok_crash fatal_counter)

lemma ok_client_run: "ok s \<Longrightarrow> ok (client_run run message fatal evs s)"
  by (induction evs arbitrary: s) (auto simp: ok_run ok_message ok_fatal split: client_event.split)

text \<open>Settled promises stay settled, and a second message for a job does nothing.\<close>

lemma settled_grows: "ok s \<Longrightarrow> \<exists>more. settled (client_run run message fatal evs s) = settled s @ more"
proof (induction evs arbitrary: s)
  case (Cons ev evs)
  define s' where "s' = (case ev of start_job x \<Rightarrow> snd (run x s) | worker_message m \<Rightarrow> message m s
    | worker_error e \<Rightarrow> fatal e s)"
  have "ok s'" using Cons.prems unfolding s'_def
    by (auto simp: ok_run ok_message ok_fatal split: client_event.split)
  moreover have "\<exists>more. settled s' = settled s @ more"
  proof (cases ev)
    case (start_job x)
    then show ?thesis using run_job [of s x] jobs_ok_fresh [OF Cons.prems] by (auto simp: s'_def)
  next
    case (worker_message m)
    then show ?thesis
      using message_known [of m s] message_unknown [of m s]
      by (cases "message_job m \<in> set (pending s)") (simp_all add: s'_def)
  next
    case (worker_error e)
    then show ?thesis using fatal_jobs [of e s] by (simp add: s'_def)
  qed
  ultimately show ?case using Cons.IH [of s'] by (auto simp: s'_def [symmetric])
qed simp

text \<open>A pending job waits until a message for it or a fatal error arrives, and is settled then.\<close>

lemma pending_stays:
  "ok s \<Longrightarrow> j \<in> set (pending s) \<Longrightarrow> \<not> list_ex (settles message_job j) evs \<Longrightarrow>
   j \<in> set (pending (client_run run message fatal evs s))"
proof (induction evs arbitrary: s)
  case (Cons ev evs)
  show ?case
  proof (cases ev)
    case (start_job x)
    then show ?thesis
      using Cons run_job [of s x] jobs_ok_fresh [OF Cons.prems(1)] ok_run [of s x] by auto
  next
    case (worker_message m)
    then have "j \<in> set (pending (message m s))"
      using Cons.prems message_known [of m s] message_unknown [of m s]
      by (cases "message_job m \<in> set (pending s)") (auto simp: settles_def)
    with worker_message Cons ok_message show ?thesis by simp
  qed (use Cons.prems in \<open>simp add: settles_def\<close>)
qed simp

lemma pending_settles:
  "ok s \<Longrightarrow> j \<in> set (pending s) \<Longrightarrow> list_ex (settles message_job j) evs \<Longrightarrow>
   j \<in> set (settled (client_run run message fatal evs s))"
proof (induction evs arbitrary: s)
  case (Cons ev evs)
  define s' where "s' = (case ev of start_job x \<Rightarrow> snd (run x s) | worker_message m \<Rightarrow> message m s
    | worker_error e \<Rightarrow> fatal e s)"
  have ok': "ok s'" using Cons.prems(1) unfolding s'_def
    by (auto simp: ok_run ok_message ok_fatal split: client_event.split)
  show ?case
  proof (cases "settles message_job j ev")
    case True
    then have "j \<in> set (settled s')"
      using Cons.prems(2) fatal_jobs [of _ s] message_known [of _ s]
      by (auto simp: s'_def settles_def split: client_event.splits)
    then show ?thesis using settled_grows [OF ok', of evs] by (auto simp: s'_def)
  next
    case False
    then have "j \<in> set (pending s')"
      using pending_stays [OF Cons.prems(1,2), of "[ev]"] by (simp add: s'_def)
    with Cons.IH [OF ok'] Cons.prems(3) False show ?thesis by (simp add: s'_def)
  qed
qed simp

lemma settled_once:
  assumes "ok s" "message_job m \<in> set (settled s)"
  shows "message m s = s"
  using assms message_unknown by (auto simp: jobs_ok_def)

end

end
