(* ===== verification/Json_Parse.thy ===== *)
theory Json_Parse
  imports Json_Viewer Worker_Client
begin

text \<open>
  Parsing JSON bodies off the UI thread: the core \<open>body/json-parse-core.ts\<close>, the Worker script
  \<open>body/json-parse.worker.ts\<close> and the client \<open>body/json-parse.ts\<close>.

  Parameters, beside \<open>json_parse\<close> of the platform: \<open>json_error\<close> is the message of the error that
  \<open>JSON.parse\<close> throws, \<open>best_effort\<close> the parser of the package best-effort-json-parser, \<open>Inl\<close>
  with the message of what it throws. Timings, which only feed performance measurements, are
  left out.

  Shown: which documents an NDJSON body has and when it counts as truncated; the rows the Worker
  sends are those the viewer builds itself; every job is settled exactly once.
\<close>

section \<open>The core\<close>

record parse_platform = platform +
  json_error :: "string \<Rightarrow> string"
  best_effort :: "string \<Rightarrow> string + JsonValue"

record ParseResult =
  pr_parsed :: JsonValue
  pr_prettyText :: string

record TruncatableParseResult = ParseResult +
  pr_truncated :: bool

definition parseAndFormat :: "'a parse_platform_scheme \<Rightarrow> string \<Rightarrow> string + ParseResult" where
  "parseAndFormat P txt = (case json_parse P txt of
     None \<Rightarrow> Inl (json_error P txt)
   | Some parsed \<Rightarrow> Inr \<lparr>pr_parsed = parsed, pr_prettyText = json_pretty parsed\<rparr>)"

fun is_structural :: "JsonValue \<Rightarrow> bool" where
  "is_structural (JArray vs) = True"
| "is_structural (JObject es) = True"
| "is_structural v = False"

definition parseWithTruncation :: "'a parse_platform_scheme \<Rightarrow> string \<Rightarrow> string + TruncatableParseResult" where
  "parseWithTruncation P txt = (case parseAndFormat P txt of
     Inr r \<Rightarrow> Inr \<lparr>pr_parsed = pr_parsed r, pr_prettyText = pr_prettyText r, pr_truncated = False\<rparr>
   | Inl strictError \<Rightarrow> (case best_effort P txt of
       Inl e \<Rightarrow> Inl e
     | Inr recovered \<Rightarrow>
         if \<not> is_structural recovered then Inl strictError
         else Inr \<lparr>pr_parsed = recovered, pr_prettyText = json_pretty recovered, pr_truncated = True\<rparr>))"

text \<open>The non-blank lines, trimmed, and the loop over them with \<open>documents\<close> and \<open>truncatedDocIndex\<close>.\<close>

definition ndjson_lines :: "string \<Rightarrow> string list" where
  "ndjson_lines txt = filter (\<lambda>line. line \<noteq> []) (map trim (split_on newline txt))"

fun ndjson_loop :: "'a parse_platform_scheme \<Rightarrow> string list \<Rightarrow> JsonValue list \<Rightarrow> nat option \<Rightarrow> JsonValue list \<times> nat option" where
  "ndjson_loop P [] documents truncatedDocIndex = (documents, truncatedDocIndex)"
| "ndjson_loop P (line # rest) documents truncatedDocIndex =
     (let isLast = (rest = []);
          (documents', truncated') =
            (case json_parse P line of
               Some v \<Rightarrow> (documents @ [v], truncatedDocIndex)
             | None \<Rightarrow>
                 if \<not> isLast then (documents, truncatedDocIndex)
                 else (case parseWithTruncation P line of
                     Inr r \<Rightarrow> (documents @ [pr_parsed r], Some (length (documents @ [pr_parsed r]) - 1))
                   | Inl _ \<Rightarrow> (documents, truncatedDocIndex)))
      in ndjson_loop P rest documents' truncated')"

definition parseNdjson :: "'a parse_platform_scheme \<Rightarrow> string \<Rightarrow> JsonValue list \<times> nat option" where
  "parseNdjson P txt = ndjson_loop P (ndjson_lines txt) [] None"

section \<open>The Worker\<close>

datatype ParseMode = mode_json | mode_ndjson

record JsonParseResult =
  jp_parsed :: "JsonValue option"
  jp_documents :: "JsonValue list option"
  jp_prettyText :: string
  jp_rows :: "FlatRow list"
  jp_defaultExpanded :: "nat set"
  jp_truncated :: bool

datatype OutMessage = out_ok string JsonParseResult | out_error string string

definition buildJson :: "'a parse_platform_scheme \<Rightarrow> string \<Rightarrow> string + JsonParseResult" where
  "buildJson P txt = (case parseWithTruncation P txt of
     Inl e \<Rightarrow> Inl e
   | Inr r \<Rightarrow>
       let tree = buildJsonTree (pr_parsed r);
           defaultExpanded = computeDefaultExpanded tree no_expand_options;
           (tree', ancestorIds) = (if pr_truncated r then markTruncationPoint tree else (tree, []));
           defaultExpanded' = defaultExpanded \<union> set ancestorIds
       in Inr \<lparr>jp_parsed = Some (pr_parsed r), jp_documents = None, jp_prettyText = pr_prettyText r,
               jp_rows = flattenTree tree' defaultExpanded' Map.empty,
               jp_defaultExpanded = defaultExpanded', jp_truncated = pr_truncated r\<rparr>)"

definition buildNdjson :: "'a parse_platform_scheme \<Rightarrow> string \<Rightarrow> string + JsonParseResult" where
  "buildNdjson P txt =
     (let (documents, truncatedDocIndex) = parseNdjson P txt
      in if documents = [] then Inl ''no NDJSON documents''
         else
           let roots = buildJsonForest documents;
               documentSizes = map (\<lambda>doc. length (json_compact doc)) documents;
               defaultExpanded = computeForestDefaultExpanded roots no_expand_options (Some documentSizes);
               (roots', ancestorIds) = (case truncatedDocIndex of
                   None \<Rightarrow> (roots, [])
                 | Some i \<Rightarrow> let (marked, ids) = markTruncationPoint (roots ! i) in (roots[i := marked], ids));
               defaultExpanded' = defaultExpanded \<union> set ancestorIds
           in Inr \<lparr>jp_parsed = None, jp_documents = Some documents,
                   jp_prettyText = join [newline, newline] (map json_pretty documents),
                   jp_rows = flattenForest roots' defaultExpanded' Map.empty,
                   jp_defaultExpanded = defaultExpanded',
                   jp_truncated = (truncatedDocIndex \<noteq> None)\<rparr>)"

definition json_answer :: "'a parse_platform_scheme \<Rightarrow> ParseMode \<Rightarrow> string \<Rightarrow> string + JsonParseResult" where
  "json_answer P mode txt =
     (if mode = mode_ndjson then buildNdjson P txt
      else buildJson P txt)"

text \<open>The message handler of the Worker.\<close>

definition json_worker :: "'a parse_platform_scheme \<Rightarrow> string \<times> string \<times> ParseMode \<Rightarrow> OutMessage" where
  "json_worker P msg = (case msg of (jobId, txt, mode) \<Rightarrow>
     (case json_answer P mode txt of
        Inr r \<Rightarrow> out_ok jobId r
      | Inl e \<Rightarrow> out_error jobId e))"

section \<open>The client\<close>

text \<open>
  \<open>jc_worker\<close> tells whether \<open>_worker\<close> is set; the pending map is the list of its keys, in
  insertion order; \<open>jc_settled\<close> logs the settled promises and \<open>jc_posted\<close> what was posted to the
  Worker. A call carries what the environment answers: the error of the \<open>Worker\<close> constructor,
  consulted when there is no Worker, and the error of \<open>postMessage\<close>.
\<close>

record JsonClient =
  jc_worker :: bool
  jc_jobCounter :: nat
  jc_pending :: "string list"
  jc_settled :: "(string \<times> (JsError + JsonParseResult)) list"
  jc_posted :: "(string \<times> string \<times> ParseMode) list"

record ParseCall =
  call_text :: string
  call_mode :: ParseMode
  call_new_error :: "JsError option"
  call_post_error :: "JsError option"

definition json_client_init :: JsonClient where
  "json_client_init = \<lparr>jc_worker = False, jc_jobCounter = 0, jc_pending = [], jc_settled = [], jc_posted = []\<rparr>"

definition getWorker :: "JsError option \<Rightarrow> JsonClient \<Rightarrow> JsError + JsonClient" where
  "getWorker new_error s =
     (if jc_worker s then Inr s
      else (case new_error of Some e \<Rightarrow> Inl e | None \<Rightarrow> Inr (s\<lparr>jc_worker := True\<rparr>)))"

definition runJob :: "ParseCall \<Rightarrow> JsonClient \<Rightarrow> string \<times> JsonClient" where
  "runJob c s =
     (let jobId = showNat (jc_jobCounter s);
          s1 = s\<lparr>jc_jobCounter := jc_jobCounter s + 1\<rparr>
      in (jobId, case getWorker (call_new_error c) s1 of
           Inl e \<Rightarrow> s1\<lparr>jc_settled := jc_settled s1 @ [(jobId, Inl e)]\<rparr>
         | Inr s2 \<Rightarrow>
             let s3 = s2\<lparr>jc_pending := jc_pending s2 @ [jobId]\<rparr>
             in (case call_post_error c of
                   None \<Rightarrow> s3\<lparr>jc_posted := jc_posted s3 @ [(jobId, call_text c, call_mode c)]\<rparr>
                 | Some e \<Rightarrow> s3\<lparr>jc_pending := remove1 jobId (jc_pending s3),
                               jc_settled := jc_settled s3 @ [(jobId, Inl e)]\<rparr>)))"

fun message_job :: "OutMessage \<Rightarrow> string" where
  "message_job (out_ok jobId r) = jobId"
| "message_job (out_error jobId e) = jobId"

definition message_result :: "OutMessage \<Rightarrow> JsError + JsonParseResult" where
  "message_result msg = (case msg of out_ok jobId r \<Rightarrow> Inr r | out_error jobId e \<Rightarrow> Inl (SyntaxError e))"

definition on_message :: "OutMessage \<Rightarrow> JsonClient \<Rightarrow> JsonClient" where
  "on_message msg s =
     (if message_job msg \<notin> set (jc_pending s) then s
      else s\<lparr>jc_pending := remove1 (message_job msg) (jc_pending s),
             jc_settled := jc_settled s @ [(message_job msg, message_result msg)]\<rparr>)"

definition on_error :: "string option \<Rightarrow> JsonClient \<Rightarrow> JsonClient" where
  "on_error event_message s =
     (let err = GeneralError (case event_message of Some m \<Rightarrow> m | None \<Rightarrow> ''JSON parse worker error'')
      in s\<lparr>jc_worker := False, jc_pending := [],
            jc_settled := jc_settled s @ map (\<lambda>jobId. (jobId, Inl err)) (jc_pending s)\<rparr>)"

definition parseJson_call :: "string \<Rightarrow> ParseCall" where
  "parseJson_call txt = \<lparr>call_text = txt, call_mode = mode_json, call_new_error = None, call_post_error = None\<rparr>"

definition parseNdjson_call :: "string \<Rightarrow> ParseCall" where
  "parseNdjson_call txt = \<lparr>call_text = txt, call_mode = mode_ndjson, call_new_error = None, call_post_error = None\<rparr>"

interpretation json_client: worker_client runJob on_message on_error message_job jc_jobCounter jc_pending
  "\<lambda>s. map fst (jc_settled s)"
proof unfold_locales
  fix c s
  show "jc_jobCounter (snd (runJob c s)) = Suc (jc_jobCounter s)"
    by (auto simp: runJob_def getWorker_def Let_def split: sum.split option.splits if_splits)
  show "fst (runJob c s) = showNat (jc_jobCounter s)"
    by (simp add: runJob_def Let_def)
  show "showNat (jc_jobCounter s) \<notin> set (jc_pending s) \<Longrightarrow>
    (jc_pending (snd (runJob c s)), map fst (jc_settled (snd (runJob c s))))
    \<in> {(jc_pending s @ [showNat (jc_jobCounter s)], map fst (jc_settled s)),
       (jc_pending s, map fst (jc_settled s) @ [showNat (jc_jobCounter s)])}"
    by (cases "jc_worker s"; cases "call_new_error c"; cases "call_post_error c")
       (simp_all add: runJob_def getWorker_def Let_def remove1_append)
next
  fix m s
  show "message_job m \<in> set (jc_pending s) \<Longrightarrow>
    jc_pending (on_message m s) = remove1 (message_job m) (jc_pending s)
    \<and> map fst (jc_settled (on_message m s)) = map fst (jc_settled s) @ [message_job m]"
    by (simp add: on_message_def)
  show "message_job m \<notin> set (jc_pending s) \<Longrightarrow> on_message m s = s" by (simp add: on_message_def)
  show "jc_jobCounter (on_message m s) = jc_jobCounter s" by (simp add: on_message_def)
next
  fix e s
  show "jc_pending (on_error e s) = []
    \<and> map fst (jc_settled (on_error e s)) = map fst (jc_settled s) @ jc_pending s"
    by (simp add: on_error_def Let_def comp_def)
  show "jc_jobCounter (on_error e s) = jc_jobCounter s" by (simp add: on_error_def Let_def)
qed

abbreviation json_run :: "(ParseCall, OutMessage, string option) client_event list \<Rightarrow> JsonClient \<Rightarrow> JsonClient" where
  "json_run \<equiv> client_run runJob on_message on_error"

lemma json_init_ok: "json_client.ok json_client_init"
  by (simp add: json_client_init_def jobs_ok_def)

section \<open>Lines and documents\<close>

text \<open>The document recovered from the last line, when that line is cut.\<close>

definition cut_document :: "'a parse_platform_scheme \<Rightarrow> string list \<Rightarrow> JsonValue option" where
  "cut_document P lines =
     (if lines = [] \<or> json_parse P (last lines) \<noteq> None then None
      else (case best_effort P (last lines) of
          Inr v \<Rightarrow> if is_structural v then Some v else None
        | Inl _ \<Rightarrow> None))"

lemma ndjson_loop_eq:
  "ndjson_loop P lines docs None =
     (let clean = docs @ List.map_filter (json_parse P) lines
      in case cut_document P lines of
           None \<Rightarrow> (clean, None)
         | Some v \<Rightarrow> (clean @ [v], Some (length clean)))"
proof (induction lines arbitrary: docs)
  case (Cons line rest)
  show ?case
  proof (cases "rest = []")
    case True
    then show ?thesis
      by (auto simp: Let_def cut_document_def map_filter_def parseWithTruncation_def parseAndFormat_def
          split: option.split sum.split)
  next
    case False
    then have "cut_document P (line # rest) = cut_document P rest"
      by (simp add: cut_document_def)
    with False Cons.IH show ?thesis
      by (auto simp: Let_def map_filter_def split: option.split)
  qed
qed (simp add: cut_document_def map_filter_def)

section \<open>The rows of the Worker and the viewer\<close>

text \<open>The props with which the body pane shows a result.\<close>

definition result_props :: "nat \<Rightarrow> JsonParseResult \<Rightarrow> ViewerProps" where
  "result_props input r =
     \<lparr>vp_input = input, vp_value = (case jp_parsed r of Some v \<Rightarrow> v | None \<Rightarrow> JNull),
      vp_documents = jp_documents r, vp_initialRows = Some (jp_rows r),
      vp_initialExpanded = Some (jp_defaultExpanded r), vp_truncated = jp_truncated r\<rparr>"

lemma buildJson_rows:
  assumes "buildJson P txt = Inr r"
  shows "worker_rows_ok (result_props input r)"
proof -
  obtain q where q: "parseWithTruncation P txt = Inr q"
    using assms by (auto simp: buildJson_def split: sum.splits)
  obtain tree' ids where m: "(if pr_truncated q then markTruncationPoint (buildJsonTree (pr_parsed q))
      else (buildJsonTree (pr_parsed q), [])) = (tree', ids)"
    by fastforce
  let ?ex = "computeDefaultExpanded (buildJsonTree (pr_parsed q)) no_expand_options \<union> set ids"
  have r: "r = \<lparr>jp_parsed = Some (pr_parsed q), jp_documents = None, jp_prettyText = pr_prettyText q,
      jp_rows = flattenTree tree' ?ex Map.empty, jp_defaultExpanded = ?ex, jp_truncated = pr_truncated q\<rparr>"
    using assms q m by (auto simp: buildJson_def Let_def)
  have "\<not> isForest (result_props input r)" "fst (build_props (result_props input r)) = [tree']"
    using m by (auto simp: r result_props_def isForest_def build_props_def buildForest_def Let_def split: if_splits)
  then show ?thesis
    using single_tree_rows [of "result_props input r" tree' ?ex Map.empty]
    by (simp add: worker_rows_ok_def r result_props_def)
qed

text \<open>Marking the truncation point changes nothing the default expansion looks at.\<close>

lemma mark_frame:
  "n_depth (fst (markTruncationPoint n)) = n_depth n" "n_totalNodes (fst (markTruncationPoint n)) = n_totalNodes n"
  by (cases n; simp split: prod.split)+

lemma collectExpanded_mark: "collectExpanded (fst (markTruncationPoint n)) d m out = collectExpanded n d m out"
proof (induction n arbitrary: out rule: markTruncationPoint.induct)
  case (1 i ty path depth key val children cc trunc total_nodes)
  show ?case
  proof (cases "children = []")
    case False
    obtain child ids where c: "markTruncationPoint (last children) = (child, ids)" by fastforce
    have "foldl (\<lambda>out child. collectExpanded child d m out) a (butlast children @ [child])
        = foldl (\<lambda>out child. collectExpanded child d m out) a (butlast children @ [last children])" for a
      using "1.IH" [OF False] c by simp
    then show ?thesis using False c by simp
  qed simp
qed

lemma computeDefaultExpanded_mark:
  "computeDefaultExpanded (fst (markTruncationPoint n)) opts = computeDefaultExpanded n opts"
  by (simp add: computeDefaultExpanded_def mark_frame collectExpanded_mark)

text \<open>The expansion the Worker sends with a JSON body is the one the viewer would start with.\<close>

lemma buildJson_default:
  assumes "buildJson P txt = Inr r"
  shows "vp_initialExpanded (result_props input r)
    = Some (defaultExpandedFor (build_props (result_props input r)) (isForest (result_props input r)))"
proof -
  obtain q where q: "parseWithTruncation P txt = Inr q"
    using assms by (auto simp: buildJson_def split: sum.splits)
  obtain tree' ids where m: "markTruncationPoint (buildJsonTree (pr_parsed q)) = (tree', ids)" by fastforce
  then have "computeDefaultExpanded tree' no_expand_options = computeDefaultExpanded (buildJsonTree (pr_parsed q)) no_expand_options"
    using computeDefaultExpanded_mark [of "buildJsonTree (pr_parsed q)"] by simp
  then show ?thesis
    using assms q m by (auto simp: buildJson_def result_props_def isForest_def build_props_def buildForest_def
        defaultExpandedFor_def Let_def split: if_splits)
qed

lemma buildNdjson_rows:
  assumes "buildNdjson P txt = Inr r"
  shows "worker_rows_ok (result_props input r)"
proof -
  obtain docs cut where q: "parseNdjson P txt = (docs, cut)" by fastforce
  have ne: "docs \<noteq> []" using assms q by (auto simp: buildNdjson_def)
  have last: "cut = Some i \<Longrightarrow> i = length docs - 1" for i
    using q ndjson_loop_eq [of P "ndjson_lines txt" "[]"]
    by (auto simp: parseNdjson_def Let_def split: option.splits)
  let ?roots = "buildJsonForest docs"
  have len: "length ?roots = length docs" by (simp add: buildJsonForest_def forest_length)
  then have roots: "?roots \<noteq> []" using ne by auto
  obtain roots' ids where m: "(case cut of None \<Rightarrow> (?roots, [])
      | Some i \<Rightarrow> let (marked, ids) = markTruncationPoint (?roots ! i) in (?roots[i := marked], ids)) = (roots', ids)"
    by fastforce
  have rows: "roots' = fst (buildForest JNull (Some docs) (cut \<noteq> None))"
  proof (cases cut)
    case None
    with m show ?thesis by (simp add: buildForest_def)
  next
    case (Some i)
    obtain marked ids' where mk: "markTruncationPoint (last ?roots) = (marked, ids')" by fastforce
    have "i = length ?roots - 1" using last [OF Some] len by simp
    then have "?roots ! i = last ?roots" "?roots[i := marked] = butlast ?roots @ [marked]"
      using roots by (cases ?roots rule: rev_exhaust; simp)+
    with Some m mk roots show ?thesis by (simp add: buildForest_def)
  qed
  let ?ex = "computeForestDefaultExpanded ?roots no_expand_options
      (Some (map (\<lambda>doc. length (json_compact doc)) docs)) \<union> set ids"
  have "buildNdjson P txt = Inr \<lparr>jp_parsed = None, jp_documents = Some docs,
      jp_prettyText = join [newline, newline] (map json_pretty docs),
      jp_rows = flattenForest roots' ?ex Map.empty, jp_defaultExpanded = ?ex, jp_truncated = (cut \<noteq> None)\<rparr>"
    by (simp add: buildNdjson_def q ne m Let_def)
  then have r: "jp_documents r = Some docs" "jp_truncated r = (cut \<noteq> None)"
    "jp_rows r = flattenForest roots' ?ex Map.empty" "jp_defaultExpanded r = ?ex" "jp_parsed r = None"
    using assms by auto
  show ?thesis
    by (simp add: worker_rows_ok_def result_props_def r rows build_props_def)
qed

section \<open>Properties\<close>

text \<open>
  The documents of an NDJSON body are the values of the lines that parse, in order;
  when the last line does not parse but an object or array can be recovered from it, that value
  is one more document at the end, and its index is the truncated one.
\<close>

theorem ndjson_documents:
  "parseNdjson P txt =
     (let clean = List.map_filter (json_parse P) (ndjson_lines txt)
      in case cut_document P (ndjson_lines txt) of
           None \<Rightarrow> (clean, None)
         | Some v \<Rightarrow> (clean @ [v], Some (length clean)))"
  by (simp add: parseNdjson_def ndjson_loop_eq)

text \<open>
  Property C10. What the Worker sends for a JSON or NDJSON body, truncated or not, is what the
  viewer builds from the parsed value when it has to: a viewer shown the Worker's rows renders
  and copies the same, after every sequence of events, as one whose tree is built at once and which
  starts with the Worker's expansion. For a JSON body that expansion is the viewer's own, so the
  viewer also does the same as one that is given neither rows nor expansion.
\<close>

theorem worker_rows_are_viewer_rows:
  assumes "json_answer P mode txt = Inr r"
  shows "let p = result_props input r
    in viewer_run p label evs (viewer_mount p) = viewer_run p label evs (built_mount p)
       \<and> (mode = mode_json \<longrightarrow>
            viewer_run p label evs (viewer_mount p) = viewer_run (plain p) label evs (viewer_mount (plain p)))"
proof -
  let ?p = "result_props input r"
  have ok: "worker_rows_ok ?p"
    using assms buildJson_rows buildNdjson_rows by (auto simp: json_answer_def split: if_splits)
  have "mode = mode_json \<Longrightarrow> vp_initialExpanded ?p = Some (defaultExpandedFor (build_props ?p) (isForest ?p))"
    using assms by (intro buildJson_default) (simp add: json_answer_def)
  with viewer_refines(1,3) [OF ok] show ?thesis by (simp add: Let_def)
qed

text \<open>
  Property C12. Under every sequence of calls, Worker messages and fatal errors, each job ever
  started is either pending or settled, exactly one of them and exactly once; job ids never
  repeat.
\<close>

theorem parse_jobs_settled_once:
  "let s = json_run evs json_client_init
   in distinct (map fst (jc_settled s) @ jc_pending s)
      \<and> set (map fst (jc_settled s) @ jc_pending s) = showNat ` {..<jc_jobCounter s}"
  using json_client.ok_client_run [OF json_init_ok, of evs] unfolding jobs_ok_def Let_def .

text \<open>
  A pending job is settled as soon as the Worker answers it or fails, whatever else
  happens before and after, and is then no longer pending.
\<close>

theorem pending_parse_settles:
  assumes "j \<in> set (jc_pending (json_run evs json_client_init))" "list_ex (settles message_job j) evs'"
  shows "let s = json_run evs' (json_run evs json_client_init)
    in j \<in> set (map fst (jc_settled s)) \<and> j \<notin> set (jc_pending s)"
proof -
  let ?s = "json_run evs json_client_init"
  have ok: "json_client.ok ?s" by (rule json_client.ok_client_run [OF json_init_ok])
  have settled: "j \<in> set (map fst (jc_settled (json_run evs' ?s)))"
    by (rule json_client.pending_settles [OF ok assms])
  then show ?thesis
    using json_client.ok_client_run [OF ok, of evs'] by (auto simp: jobs_ok_def Let_def)
qed

theorem pending_parse_settles_witness:
  "let s = json_run [worker_error None] (json_run [start_job (parseJson_call ''[]'')] json_client_init)
   in ''0'' \<in> set (map fst (jc_settled s)) \<and> ''0'' \<notin> set (jc_pending s)"
  by (rule pending_parse_settles)
     (simp_all add: runJob_def getWorker_def json_client_init_def parseJson_call_def Let_def settles_def
        showNat_def toRadix.simps digit_0)

text \<open>
  Property C11. A job that reaches the Worker and has not been settled by an error is settled by
  the Worker's answer to its own text: resolved with the parsed body, or rejected with a syntax
  error, however many other jobs and messages come in between.
\<close>

theorem parse_job_gets_its_answer:
  assumes "jobs_ok (jc_jobCounter s) (jc_pending s) (map fst (jc_settled s))"
    and "call_new_error c = None" "call_post_error c = None"
    and "\<not> list_ex (settles message_job (fst (runJob c s))) evs"
  shows "let (j, s1) = runJob c s; s2 = json_run evs s1; msg = (j, call_text c, call_mode c)
    in last (jc_posted s1) = msg
       \<and> jc_settled (on_message (json_worker P msg) s2) =
         jc_settled s2 @ [(j, map_sum SyntaxError (\<lambda>r. r) (json_answer P (call_mode c) (call_text c)))]"
proof -
  obtain j s1 where r: "runJob c s = (j, s1)" by fastforce
  have ok1: "json_client.ok s1" using json_client.ok_run [OF assms(1), of c] by (simp add: r)
  have s1: "j \<in> set (jc_pending s1)" "last (jc_posted s1) = (j, call_text c, call_mode c)"
    using r assms(2,3) by (auto simp: runJob_def getWorker_def Let_def split: if_splits)
  have "j \<in> set (jc_pending (json_run evs s1))"
    by (rule json_client.pending_stays [OF ok1 s1(1)]) (use assms(4) r in simp)
  then show ?thesis
    using s1(2)
    by (cases "json_answer P (call_mode c) (call_text c)")
       (simp_all add: r Let_def on_message_def json_worker_def message_result_def)
qed

definition sample_parser :: "unit parse_platform_scheme" where
  "sample_parser =
     \<lparr>json_parse = (\<lambda>t. if t = ''[]'' then Some (JArray []) else None), decode_utf8 = (\<lambda>_. []),
      json_error = (\<lambda>_. ''Unexpected token''), best_effort = (\<lambda>t. Inl ''no'')\<rparr>"

theorem parse_job_gets_its_answer_witness:
  "let c = parseJson_call ''[]''; (j, s1) = runJob c json_client_init;
       s2 = json_run [start_job c] s1; msg = (j, call_text c, call_mode c)
    in last (jc_posted s1) = msg
       \<and> jc_settled (on_message (json_worker sample_parser msg) s2) =
         jc_settled s2 @ [(j, map_sum SyntaxError (\<lambda>r. r) (json_answer sample_parser (call_mode c) (call_text c)))]"
  using parse_job_gets_its_answer [OF json_init_ok, of "parseJson_call ''[]''" "[start_job (parseJson_call ''[]'')]" sample_parser]
  by (simp add: parseJson_call_def settles_def Let_def)

theorem worker_rows_are_viewer_rows_witness:
  "let r = \<lparr>jp_parsed = Some (JArray []), jp_documents = None, jp_prettyText = ''[]'',
            jp_rows = flattenTree (buildJsonTree (JArray [])) {} Map.empty, jp_defaultExpanded = {}, jp_truncated = False\<rparr>;
       p = result_props 1 r; evs = [(right_click_row 0, [0])]
    in viewer_run p [] evs (viewer_mount p) = viewer_run p [] evs (built_mount p)
     \<and> viewer_run p [] evs (viewer_mount p) = viewer_run (plain p) [] evs (viewer_mount (plain p))"
proof -
  have "json_answer sample_parser mode_json ''[]'' = Inr \<lparr>jp_parsed = Some (JArray []), jp_documents = None,
      jp_prettyText = ''[]'', jp_rows = flattenTree (buildJsonTree (JArray [])) {} Map.empty,
      jp_defaultExpanded = {}, jp_truncated = False\<rparr>"
    by (simp add: json_answer_def buildJson_def parseWithTruncation_def parseAndFormat_def sample_parser_def
        Let_def json_pretty_def buildJsonTree_def computeDefaultExpanded_def no_expand_options_def or_default_def)
  from worker_rows_are_viewer_rows [OF this, of 1 "[]" "[(right_click_row 0, [0])]"]
  show ?thesis unfolding Let_def by blast
qed

end
