(* ===== verification/Markup.thy ===== *)
theory Markup
  imports Worker_Client Dom
begin

text \<open>
  Formatting HTML and XML bodies: the core \<open>body/markup-format-core.ts\<close>, the Worker script
  \<open>body/markup-format.worker.ts\<close>, the client \<open>body/markup-format.ts\<close> and the rows of
  \<open>components/markup-view.tsx\<close>.

  Parameters: the formatters xml-formatter and js-beautify, \<open>None\<close> when they throw, and Prism's
  tokenizer, whose tokens carry the text they were made from, with the message of what it throws, if
  it throws. Timings are left out.

  Shown: the lines, joined by line feeds, are the text of the tokens, so highlighting neither
  adds nor drops a character and the copied text is what is shown; no line holds a line feed; every
  job is settled exactly once.
\<close>

section \<open>The core\<close>

datatype MarkupKind = kind_html | kind_xml

record MarkupToken =
  mt_type :: string
  mt_text :: string

type_synonym MarkupLine = "MarkupToken list"

text \<open>A Prism token stream: a string, or a token with a type and content.\<close>

datatype PrismNode =
    prism_text string
  | prism_token string PrismContent
and PrismContent =
    content_text string
  | content_nodes "PrismNode list"
  | content_node PrismNode

record markup_platform =
  xml_format :: "string \<Rightarrow> string option"
  beautify_html :: "string \<Rightarrow> string option"
  prism_tokenize :: "string \<Rightarrow> PrismNode list"
  prism_error :: "string \<Rightarrow> string option"

definition prettyPrintMarkup :: "'a markup_platform_scheme \<Rightarrow> string \<Rightarrow> MarkupKind \<Rightarrow> string" where
  "prettyPrintMarkup M txt kind =
     (case (if kind = kind_xml then xml_format M txt else beautify_html M txt) of
        Some formatted \<Rightarrow> formatted
      | None \<Rightarrow> txt)"

text \<open>Append a token to the last line.\<close>

definition push_last :: "MarkupLine list \<Rightarrow> MarkupToken \<Rightarrow> MarkupLine list" where
  "push_last lines tok = butlast lines @ [last lines @ [tok]]"

text \<open>The loop of \<open>pushText\<close> over the parts; \<open>i\<close> is the index of the next one.\<close>

fun push_parts :: "MarkupLine list \<Rightarrow> string \<Rightarrow> string list \<Rightarrow> nat \<Rightarrow> MarkupLine list" where
  "push_parts lines type [] i = lines"
| "push_parts lines type (part # parts) i =
     (let lines1 = (if i > 0 then lines @ [[]] else lines);
          lines2 = (if part \<noteq> [] then push_last lines1 \<lparr>mt_type = type, mt_text = part\<rparr> else lines1)
      in push_parts lines2 type parts (i + 1))"

definition pushText :: "MarkupLine list \<Rightarrow> string \<Rightarrow> string \<Rightarrow> MarkupLine list" where
  "pushText lines type txt = push_parts lines type (split_on newline txt) 0"

fun walk :: "MarkupLine list \<Rightarrow> PrismNode \<Rightarrow> string \<Rightarrow> MarkupLine list"
  and walk_all :: "MarkupLine list \<Rightarrow> PrismNode list \<Rightarrow> string \<Rightarrow> MarkupLine list" where
  "walk lines (prism_text s) inheritedType = pushText lines inheritedType s"
| "walk lines (prism_token node_type content) inheritedType =
     (let type = (if node_type \<noteq> [] then node_type else inheritedType)
      in case content of
           content_text s \<Rightarrow> pushText lines type s
         | content_nodes children \<Rightarrow> walk_all lines children type
         | content_node n \<Rightarrow> walk lines n type)"
| "walk_all lines [] type = lines"
| "walk_all lines (child # children) type = walk_all (walk lines child type) children type"

definition tokenizeMarkup :: "'a markup_platform_scheme \<Rightarrow> string \<Rightarrow> MarkupLine list" where
  "tokenizeMarkup M txt = walk_all [[]] (prism_tokenize M txt) []"

section \<open>The Worker and its client\<close>

record MarkupFormatResult =
  mf_lines :: "MarkupLine list"
  mf_formattedText :: string

definition format_markup :: "'a markup_platform_scheme \<Rightarrow> string \<Rightarrow> MarkupKind \<Rightarrow> MarkupFormatResult" where
  "format_markup M txt kind =
     (let formattedText = prettyPrintMarkup M txt kind
      in \<lparr>mf_lines = tokenizeMarkup M formattedText, mf_formattedText = formattedText\<rparr>)"

datatype MarkupMessage = markup_ok string MarkupFormatResult | markup_error string string

definition markup_worker :: "'a markup_platform_scheme \<Rightarrow> string \<times> string \<times> MarkupKind \<Rightarrow> MarkupMessage" where
  "markup_worker M msg = (case msg of (jobId, txt, kind) \<Rightarrow>
     (case prism_error M (prettyPrintMarkup M txt kind) of
        Some message \<Rightarrow> markup_error jobId message
      | None \<Rightarrow> markup_ok jobId (format_markup M txt kind)))"

text \<open>The client; its fields are as in the client of the JSON Worker.\<close>

record MarkupClient =
  mc_worker :: bool
  mc_jobCounter :: nat
  mc_pending :: "string list"
  mc_settled :: "(string \<times> (JsError + MarkupFormatResult)) list"
  mc_posted :: "(string \<times> string \<times> MarkupKind) list"

record FormatCall =
  fc_text :: string
  fc_kind :: MarkupKind
  fc_new_error :: "JsError option"
  fc_post_error :: "JsError option"

definition markup_client_init :: MarkupClient where
  "markup_client_init = \<lparr>mc_worker = False, mc_jobCounter = 0, mc_pending = [], mc_settled = [], mc_posted = []\<rparr>"

definition markup_getWorker :: "JsError option \<Rightarrow> MarkupClient \<Rightarrow> JsError + MarkupClient" where
  "markup_getWorker new_error s =
     (if mc_worker s then Inr s
      else (case new_error of Some e \<Rightarrow> Inl e | None \<Rightarrow> Inr (s\<lparr>mc_worker := True\<rparr>)))"

definition formatMarkup :: "FormatCall \<Rightarrow> MarkupClient \<Rightarrow> string \<times> MarkupClient" where
  "formatMarkup c s =
     (let jobId = showNat (mc_jobCounter s);
          s1 = s\<lparr>mc_jobCounter := mc_jobCounter s + 1\<rparr>
      in (jobId, case markup_getWorker (fc_new_error c) s1 of
           Inl e \<Rightarrow> s1\<lparr>mc_settled := mc_settled s1 @ [(jobId, Inl e)]\<rparr>
         | Inr s2 \<Rightarrow>
             let s3 = s2\<lparr>mc_pending := mc_pending s2 @ [jobId]\<rparr>
             in (case fc_post_error c of
                   None \<Rightarrow> s3\<lparr>mc_posted := mc_posted s3 @ [(jobId, fc_text c, fc_kind c)]\<rparr>
                 | Some e \<Rightarrow> s3\<lparr>mc_pending := remove1 jobId (mc_pending s3),
                               mc_settled := mc_settled s3 @ [(jobId, Inl e)]\<rparr>)))"

fun markup_message_job :: "MarkupMessage \<Rightarrow> string" where
  "markup_message_job (markup_ok jobId r) = jobId"
| "markup_message_job (markup_error jobId e) = jobId"

definition markup_message_result :: "MarkupMessage \<Rightarrow> JsError + MarkupFormatResult" where
  "markup_message_result msg = (case msg of markup_ok jobId r \<Rightarrow> Inr r | markup_error jobId e \<Rightarrow> Inl (GeneralError e))"

definition markup_on_message :: "MarkupMessage \<Rightarrow> MarkupClient \<Rightarrow> MarkupClient" where
  "markup_on_message msg s =
     (if markup_message_job msg \<notin> set (mc_pending s) then s
      else s\<lparr>mc_pending := remove1 (markup_message_job msg) (mc_pending s),
             mc_settled := mc_settled s @ [(markup_message_job msg, markup_message_result msg)]\<rparr>)"

definition markup_on_error :: "string option \<Rightarrow> MarkupClient \<Rightarrow> MarkupClient" where
  "markup_on_error event_message s =
     (let err = GeneralError (case event_message of Some m \<Rightarrow> m | None \<Rightarrow> ''markup format worker error'')
      in s\<lparr>mc_worker := False, mc_pending := [],
            mc_settled := mc_settled s @ map (\<lambda>jobId. (jobId, Inl err)) (mc_pending s)\<rparr>)"

interpretation markup_client: worker_client formatMarkup markup_on_message markup_on_error markup_message_job
  mc_jobCounter mc_pending "\<lambda>s. map fst (mc_settled s)"
proof unfold_locales
  fix c s
  show "mc_jobCounter (snd (formatMarkup c s)) = Suc (mc_jobCounter s)"
    by (auto simp: formatMarkup_def markup_getWorker_def Let_def split: sum.split option.splits if_splits)
  show "fst (formatMarkup c s) = showNat (mc_jobCounter s)"
    by (simp add: formatMarkup_def Let_def)
  show "showNat (mc_jobCounter s) \<notin> set (mc_pending s) \<Longrightarrow>
    (mc_pending (snd (formatMarkup c s)), map fst (mc_settled (snd (formatMarkup c s))))
    \<in> {(mc_pending s @ [showNat (mc_jobCounter s)], map fst (mc_settled s)),
       (mc_pending s, map fst (mc_settled s) @ [showNat (mc_jobCounter s)])}"
    by (cases "mc_worker s"; cases "fc_new_error c"; cases "fc_post_error c")
       (simp_all add: formatMarkup_def markup_getWorker_def Let_def remove1_append)
qed (simp_all add: markup_on_message_def markup_on_error_def Let_def comp_def)

section \<open>The text of the lines\<close>

definition line_text :: "MarkupLine \<Rightarrow> string" where
  "line_text line = concat (map mt_text line)"

definition lines_text :: "MarkupLine list \<Rightarrow> string" where
  "lines_text lines = join [newline] (map line_text lines)"

text \<open>The text a token stream was made from.\<close>

fun prism_node_text :: "PrismNode \<Rightarrow> string"
  and prism_content_text :: "PrismContent \<Rightarrow> string" where
  "prism_node_text (prism_text s) = s"
| "prism_node_text (prism_token type content) = prism_content_text content"
| "prism_content_text (content_text s) = s"
| "prism_content_text (content_nodes ns) = concat (map prism_node_text ns)"
| "prism_content_text (content_node n) = prism_node_text n"

lemma join_glue: "join [c] (xs @ (a @ b) # ys) = join [c] (xs @ [a]) @ join [c] (b # ys)"
proof (induction xs)
  case Nil
  then show ?case by (cases ys) simp_all
next
  case (Cons x xs)
  then show ?case by (cases xs) simp_all
qed

lemma push_last_text:
  "lines \<noteq> [] \<Longrightarrow> map line_text (push_last lines tok)
     = butlast (map line_text lines) @ [last (map line_text lines) @ mt_text tok]"
  by (simp add: push_last_def line_text_def map_butlast last_map)

lemma push_parts_later:
  "0 < i \<Longrightarrow> map line_text (push_parts lines type parts i) = map line_text lines @ parts"
proof (induction lines type parts i rule: push_parts.induct)
  case (2 lines type part parts i)
  show ?case
  proof (cases "part = []")
    case True
    with 2 show ?thesis by (simp add: line_text_def)
  next
    case False
    have "map line_text (push_last (lines @ [[]]) \<lparr>mt_type = type, mt_text = part\<rparr>) = map line_text lines @ [part]"
      by (subst push_last_text) (simp_all add: line_text_def)
    with 2 False show ?thesis by simp
  qed
qed simp

lemma push_parts_first:
  assumes "lines \<noteq> []"
  shows "map line_text (push_parts lines type (part # parts) 0)
    = butlast (map line_text lines) @ (last (map line_text lines) @ part) # parts"
proof -
  have "butlast (map line_text lines) @ [last (map line_text lines)] = map line_text lines"
    using assms by (intro append_butlast_last_id) simp
  then have first: "map line_text (if part \<noteq> [] then push_last lines \<lparr>mt_type = type, mt_text = part\<rparr> else lines)
      = butlast (map line_text lines) @ [last (map line_text lines) @ part]"
    using push_last_text [OF assms, of "\<lparr>mt_type = type, mt_text = part\<rparr>"] by (cases "part = []") simp_all
  have "push_parts lines type (part # parts) 0 = push_parts
      (if part \<noteq> [] then push_last lines \<lparr>mt_type = type, mt_text = part\<rparr> else lines) type parts 1"
    by simp
  then have "map line_text (push_parts lines type (part # parts) 0)
      = (butlast (map line_text lines) @ [last (map line_text lines) @ part]) @ parts"
    by (simp only: push_parts_later first zero_less_one)
  then show ?thesis by simp
qed

lemma pushText_text:
  assumes "lines \<noteq> []"
  shows "lines_text (pushText lines type txt) = lines_text lines @ txt \<and> pushText lines type txt \<noteq> []"
proof -
  obtain part parts where s: "split_on newline txt = part # parts"
    by (cases "split_on newline txt") simp_all
  have "lines_text (pushText lines type txt)
      = join [newline] (butlast (map line_text lines) @ [last (map line_text lines)]) @ join [newline] (part # parts)"
    unfolding lines_text_def pushText_def s push_parts_first [OF assms] by (rule join_glue)
  moreover have "butlast (map line_text lines) @ [last (map line_text lines)] = map line_text lines"
    using assms by (intro append_butlast_last_id) simp
  ultimately have "lines_text (pushText lines type txt) = lines_text lines @ txt"
    by (simp add: lines_text_def join_split_on flip: s)
  moreover have "map line_text (pushText lines type txt) \<noteq> []"
    unfolding pushText_def s push_parts_first [OF assms] by simp
  ultimately show ?thesis by auto
qed

lemma walk_text:
  "lines \<noteq> [] \<Longrightarrow> lines_text (walk lines n type) = lines_text lines @ prism_node_text n \<and> walk lines n type \<noteq> []"
  "lines \<noteq> [] \<Longrightarrow> lines_text (walk_all lines ns type) = lines_text lines @ concat (map prism_node_text ns)
     \<and> walk_all lines ns type \<noteq> []"
proof (induction lines n type and lines ns type rule: walk_walk_all.induct)
  case (2 lines node_type content inheritedType)
  then show ?case by (cases content) (simp_all add: Let_def pushText_text)
qed (simp_all add: pushText_text)

text \<open>No token holds a line feed and none is empty.\<close>

definition clean_lines :: "MarkupLine list \<Rightarrow> bool" where
  "clean_lines lines = list_all (list_all (\<lambda>t. mt_text t \<noteq> [] \<and> newline \<notin> set (mt_text t))) lines"

lemma clean_lines_append [simp]: "clean_lines (a @ b) = (clean_lines a \<and> clean_lines b)"
  by (simp add: clean_lines_def)

lemma clean_push_last:
  assumes "lines \<noteq> []" "clean_lines lines" "mt_text t \<noteq> []" "newline \<notin> set (mt_text t)"
  shows "clean_lines (push_last lines t)"
proof -
  have "clean_lines (butlast lines)" "clean_lines [last lines]"
    using assms(2) clean_lines_append [of "butlast lines" "[last lines]"] assms(1) by simp_all
  with assms(3,4) show ?thesis by (simp add: push_last_def clean_lines_def)
qed

lemma clean_push_parts:
  "lines \<noteq> [] \<Longrightarrow> clean_lines lines \<Longrightarrow> \<forall>p\<in>set parts. newline \<notin> set p \<Longrightarrow>
   clean_lines (push_parts lines type parts i) \<and> push_parts lines type parts i \<noteq> []"
proof (induction lines type parts i rule: push_parts.induct)
  case (2 lines type part parts i)
  define lines1 where "lines1 = (if i > 0 then lines @ [[]] else lines)"
  define lines2 where "lines2 = (if part \<noteq> [] then push_last lines1 \<lparr>mt_type = type, mt_text = part\<rparr> else lines1)"
  have "clean_lines lines1" "lines1 \<noteq> []" using 2 by (simp_all add: lines1_def clean_lines_def)
  then have "clean_lines lines2" "lines2 \<noteq> []"
    using 2(4) clean_push_last [of lines1 "\<lparr>mt_type = type, mt_text = part\<rparr>"]
    by (cases "part = []"; simp add: lines2_def push_last_def)+
  then have "clean_lines (push_parts lines2 type parts (i + 1)) \<and> push_parts lines2 type parts (i + 1) \<noteq> []"
    using 2 by (intro "2.IH") (simp_all add: lines1_def lines2_def)
  moreover have "push_parts lines type (part # parts) i = push_parts lines2 type parts (i + 1)"
    by (simp only: push_parts.simps Let_def lines1_def lines2_def)
  ultimately show ?case by metis
qed simp

lemma clean_pushText:
  "lines \<noteq> [] \<Longrightarrow> clean_lines lines \<Longrightarrow> clean_lines (pushText lines type txt) \<and> pushText lines type txt \<noteq> []"
  unfolding pushText_def by (rule clean_push_parts) (auto dest: split_on_no_sep)

lemma clean_walk:
  "lines \<noteq> [] \<Longrightarrow> clean_lines lines \<Longrightarrow> clean_lines (walk lines n type) \<and> walk lines n type \<noteq> []"
  "lines \<noteq> [] \<Longrightarrow> clean_lines lines \<Longrightarrow> clean_lines (walk_all lines ns type) \<and> walk_all lines ns type \<noteq> []"
proof (induction lines n type and lines ns type rule: walk_walk_all.induct)
  case (2 lines node_type content inheritedType)
  then show ?case by (cases content) (simp_all add: Let_def clean_pushText)
qed (simp_all add: clean_pushText)

section \<open>Properties\<close>

text \<open>
  Property C27. The highlighted lines are the text: when Prism's tokens carry the text they were
  made from, joining the texts of the tokens of each line, and the lines by line feeds, gives
  the formatted text back, which is also what is copied. There is at least one line, no token is
  empty and none holds a line feed.
\<close>

theorem markup_lines_spell_text:
  assumes "\<And>s. concat (map prism_node_text (prism_tokenize M s)) = s"
  shows "let r = format_markup M txt kind
    in lines_text (mf_lines r) = mf_formattedText r \<and> mf_formattedText r = prettyPrintMarkup M txt kind
       \<and> mf_lines r \<noteq> [] \<and> clean_lines (mf_lines r)"
  using walk_text(2) [of "[[]]" "prism_tokenize M (prettyPrintMarkup M txt kind)" "[]"]
    clean_walk(2) [of "[[]]" "prism_tokenize M (prettyPrintMarkup M txt kind)" "[]"]
  by (simp add: format_markup_def tokenizeMarkup_def assms lines_text_def line_text_def clean_lines_def Let_def)

definition sample_markup :: "unit markup_platform_scheme" where
  "sample_markup = \<lparr>xml_format = (\<lambda>_. None), beautify_html = Some, prism_tokenize = (\<lambda>s. [prism_text s]),
     prism_error = (\<lambda>_. None)\<rparr>"

theorem markup_lines_spell_text_witness:
  "let r = format_markup sample_markup (''<a>'' @ [newline] @ ''</a>'') kind_xml
    in lines_text (mf_lines r) = mf_formattedText r
       \<and> mf_formattedText r = prettyPrintMarkup sample_markup (''<a>'' @ [newline] @ ''</a>'') kind_xml
       \<and> mf_lines r \<noteq> [] \<and> clean_lines (mf_lines r)"
  by (rule markup_lines_spell_text) (simp add: sample_markup_def)

text \<open>
  Formatting jobs are settled exactly once, as parse jobs are.
\<close>

theorem markup_jobs_settled_once:
  "let s = client_run formatMarkup markup_on_message markup_on_error evs markup_client_init
   in distinct (map fst (mc_settled s) @ mc_pending s)
      \<and> set (map fst (mc_settled s) @ mc_pending s) = showNat ` {..<mc_jobCounter s}"
proof -
  have "markup_client.ok markup_client_init" by (simp add: markup_client_init_def jobs_ok_def)
  then show ?thesis using markup_client.ok_client_run [of _ evs] unfolding jobs_ok_def Let_def by blast
qed

end
