(* ===== verification/Decode.thy ===== *)
theory Decode
  imports Json_Parse Markup Chunk View_Modes
begin

text \<open>
  The decode pipeline, \<open>body/decode.ts\<close>: chunks to bytes, decompression, charset and text, and
  the classification of a body by its content type, with the results of the Workers.

  Parameters (\<open>decode_env\<close>): the decompressors brotli-dec-wasm and @bokuweb/zstd-wasm and the
  chunks a host \<open>DecompressionStream\<close> yields (\<open>None\<close> when they throw), \<open>new TextDecoder(label)\<close>
  (\<open>None\<close> for an unknown label), and the outcomes of \<open>parseJson\<close>, \<open>parseNdjson\<close> and
  \<open>formatMarkup\<close>, which the theories \<open>Json_Parse\<close> and \<open>Markup\<close> model. The lazy loading of the WASM
  modules is left out. \<open>None\<close> of \<open>decodeBody\<close> is a rejected promise.

  Shown: when decoding fails; what the result keeps of the body; that every kind comes from its
  content types and a failing Worker never loses a body.
\<close>

section \<open>Types\<close>

record decode_env = platform +
  brotli :: "byte list \<Rightarrow> byte list option"
  zstd :: "byte list \<Rightarrow> byte list option"
  decompression_stream :: "string \<Rightarrow> byte list \<Rightarrow> byte list list option"
  text_decoder :: "string \<Rightarrow> (byte list \<Rightarrow> string) option"
  run_parseJson :: "string \<Rightarrow> JsError + JsonParseResult"
  run_parseNdjson :: "string \<Rightarrow> JsError + JsonParseResult"
  run_formatMarkup :: "string \<Rightarrow> MarkupKind \<Rightarrow> JsError + MarkupFormatResult"

record DecodeResult =
  dr_kind :: ContentKind
  dr_textAvailable :: bool
  dr_text :: "string option"
  dr_mediaType :: string
  dr_wireBytes :: nat
  dr_decodedBytes :: "nat option"
  dr_contentEncoding :: "string option"
  dr_parsed :: "JsonValue option"
  dr_documents :: "JsonValue list option"
  dr_initialRows :: "FlatRow list option"
  dr_initialExpanded :: "nat set option"
  dr_truncated :: "bool option"
  dr_lines :: "MarkupLine list option"
  dr_rawText :: string
  dr_bytes :: "byte list"

section \<open>Decompression\<close>

definition decompress :: "'a decode_env_scheme \<Rightarrow> byte list \<Rightarrow> string \<Rightarrow> byte list option" where
  "decompress E data encoding =
     (if encoding = ''br'' then brotli E data
      else if encoding = ''zstd'' then zstd E data
      else if encoding = ''gzip'' \<or> encoding = ''deflate''
      then map_option concatenate (decompression_stream E encoding data)
      else None)"

definition known_encoding :: "string option \<Rightarrow> bool" where
  "known_encoding encoding =
     (encoding = Some ''br'' \<or> encoding = Some ''gzip'' \<or> encoding = Some ''deflate'' \<or> encoding = Some ''zstd'')"

section \<open>Content types\<close>

definition baseType :: "string \<Rightarrow> string" where
  "baseType contentType = toLowerCase (trim (hd (split_on CHR '';'' contentType)))"

definition isJsonlContentType :: "string \<Rightarrow> bool" where
  "isJsonlContentType contentType =
     (baseType contentType \<in>
       {''application/vnd.elasticsearch+x-ndjson'', ''application/x-ndjson'', ''application/ndjson''})"

definition TEXTUAL_APPLICATION_TYPES :: "string set" where
  "TEXTUAL_APPLICATION_TYPES =
     {''application/csv'', ''application/javascript'', ''application/typescript'', ''application/yaml'',
      ''application/toml'', ''application/x-www-form-urlencoded'', ''application/graphql''}"

definition isTextualContentType :: "string \<Rightarrow> bool" where
  "isTextualContentType contentType =
     (let base = baseType contentType in startsWith base ''text/'' \<or> base \<in> TEXTUAL_APPLICATION_TYPES)"

definition isHtmlContentType :: "string \<Rightarrow> bool" where
  "isHtmlContentType contentType = (baseType contentType \<in> {''text/html'', ''application/xhtml+xml''})"

definition isXmlContentType :: "string \<Rightarrow> bool" where
  "isXmlContentType contentType =
     (let base = baseType contentType
      in base \<in> {''text/xml'', ''application/xml'', ''application/soap+xml'', ''application/rss+xml'',
                 ''application/atom+xml''} \<or> endsWith base ''+xml'')"

text \<open>The match of \<open>charset\s*=\s*([^;]+)\<close> at the start of a string, and its first match.\<close>

definition charset_at :: "string \<Rightarrow> string option" where
  "charset_at s =
     (if toLowerCase (take 7 s) \<noteq> ''charset'' then None
      else case dropWhile is_ws (drop 7 s) of
          [] \<Rightarrow> None
        | c # r \<Rightarrow> if c \<noteq> CHR ''='' then None
            else let group = takeWhile (\<lambda>x. x \<noteq> CHR '';'') r in if group = [] then None else Some group)"

fun charset_match :: "string \<Rightarrow> string option" where
  "charset_match [] = None"
| "charset_match (c # s) = (case charset_at (c # s) of Some g \<Rightarrow> Some g | None \<Rightarrow> charset_match s)"

text \<open>The replacement of a quoted string by its content; \<open>.\<close> matches no line terminator.\<close>

definition strip_quotes :: "string \<Rightarrow> string" where
  "strip_quotes s =
     (let inner = butlast (tl s)
      in if 2 \<le> length s \<and> hd s = CHR 0x22 \<and> last s = CHR 0x22
            \<and> newline \<notin> set inner \<and> CHR 0x0D \<notin> set inner
         then inner else s)"

definition charsetFromContentType :: "string option \<Rightarrow> string option" where
  "charsetFromContentType contentType =
     (case contentType of None \<Rightarrow> None
      | Some ct \<Rightarrow> map_option (\<lambda>g. strip_quotes (trim g)) (charset_match ct))"

section \<open>Text\<close>

fun is_binary_chunk :: "BodyChunk \<Rightarrow> bool" where
  "is_binary_chunk (ChunkText t) = False"
| "is_binary_chunk (ChunkBinary b) = True"

definition decodeBytesToText :: "'a decode_env_scheme \<Rightarrow> byte list \<Rightarrow> bool \<Rightarrow> string option \<Rightarrow> string" where
  "decodeBytesToText E bytes hasBinaryChunk charset =
     (case (hasBinaryChunk, charset) of
        (True, Some label) \<Rightarrow> (case text_decoder E label of
            Some decoder \<Rightarrow> decoder bytes
          | None \<Rightarrow> decode_utf8 E bytes)
      | _ \<Rightarrow> decode_utf8 E bytes)"

definition computeTextAvailable :: "'a decode_env_scheme \<Rightarrow> BodyChunk list \<Rightarrow> string option \<Rightarrow> bool" where
  "computeTextAvailable E chunks contentType =
     (if \<not> list_ex is_binary_chunk chunks then True
      else case charsetFromContentType contentType of
          None \<Rightarrow> False
        | Some label \<Rightarrow> text_decoder E label \<noteq> None)"

section \<open>Steps\<close>

text \<open>
  \<open>base\<close> is a result with the fields every return statement sets alike, and no text; each step
  returns a result, or \<open>None\<close> to fall through to the next one.
\<close>

definition ndjson_step :: "'a decode_env_scheme \<Rightarrow> string option \<Rightarrow> DecodeResult \<Rightarrow> DecodeResult option" where
  "ndjson_step E contentType base =
     (case contentType of
        None \<Rightarrow> None
      | Some ct \<Rightarrow>
          if \<not> isJsonlContentType ct then None
          else (case run_parseNdjson E (dr_rawText base) of
              Inl _ \<Rightarrow> None
            | Inr r \<Rightarrow> Some (base\<lparr>dr_kind := ck_ndjson, dr_text := Some (jp_prettyText r),
                dr_documents := jp_documents r, dr_initialRows := Some (jp_rows r),
                dr_initialExpanded := Some (jp_defaultExpanded r), dr_truncated := Some (jp_truncated r)\<rparr>)))"

definition json_step :: "'a decode_env_scheme \<Rightarrow> string option \<Rightarrow> DecodeResult \<Rightarrow> DecodeResult option" where
  "json_step E contentType base =
     (case contentType of
        None \<Rightarrow> None
      | Some ct \<Rightarrow>
          if \<not> str_includes (toLowerCase ct) ''json'' then None
          else (case run_parseJson E (dr_rawText base) of
              Inl _ \<Rightarrow> None
            | Inr r \<Rightarrow> Some (base\<lparr>dr_kind := ck_json, dr_text := Some (jp_prettyText r),
                dr_parsed := (if jp_parsed r = Some JNull then None else jp_parsed r),
                dr_initialRows := Some (jp_rows r),
                dr_initialExpanded := Some (jp_defaultExpanded r), dr_truncated := Some (jp_truncated r)\<rparr>)))"

definition markup_kind :: "string option \<Rightarrow> MarkupKind option" where
  "markup_kind contentType =
     (case contentType of
        None \<Rightarrow> None
      | Some ct \<Rightarrow> if isHtmlContentType ct then Some kind_html
                  else if isXmlContentType ct then Some kind_xml else None)"

fun kind_of_markup :: "MarkupKind \<Rightarrow> ContentKind" where
  "kind_of_markup kind_html = ck_html"
| "kind_of_markup kind_xml = ck_xml"

definition markup_step :: "'a decode_env_scheme \<Rightarrow> string option \<Rightarrow> DecodeResult \<Rightarrow> DecodeResult option" where
  "markup_step E contentType base =
     (case markup_kind contentType of
        None \<Rightarrow> None
      | Some kind \<Rightarrow> (case run_formatMarkup E (dr_rawText base) kind of
          Inr r \<Rightarrow> Some (base\<lparr>dr_kind := kind_of_markup kind, dr_text := Some (mf_formattedText r),
                             dr_lines := Some (mf_lines r)\<rparr>)
        | Inl _ \<Rightarrow> Some (base\<lparr>dr_kind := kind_of_markup kind, dr_text := Some (dr_rawText base)\<rparr>)))"

definition text_step :: "string option \<Rightarrow> DecodeResult \<Rightarrow> DecodeResult option" where
  "text_step contentType base =
     (case contentType of
        None \<Rightarrow> None
      | Some ct \<Rightarrow> if isTextualContentType ct
          then Some (base\<lparr>dr_kind := ck_text, dr_text := Some (dr_rawText base)\<rparr>) else None)"

definition image_step :: "string option \<Rightarrow> DecodeResult \<Rightarrow> DecodeResult option" where
  "image_step contentType base =
     (case contentType of
        None \<Rightarrow> None
      | Some ct \<Rightarrow> if startsWith ct ''image/'' then Some (base\<lparr>dr_kind := ck_image\<rparr>) else None)"

definition binary_step :: "string option \<Rightarrow> DecodeResult \<Rightarrow> DecodeResult option" where
  "binary_step contentType base =
     (case contentType of
        None \<Rightarrow> None
      | Some ct \<Rightarrow> if list_ex (\<lambda>prefix. startsWith ct prefix) [''audio/'', ''video/'', ''application/octet-stream'']
          then Some (base\<lparr>dr_kind := ck_binary\<rparr>) else None)"

definition or_else :: "'a option \<Rightarrow> 'a option \<Rightarrow> 'a option" where
  "or_else a b = (case a of Some x \<Rightarrow> Some x | None \<Rightarrow> b)"

definition classify :: "'a decode_env_scheme \<Rightarrow> string option \<Rightarrow> DecodeResult \<Rightarrow> DecodeResult option" where
  "classify E contentType base =
     or_else (ndjson_step E contentType base)
     (or_else (json_step E contentType base)
     (or_else (markup_step E contentType base)
     (or_else (text_step contentType base)
     (or_else (image_step contentType base)
     (or_else (binary_step contentType base)
       (Some (base\<lparr>dr_kind := ck_text, dr_text := Some (dr_rawText base)\<rparr>)))))))"

text \<open>Steps 1 and 2: the decompressed bytes, and their number when a decompressor ran.\<close>

definition body_bytes :: "'a decode_env_scheme \<Rightarrow> BodyState \<Rightarrow> (byte list \<times> nat option) option" where
  "body_bytes E body =
     (case chunksToBytes (bs_chunks body) of
        None \<Rightarrow> None
      | Some byteArrays \<Rightarrow>
          let bytes = concatenate byteArrays;
              encoding = map_option toLowerCase (bs_contentEncoding body)
          in if known_encoding encoding
             then map_option (\<lambda>bytes. (bytes, Some (length bytes))) (decompress E bytes (the encoding))
             else Some (bytes, None))"

definition decodeBody :: "'a decode_env_scheme \<Rightarrow> BodyState \<Rightarrow> DecodeResult option" where
  "decodeBody E body =
     (case body_bytes E body of
        None \<Rightarrow> None
      | Some (bytes, decodedBytes) \<Rightarrow>
          let contentType = bs_contentType body;
              hasBinaryChunk = list_ex is_binary_chunk (bs_chunks body);
              charset = charsetFromContentType contentType;
              txt = decodeBytesToText E bytes hasBinaryChunk charset
          in classify E contentType
               \<lparr>dr_kind = ck_text, dr_textAvailable = computeTextAvailable E (bs_chunks body) contentType,
                dr_text = None,
                dr_mediaType = (case contentType of Some ct \<Rightarrow> ct | None \<Rightarrow> ''application/octet-stream''),
                dr_wireBytes = bs_wireBytes body, dr_decodedBytes = decodedBytes,
                dr_contentEncoding = bs_contentEncoding body, dr_parsed = None, dr_documents = None,
                dr_initialRows = None, dr_initialExpanded = None, dr_truncated = None, dr_lines = None,
                dr_rawText = txt, dr_bytes = bytes\<rparr>)"

section \<open>Properties\<close>

lemmas step_defs = ndjson_step_def json_step_def markup_step_def text_step_def image_step_def binary_step_def

lemma or_else_Some: "or_else a b = Some x \<longleftrightarrow> a = Some x \<or> a = None \<and> b = Some x"
  by (cases a) (auto simp: or_else_def)

text \<open>The fields that no step changes.\<close>

definition same_body :: "DecodeResult \<Rightarrow> DecodeResult \<Rightarrow> bool" where
  "same_body r b \<longleftrightarrow>
     dr_textAvailable r = dr_textAvailable b \<and> dr_mediaType r = dr_mediaType b
     \<and> dr_wireBytes r = dr_wireBytes b \<and> dr_decodedBytes r = dr_decodedBytes b
     \<and> dr_contentEncoding r = dr_contentEncoding b \<and> dr_rawText r = dr_rawText b \<and> dr_bytes r = dr_bytes b"

lemma steps_same_body:
  "ndjson_step E ct b = Some r \<Longrightarrow> same_body r b"
  "json_step E ct b = Some r \<Longrightarrow> same_body r b"
  "markup_step E ct b = Some r \<Longrightarrow> same_body r b"
  "text_step ct b = Some r \<Longrightarrow> same_body r b"
  "image_step ct b = Some r \<Longrightarrow> same_body r b"
  "binary_step ct b = Some r \<Longrightarrow> same_body r b"
  by (auto simp: step_defs same_body_def split: option.splits sum.splits if_splits)

lemma classify_same_body: "classify E ct b = Some r \<Longrightarrow> same_body r b"
  by (auto simp: classify_def or_else_Some dest!: steps_same_body) (auto simp: same_body_def)

lemma classify_total: "\<exists>r. classify E ct b = Some r"
  by (simp add: classify_def or_else_def split: option.split)

text \<open>
  Property C34. Decoding a body fails exactly when a chunk is malformed base64 or the decompressor
  of a recognised encoding fails; whatever the Workers answer, a body that decompresses is
  decoded.
\<close>

theorem decode_fails_iff:
  "decodeBody E body = None \<longleftrightarrow>
     chunksToBytes (bs_chunks body) = None
     \<or> (\<exists>arrays enc. chunksToBytes (bs_chunks body) = Some arrays
          \<and> map_option toLowerCase (bs_contentEncoding body) = Some enc
          \<and> enc \<in> {''br'', ''gzip'', ''deflate'', ''zstd''} \<and> decompress E (concat arrays) enc = None)"
proof -
  have "decodeBody E body = None \<longleftrightarrow> body_bytes E body = None"
    using classify_total [of E] by (auto simp: decodeBody_def Let_def split: option.splits prod.splits)
  then show ?thesis
    by (cases "chunksToBytes (bs_chunks body)"; cases "bs_contentEncoding body")
       (auto simp: body_bytes_def Let_def known_encoding_def concatenate_eq)
qed

text \<open>
  A decoded body carries the decompressed bytes and their text, unchanged by the
  classification; the wire size and the encoding are those of the body, and the decoded size is
  set, and right, exactly when a decompressor ran.
\<close>

theorem decode_keeps_body:
  assumes "decodeBody E body = Some r"
  shows "body_bytes E body = Some (dr_bytes r, dr_decodedBytes r)
    \<and> dr_rawText r = decodeBytesToText E (dr_bytes r) (list_ex is_binary_chunk (bs_chunks body))
        (charsetFromContentType (bs_contentType body))
    \<and> dr_wireBytes r = bs_wireBytes body \<and> dr_contentEncoding r = bs_contentEncoding body
    \<and> dr_decodedBytes r =
        (if known_encoding (map_option toLowerCase (bs_contentEncoding body)) then Some (length (dr_bytes r)) else None)
    \<and> dr_textAvailable r = computeTextAvailable E (bs_chunks body) (bs_contentType body)"
proof -
  obtain bytes n where b: "body_bytes E body = Some (bytes, n)"
    using assms by (auto simp: decodeBody_def split: option.splits)
  then have n: "n = (if known_encoding (map_option toLowerCase (bs_contentEncoding body)) then Some (length bytes) else None)"
    by (auto simp: body_bytes_def Let_def split: option.splits if_splits)
  from assms b show ?thesis
    by (auto simp: decodeBody_def Let_def n same_body_def dest!: classify_same_body)
qed

definition plain_env :: "unit decode_env_scheme" where
  "plain_env =
     \<lparr>json_parse = (\<lambda>_. None), decode_utf8 = map (\<lambda>b. fromCharCode (unat b)), brotli = (\<lambda>_. None), zstd = (\<lambda>_. None),
      decompression_stream = (\<lambda>_ bs. Some [bs, [0x21]]), text_decoder = (\<lambda>_. None),
      run_parseJson = (\<lambda>_. Inl (SyntaxError [])), run_parseNdjson = (\<lambda>_. Inl (SyntaxError [])),
      run_formatMarkup = (\<lambda>_ _. Inl (GeneralError []))\<rparr>"

definition gzip_body :: BodyState where
  "gzip_body = empty_body\<lparr>bs_chunks := [ChunkText ''a''], bs_atEnd := True, bs_wireBytes := 1,
     bs_contentEncoding := Some ''gzip'', bs_contentType := Some ''image/png''\<rparr>"

theorem decode_keeps_body_witness:
  "\<exists>r. decodeBody plain_env gzip_body = Some r \<and> dr_bytes r = [0x61, 0x21] \<and> dr_decodedBytes r = Some 2
     \<and> dr_wireBytes r = 1"
proof -
  have b: "body_bytes plain_env gzip_body = Some ([0x61, 0x21], Some 2)"
    by (simp add: body_bytes_def gzip_body_def empty_body_def TextEncoder_encode_def utf8_char_def octet_def
        concatenate_eq known_encoding_def decompress_def plain_env_def Let_def char_eval)
  obtain r where "decodeBody plain_env gzip_body = Some r"
    using classify_total by (fastforce simp: decodeBody_def b Let_def)
  with decode_keeps_body [OF this]
  have "body_bytes plain_env gzip_body = Some (dr_bytes r, dr_decodedBytes r)" "dr_wireBytes r = bs_wireBytes gzip_body"
    "decodeBody plain_env gzip_body = Some r"
    by blast+
  then show ?thesis by (simp add: b) (simp add: gzip_body_def)
qed

text \<open>A result as \<open>decodeBody\<close> starts from, and the fields of each kind.\<close>

definition bare :: "DecodeResult \<Rightarrow> bool" where
  "bare b \<longleftrightarrow> dr_parsed b = None \<and> dr_documents b = None \<and> dr_initialRows b = None
     \<and> dr_initialExpanded b = None \<and> dr_truncated b = None \<and> dr_lines b = None \<and> dr_text b = None"

definition fields_ok :: "DecodeResult \<Rightarrow> bool" where
  "fields_ok r \<longleftrightarrow>
     (dr_initialRows r \<noteq> None \<longleftrightarrow> dr_kind r \<in> {ck_json, ck_ndjson})
     \<and> (dr_initialExpanded r \<noteq> None \<longleftrightarrow> dr_kind r \<in> {ck_json, ck_ndjson})
     \<and> (dr_truncated r \<noteq> None \<longleftrightarrow> dr_kind r \<in> {ck_json, ck_ndjson})
     \<and> (dr_parsed r \<noteq> None \<longrightarrow> dr_kind r = ck_json) \<and> (dr_documents r \<noteq> None \<longrightarrow> dr_kind r = ck_ndjson)
     \<and> (dr_lines r \<noteq> None \<longrightarrow> dr_kind r \<in> {ck_html, ck_xml})
     \<and> (dr_text r = None \<longleftrightarrow> dr_kind r \<in> {ck_image, ck_binary})
     \<and> (dr_kind r = ck_text \<longrightarrow> dr_text r = Some (dr_rawText r))"

lemma steps_fields:
  assumes "bare b"
  shows "ndjson_step E ct b = Some r \<Longrightarrow> fields_ok r"
    "json_step E ct b = Some r \<Longrightarrow> fields_ok r"
    "markup_step E ct b = Some r \<Longrightarrow> fields_ok r"
    "text_step ct b = Some r \<Longrightarrow> fields_ok r"
    "image_step ct b = Some r \<Longrightarrow> fields_ok r"
    "binary_step ct b = Some r \<Longrightarrow> fields_ok r"
    "fields_ok (b\<lparr>dr_kind := ck_text, dr_text := Some (dr_rawText b)\<rparr>)"
proof -
  show "markup_step E ct b = Some r \<Longrightarrow> fields_ok r"
  proof -
    assume "markup_step E ct b = Some r"
    then obtain kind where "dr_kind r = kind_of_markup kind" "dr_text r \<noteq> None" "dr_parsed r = None"
      "dr_documents r = None" "dr_initialRows r = None" "dr_initialExpanded r = None" "dr_truncated r = None"
      using assms by (auto simp: markup_step_def bare_def split: option.splits sum.splits)
    then show ?thesis by (cases kind) (simp_all add: fields_ok_def)
  qed
qed (use assms in \<open>auto simp: step_defs bare_def fields_ok_def split: option.splits sum.splits if_splits\<close>)

text \<open>
  A decoded result has exactly the fields of its kind: rows, expansion and the
  truncation flag for JSON and NDJSON only, a parsed value for JSON only and documents for NDJSON
  only, lines for markup only; a text in every kind but images and binaries, which for the text
  kind is the body's text.
\<close>

theorem decode_result_fields:
  assumes "decodeBody E body = Some r"
  shows "(dr_initialRows r \<noteq> None \<longleftrightarrow> dr_kind r \<in> {ck_json, ck_ndjson})
    \<and> (dr_initialExpanded r \<noteq> None \<longleftrightarrow> dr_kind r \<in> {ck_json, ck_ndjson})
    \<and> (dr_truncated r \<noteq> None \<longleftrightarrow> dr_kind r \<in> {ck_json, ck_ndjson})
    \<and> (dr_parsed r \<noteq> None \<longrightarrow> dr_kind r = ck_json) \<and> (dr_documents r \<noteq> None \<longrightarrow> dr_kind r = ck_ndjson)
    \<and> (dr_lines r \<noteq> None \<longrightarrow> dr_kind r \<in> {ck_html, ck_xml})
    \<and> (dr_text r = None \<longleftrightarrow> dr_kind r \<in> {ck_image, ck_binary})
    \<and> (dr_kind r = ck_text \<longrightarrow> dr_text r = Some (dr_rawText r))"
proof -
  obtain ct b where c: "classify E ct b = Some r" "bare b"
    using assms by (auto simp: decodeBody_def Let_def bare_def split: option.splits prod.splits)
  have "fields_ok r"
    using c(1) steps_fields [OF c(2)] by (auto simp: classify_def or_else_Some)
  then show ?thesis unfolding fields_ok_def .
qed

end
