(* ===== verification/Text_Views.thy ===== *)
theory Text_Views
  imports Markup Utils Chunk
begin

text \<open>
  The flat body viewers: the hex dump of \<open>lib/hex.ts\<close> and \<open>components/hex-view.tsx\<close>, the plain
  text of \<open>components/text-view.tsx\<close> and the highlighted markup of \<open>components/markup-view.tsx\<close>.
  Each renders the rows whose indices the virtualizer gives.

  Shown: a dump determines the bytes; every line number fits its gutter and every line of a
  markup body fits the width of the scroll content.
\<close>

section \<open>Hex dump\<close>

definition HEX_BYTES_PER_ROW :: nat where
  "HEX_BYTES_PER_ROW = 16"

record HexRow =
  hr_offset :: string
  hr_hex :: string
  hr_ascii :: string

text \<open>\<open>Math.ceil\<close> of a quotient of natural numbers.\<close>

definition ceil_div :: "nat \<Rightarrow> nat \<Rightarrow> nat" where
  "ceil_div a b = (a + b - 1) div b"

definition hexRowCount :: "nat \<Rightarrow> nat" where
  "hexRowCount len = ceil_div len HEX_BYTES_PER_ROW"

definition toHexByte :: "byte \<Rightarrow> string" where
  "toHexByte b = padStart 2 CHR ''0'' (toRadix 16 (unat b))"

definition hex_ascii :: "byte \<Rightarrow> char" where
  "hex_ascii b = (if 0x20 \<le> b \<and> b \<le> 0x7e then fromCharCode (unat b) else CHR ''.'')"

text \<open>The loop from \<open>start\<close> to \<open>end\<close>, with the hex parts and the ASCII text collected so far.\<close>

fun hex_row_loop :: "byte list \<Rightarrow> nat \<Rightarrow> nat \<Rightarrow> string list \<Rightarrow> string \<Rightarrow> string list \<times> string" where
  "hex_row_loop bytes i 0 hexParts ascii = (hexParts, ascii)"
| "hex_row_loop bytes i (Suc n) hexParts ascii =
     hex_row_loop bytes (i + 1) n (hexParts @ [toHexByte (bytes ! i)]) (ascii @ [hex_ascii (bytes ! i)])"

definition hexRow :: "byte list \<Rightarrow> nat \<Rightarrow> HexRow" where
  "hexRow bytes rowIndex =
     (let start = rowIndex * HEX_BYTES_PER_ROW;
          stop = min (start + HEX_BYTES_PER_ROW) (length bytes);
          (hexParts, ascii) = hex_row_loop bytes start (stop - start) [] [];
          padded = hexParts @ replicate (HEX_BYTES_PER_ROW - length hexParts) ''  ''
      in \<lparr>hr_offset = padStart 8 CHR ''0'' (toRadix 16 start), hr_hex = join '' '' padded, hr_ascii = ascii\<rparr>)"

definition hex_row_line :: "HexRow \<Rightarrow> string" where
  "hex_row_line r = hr_offset r @ ''  '' @ hr_hex r @ ''  |'' @ hr_ascii r @ ''|''"

definition hexDumpText :: "byte list \<Rightarrow> string" where
  "hexDumpText bytes = join [newline] (map (\<lambda>r. hex_row_line (hexRow bytes r)) [0..<hexRowCount (length bytes)])"

definition ROW_COLS :: nat where
  "ROW_COLS = 8 + 2 + (HEX_BYTES_PER_ROW * 2 + (HEX_BYTES_PER_ROW - 1)) + 2 + HEX_BYTES_PER_ROW"

text \<open>A virtualized list: its label, its content width and the rows for the given items.\<close>

definition virtual_view :: "(string \<times> glyph list) list \<Rightarrow> string \<Rightarrow> nat \<Rightarrow> (nat \<Rightarrow> 'h dom) \<Rightarrow> nat list \<Rightarrow> 'h dom" where
  "virtual_view attrs width row_count row items =
     El ''div'' attrs []
       [El ''div'' [(''width'', lat width)] [] (map row (filter (\<lambda>i. i < row_count) items))]"

definition HexView :: "byte list \<Rightarrow> nat list \<Rightarrow> 'h dom" where
  "HexView bytes items =
     virtual_view [(''role'', lat ''region''), (''aria-label'', lat ''Hex viewer'')]
       (showNat ROW_COLS @ ''ch'') (hexRowCount (length bytes))
       (\<lambda>i. let r = hexRow bytes i
            in El ''div'' [] []
                 [El ''span'' [] [] [Txt (lat (hr_offset r))], Txt (lat ''  ''),
                  El ''span'' [] [] [Txt (lat (hr_hex r))], Txt (lat ''  ''),
                  El ''span'' [] [] [Txt (lat (hr_ascii r))]])
       items"

section \<open>Text and markup\<close>

text \<open>\<open>Math.ceil(Math.log10(n))\<close>.\<close>

lemma ceil_div_le: "0 < b \<Longrightarrow> ceil_div n b \<le> k \<longleftrightarrow> n \<le> k * b"
  unfolding ceil_div_def by (cases b) (auto simp: less_Suc_eq_le [symmetric] div_less_iff_less_mult algebra_simps)

function ceil_log10 :: "nat \<Rightarrow> nat" where
  "ceil_log10 n = (if n \<le> 1 then 0 else Suc (ceil_log10 (ceil_div n 10)))"
  by pat_completeness auto
termination
  by (relation "measure (\<lambda>n. n)") (auto simp: ceil_div_def)

declare ceil_log10.simps [simp del]

definition gutter_digits :: "nat \<Rightarrow> nat" where
  "gutter_digits line_count = max (ceil_log10 (line_count + 1)) 2"

definition TextView :: "string \<Rightarrow> nat list \<Rightarrow> 'h dom" where
  "TextView txt items =
     (let lines = split_on newline txt;
          gutterWidth = showNat (gutter_digits (length lines)) @ ''ch''
      in virtual_view [(''aria-label'', lat ''Body text'')] ''100%'' (length lines)
           (\<lambda>i. El ''div'' [(''data-index'', lat (showNat i))] []
                  [El ''span'' [(''data-testid'', lat ''line-number''), (''width'', lat gutterWidth)] []
                     [Txt (lat (showNat (i + 1)))],
                   El ''span'' [] [] [Txt (lat (lines ! i))]])
           items)"

definition tokenClass :: "string \<Rightarrow> string" where
  "tokenClass type =
     (if type = ''tag'' then ''text-markup-tag''
      else if type = ''attr-name'' then ''text-markup-attr-name''
      else if type = ''attr-value'' then ''text-markup-attr-value''
      else if type = ''punctuation'' then ''text-markup-punct''
      else if type \<in> {''comment'', ''prolog'', ''doctype'', ''cdata''} then ''text-markup-comment''
      else if type \<in> {''entity'', ''named-entity''} then ''text-markup-entity''
      else ''text-foreground'')"

text \<open>The longest line, and the width of the scroll content in characters.\<close>

definition line_cols :: "MarkupLine \<Rightarrow> nat" where
  "line_cols line = foldl (\<lambda>cols token. cols + length (mt_text token)) 0 line"

definition max_cols :: "MarkupLine list \<Rightarrow> nat" where
  "max_cols lines = foldl (\<lambda>maxCols line. if line_cols line > maxCols then line_cols line else maxCols) 0 lines"

definition content_cols :: "MarkupLine list \<Rightarrow> nat" where
  "content_cols lines = gutter_digits (length lines) + 1 + max_cols lines"

definition markup_line_dom :: "MarkupLine list \<Rightarrow> nat \<Rightarrow> 'h dom" where
  "markup_line_dom lines i =
     El ''div'' [(''data-testid'', lat ''markup-line'')] []
       (El ''span'' [(''data-testid'', lat ''line-number'')] []
          [Txt (lat (padStart (gutter_digits (length lines)) CHR '' '' (showNat (i + 1))))]
        # Txt (lat '' '')
        # map (\<lambda>token. El ''span'' [(''class'', lat (tokenClass (mt_type token)))] [] [Txt (lat (mt_text token))])
            (lines ! i))"

definition MarkupView :: "MarkupLine list \<Rightarrow> string \<Rightarrow> nat list \<Rightarrow> 'h dom" where
  "MarkupView lines label items =
     virtual_view [(''role'', lat ''region''), (''aria-label'', lat label)]
       (showNat (content_cols lines) @ ''ch'') (length lines) (markup_line_dom lines) items"

section \<open>Reading a dump back\<close>

fun hex_pairs :: "string \<Rightarrow> byte list" where
  "hex_pairs (a # b # s) =
     (if a = CHR '' '' then [] else word_of_nat (16 * digit_value a + digit_value b) # hex_pairs (drop 1 s))"
| "hex_pairs s = []"

definition undump :: "string \<Rightarrow> byte list" where
  "undump dump = concat (map (\<lambda>line. hex_pairs (take 47 (drop 10 line))) (split_on newline dump))"

lemma hex_row_loop_eq:
  "i + n \<le> length bytes \<Longrightarrow>
   hex_row_loop bytes i n parts ascii =
     (parts @ map toHexByte (take n (drop i bytes)), ascii @ map hex_ascii (take n (drop i bytes)))"
proof (induction bytes i n parts ascii rule: hex_row_loop.induct)
  case (2 bytes i n hexParts ascii)
  then have "take (Suc n) (drop i bytes) = bytes ! i # take n (drop (i + 1) bytes)"
    by (subst Cons_nth_drop_Suc [symmetric]) simp_all
  with 2 show ?case by simp
qed simp

text \<open>The bytes of a row.\<close>

definition row_bytes :: "byte list \<Rightarrow> nat \<Rightarrow> byte list" where
  "row_bytes bytes r = take 16 (drop (r * 16) bytes)"

lemma hexRow_eq:
  assumes "r < hexRowCount (length bytes)"
  shows "hexRow bytes r =
    \<lparr>hr_offset = padStart 8 CHR ''0'' (toRadix 16 (r * 16)),
     hr_hex = join '' '' (map toHexByte (row_bytes bytes r) @ replicate (16 - length (row_bytes bytes r)) ''  ''),
     hr_ascii = map hex_ascii (row_bytes bytes r)\<rparr>"
proof -
  have r: "r * 16 < length bytes"
    using assms ceil_div_le [of 16 "length bytes" r] by (simp add: hexRowCount_def HEX_BYTES_PER_ROW_def flip: not_le)
  have "take (min (r * 16 + 16) (length bytes) - r * 16) (drop (r * 16) bytes) = row_bytes bytes r"
    by (cases "r * 16 + 16 \<le> length bytes") (simp_all add: row_bytes_def min_def)
  with r show ?thesis
    by (simp add: hexRow_def HEX_BYTES_PER_ROW_def Let_def hex_row_loop_eq)
qed

lemma toHexByte_chars:
  "toHexByte b = [digit_char (unat b div 16), digit_char (unat b mod 16)]"
proof -
  have b: "unat b < 256" by (rule unat_byte)
  show ?thesis
  proof (cases "unat b < 16")
    case True
    then show ?thesis by (simp add: toHexByte_def toRadix.simps padStart_def digit_0)
  next
    case False
    moreover have "unat b div 16 < 16" using b by (simp add: less_mult_imp_div_less)
    ultimately have "toRadix 16 (unat b) = [digit_char (unat b div 16), digit_char (unat b mod 16)]"
      by (subst toRadix.simps, subst toRadix.simps) simp
    then show ?thesis by (simp add: toHexByte_def padStart_def)
  qed
qed

lemma digit_char_not_space: "d < 36 \<Longrightarrow> digit_char d \<noteq> CHR '' ''"
proof
  assume "d < 36" "digit_char d = CHR '' ''"
  then have "charCode (digit_char d) = 32" by (simp add: charCode_def)
  with \<open>d < 36\<close> show False by (simp add: charCode_digit split: if_splits)
qed

lemma hex_pairs_blank: "hex_pairs (join '' '' (replicate n ''  '')) = []"
  by (cases n rule: nat.exhaust; cases "n - 1") (auto simp: numeral_eq_Suc)

lemma hex_pairs_parts: "hex_pairs (join '' '' (map toHexByte bs @ replicate n ''  '')) = bs"
proof (induction bs)
  case Nil
  then show ?case by (simp add: hex_pairs_blank)
next
  case (Cons b bs)
  have "unat b < 256" by (rule unat_byte)
  then have d: "unat b div 16 < 16" by (simp add: less_mult_imp_div_less)
  have v: "word_of_nat (16 * (unat b div 16) + unat b mod 16) = b" by (simp only: mult_div_mod_eq) simp
  show ?case
  proof (cases "map toHexByte bs @ replicate n ''  ''")
    case Nil
    then show ?thesis using d v digit_char_not_space [of "unat b div 16"] by (auto simp: toHexByte_chars)
  next
    case (Cons p ps)
    then have "hex_pairs (join '' '' (map toHexByte (b # bs) @ replicate n ''  '')) = b # hex_pairs (join '' '' (p # ps))"
      using d v digit_char_not_space [of "unat b div 16"] by (simp add: toHexByte_chars)
    then show ?thesis using Cons.IH by (simp only: Cons)
  qed
qed

lemma row_bytes_length: "length (row_bytes bytes r) \<le> 16"
  by (simp add: row_bytes_def)

lemma join_length:
  "ps \<noteq> [] \<Longrightarrow> \<forall>p\<in>set ps. length p = k \<Longrightarrow> length (join [c] ps) = length ps * (k + 1) - 1"
  by (induction "[c]" ps rule: join.induct) (auto simp: algebra_simps)

lemma hex_column_length:
  "length (join '' '' (map toHexByte (row_bytes bytes r) @ replicate (16 - length (row_bytes bytes r)) ''  '')) = 47"
  using row_bytes_length [of bytes r]
  by (subst join_length [of _ 2]) (auto simp: toHexByte_chars)

lemma digit_char_not_newline: "d < 36 \<Longrightarrow> digit_char d \<noteq> newline"
proof
  assume "d < 36" "digit_char d = newline"
  then have "charCode (digit_char d) = 10" by (simp add: charCode_def newline_def)
  with \<open>d < 36\<close> show False by (simp add: charCode_digit split: if_splits)
qed

lemma radix_no_newline: "newline \<notin> set (toRadix 16 n)"
proof
  assume "newline \<in> set (toRadix 16 n)"
  then obtain d where "d < 16" "newline = digit_char d" using toRadix_digits [of 16 newline n] by auto
  then show False using digit_char_not_newline [of d] by simp
qed

lemma padStart_set: "set (padStart w c s) \<subseteq> insert c (set s)"
  by (auto simp: padStart_def)

lemma join_set: "set (join sep ps) \<subseteq> set sep \<union> \<Union> (set ` set ps)"
  by (induction sep ps rule: join.induct) auto

lemma hex_ascii_not_newline: "hex_ascii b \<noteq> newline"
proof (cases "0x20 \<le> b \<and> b \<le> 0x7e")
  case True
  then have "32 \<le> unat b" by (simp add: word_le_nat_alt)
  then have "charCode (fromCharCode (unat b)) \<noteq> 10" using unat_byte [of b] by simp
  then show ?thesis using True by (auto simp: hex_ascii_def newline_def charCode_def)
qed (auto simp: hex_ascii_def newline_def)

lemma hex_line_no_newline:
  assumes "r < hexRowCount (length bytes)"
  shows "newline \<notin> set (hex_row_line (hexRow bytes r))"
proof -
  have chars: "newline \<noteq> CHR ''0''" "newline \<noteq> CHR '' ''" "newline \<noteq> CHR ''|''"
    by (simp_all add: newline_def)
  have "newline \<notin> set (hr_offset (hexRow bytes r))"
    using padStart_set radix_no_newline chars by (fastforce simp: hexRow_eq [OF assms])
  moreover have "newline \<notin> set (toHexByte b)" for b
    using padStart_set radix_no_newline chars by (fastforce simp: toHexByte_def)
  then have "newline \<notin> set (hr_hex (hexRow bytes r))"
    using join_set chars by (fastforce simp: hexRow_eq [OF assms])
  moreover have "newline \<notin> set (hr_ascii (hexRow bytes r))"
    using hex_ascii_not_newline by (auto simp: hexRow_eq [OF assms] dest!: sym [of newline])
  ultimately show ?thesis using chars by (simp add: hex_row_line_def)
qed

lemma hex_line_bytes:
  assumes "r < hexRowCount (length bytes)" "length bytes \<le> 2 ^ 32"
  shows "hex_pairs (take 47 (drop 10 (hex_row_line (hexRow bytes r)))) = row_bytes bytes r"
proof -
  have "r * 16 < length bytes"
    using assms(1) ceil_div_le [of 16 "length bytes" r] by (simp add: hexRowCount_def HEX_BYTES_PER_ROW_def flip: not_le)
  then have "r * 16 < 16 ^ 8" using assms(2) by simp
  then have "length (hr_offset (hexRow bytes r)) = 8"
    by (simp add: hexRow_eq [OF assms(1)] padStart_exact toRadix_length)
  moreover have "length (hr_hex (hexRow bytes r)) = 47"
    by (simp add: hexRow_eq [OF assms(1)] hex_column_length)
  ultimately have "take 47 (drop 10 (hex_row_line (hexRow bytes r))) = hr_hex (hexRow bytes r)"
    by (simp add: hex_row_line_def)
  then show ?thesis by (simp add: hexRow_eq [OF assms(1)] hex_pairs_parts)
qed

lemma concat_rows: "concat (map (row_bytes bytes) [0..<n]) = take (16 * n) bytes"
proof (induction n)
  case (Suc n)
  have "take (16 * Suc n) bytes = take (16 * n) bytes @ row_bytes bytes n"
    using take_add [of "16 * n" 16 bytes] by (simp add: row_bytes_def mult.commute add.commute)
  with Suc show ?case by simp
qed simp

section \<open>Gutters\<close>

lemma ceil_log10_le: "ceil_log10 n \<le> k \<longleftrightarrow> n \<le> 10 ^ k"
proof (induction n arbitrary: k rule: ceil_log10.induct)
  case (1 n)
  show ?case
  proof (cases "n \<le> 1")
    case True
    have "(1 :: nat) \<le> 10 ^ k" by (rule one_le_power) simp
    with True have "n \<le> 10 ^ k" by (rule le_trans)
    with True show ?thesis by (simp add: ceil_log10.simps)
  next
    case False
    show ?thesis
    proof (cases k)
      case 0
      with False show ?thesis by (subst ceil_log10.simps) simp
    next
      case (Suc k')
      with False 1 show ?thesis by (subst ceil_log10.simps) (simp add: ceil_div_le mult.commute)
    qed
  qed
qed

lemma showNat_length_le: "0 < k \<Longrightarrow> n < 10 ^ k \<Longrightarrow> length (showNat n) \<le> k"
  by (simp add: showNat_def toRadix_length)

lemma gutter_fits: "i < n \<Longrightarrow> length (showNat (i + 1)) \<le> gutter_digits n"
proof -
  assume "i < n"
  then have "i + 1 < 10 ^ ceil_log10 (n + 1)" using ceil_log10_le [of "n + 1" "ceil_log10 (n + 1)"] by simp
  also have "\<dots> \<le> 10 ^ gutter_digits n" by (simp add: gutter_digits_def power_increasing)
  finally show ?thesis by (intro showNat_length_le) (simp_all add: gutter_digits_def)
qed

lemma max_cols_bound: "line \<in> set lines \<Longrightarrow> line_cols line \<le> max_cols lines"
proof -
  have "\<forall>line\<in>set ls. line_cols line \<le> foldl (\<lambda>m line. if line_cols line > m then line_cols line else m) k ls"
    "k \<le> foldl (\<lambda>m line. if line_cols line > m then line_cols line else m) k ls" for ls k
    by (induction ls arbitrary: k) (auto intro: order_trans, (meson le_trans less_imp_le order_refl not_le)+)
  then show "line \<in> set lines \<Longrightarrow> line_cols line \<le> max_cols lines" by (simp add: max_cols_def)
qed

lemma line_cols_eq: "line_cols line = length (line_text line)"
proof -
  have "foldl (\<lambda>cols token. cols + length (mt_text token)) k ts = k + length (concat (map mt_text ts))" for k ts
    by (induction ts arbitrary: k) simp_all
  from this [of 0 line] show ?thesis by (simp add: line_cols_def line_text_def)
qed

section \<open>Properties\<close>

lemma undump_hexDumpText:
  assumes "length bytes \<le> 2 ^ 32"
  shows "undump (hexDumpText bytes) = bytes"
proof (cases "bytes = []")
  case True
  then show ?thesis by (simp add: hexDumpText_def hexRowCount_def ceil_div_def HEX_BYTES_PER_ROW_def undump_def)
next
  case False
  let ?n = "hexRowCount (length bytes)"
  have n: "length bytes \<le> 16 * ?n" "?n \<noteq> 0"
    using ceil_div_le [of 16 "length bytes" ?n] ceil_div_le [of 16 "length bytes" 0] False
    by (auto simp: hexRowCount_def HEX_BYTES_PER_ROW_def mult.commute)
  have "split_on newline (hexDumpText bytes) = map (\<lambda>r. hex_row_line (hexRow bytes r)) [0..<?n]"
    unfolding hexDumpText_def using n(2) hex_line_no_newline by (intro split_on_join) auto
  moreover have "map (\<lambda>r. hex_pairs (take 47 (drop 10 (hex_row_line (hexRow bytes r))))) [0..<?n]
      = map (row_bytes bytes) [0..<?n]"
    using hex_line_bytes [OF _ assms] by (intro map_cong) simp_all
  ultimately have "undump (hexDumpText bytes) = concat (map (row_bytes bytes) [0..<?n])"
    by (simp only: undump_def map_map comp_def)
  then show ?thesis using n(1) by (simp add: concat_rows)
qed

interpretation hexdump: lossless_codec "\<lambda>bytes. length bytes \<le> 2 ^ 32" hexDumpText "\<lambda>dump. Some (undump dump)"
  by unfold_locales (simp add: undump_hexDumpText)

text \<open>
  Property C26. A hex dump determines the bytes: reading the hex columns of the dump text back
  gives the body, and two bodies with the same dump are the same, for bodies of up to 4 GiB
  (beyond, offsets are wider than their column).
\<close>

theorem hex_dump_roundtrip:
  assumes "length bytes \<le> 2 ^ 32"
  shows "undump (hexDumpText bytes) = bytes
    \<and> (length other \<le> 2 ^ 32 \<longrightarrow> hexDumpText other = hexDumpText bytes \<longrightarrow> other = bytes)"
  using hexdump.parse_printed [OF assms] hexdump.printed_inject [OF _ assms, of other] by simp

theorem hex_dump_roundtrip_witness: "undump (hexDumpText [0x50, 0x4b, 0x0a]) = [0x50, 0x4b, 0x0a]"
  using hex_dump_roundtrip [of "[0x50, 0x4b, 0x0a]"] by simp

text \<open>
  In the markup view no row is wider than the scroll content: the line number fits
  the gutter, and gutter, separator and the text of any line fit the width computed from all
  lines, so a long line scrolls and is not clipped.
\<close>

theorem markup_rows_fit_width:
  assumes "i < length lines"
  shows "length (text_content (markup_line_dom lines i :: 'h dom)) \<le> content_cols lines
    \<and> length (showNat (i + 1)) \<le> gutter_digits (length lines)"
proof -
  have "line_cols (lines ! i) \<le> max_cols lines" using assms max_cols_bound by simp
  moreover have "text_content (markup_line_dom lines i :: 'h dom)
      = lat (padStart (gutter_digits (length lines)) CHR '' '' (showNat (i + 1)) @ '' '' @ line_text (lines ! i))"
    by (simp add: markup_line_dom_def line_text_def map_concat comp_def)
  ultimately show ?thesis
    using gutter_fits [OF assms] by (simp add: content_cols_def length_padStart line_cols_eq)
qed

theorem markup_rows_fit_width_witness:
  "length (text_content (markup_line_dom [[\<lparr>mt_type = ''tag'', mt_text = ''<a>''\<rparr>]] 0 :: unit dom))
     \<le> content_cols [[\<lparr>mt_type = ''tag'', mt_text = ''<a>''\<rparr>]]
   \<and> length (showNat (0 + 1)) \<le> gutter_digits (length [[\<lparr>mt_type = ''tag'', mt_text = ''<a>''\<rparr>]])"
  by (rule markup_rows_fit_width) simp

end
