(* ===== verification/Download.thy ===== *)
theory Download
  imports Prelude Codec
begin

text \<open>
  Download names, \<open>lib/download.ts\<close>. Its two regular expressions are written out as scans from
  the leftmost position at which they match, greedy and with the one backtracking step that
  matters. \<open>decodeURIComponent\<close> decodes percent escapes as strict UTF-8; a decoded code point
  above Latin-1 is a \<open>Uni\<close> glyph. The registry of the \<open>mime\<close> package is the parameter
  \<open>getExtension\<close>. Triggering the download (blob URL, anchor click) is an effect on the page: the
  name and the bytes it uses are its arguments.

  Shown: an extended filename parameter gives back the encoded name, and a name that does not
  come from the header is one path segment with an extension.
\<close>

section \<open>\<open>decodeURIComponent\<close>\<close>

definition hex_value :: "char \<Rightarrow> nat option" where
  "hex_value c = (let n = charCode c
     in if 48 \<le> n \<and> n \<le> 57 then Some (n - 48)
        else if 65 \<le> n \<and> n \<le> 70 then Some (n - 55)
        else if 97 \<le> n \<and> n \<le> 102 then Some (n - 87)
        else None)"

text \<open>One escape \<open>%XX\<close>: its byte and the rest.\<close>

fun pct_byte :: "string \<Rightarrow> (nat \<times> string) option" where
  "pct_byte (p # h # l # s) =
     (if p \<noteq> CHR ''%'' then None
      else case (hex_value h, hex_value l) of
        (Some a, Some b) \<Rightarrow> Some (16 * a + b, s)
      | _ \<Rightarrow> None)"
| "pct_byte s = None"

text \<open>The continuation bytes \<open>10xxxxxx\<close> of a sequence.\<close>

fun pct_tail :: "nat \<Rightarrow> nat \<Rightarrow> string \<Rightarrow> (nat \<times> string) option" where
  "pct_tail 0 cp s = Some (cp, s)"
| "pct_tail (Suc n) cp s = (case pct_byte s of
     None \<Rightarrow> None
   | Some (b, s') \<Rightarrow> if 128 \<le> b \<and> b < 192 then pct_tail n (cp * 64 + b mod 64) s' else None)"

text \<open>The number of continuation bytes and the payload of a first byte, and the least code point.\<close>

definition utf8_lead :: "nat \<Rightarrow> (nat \<times> nat \<times> nat) option" where
  "utf8_lead b =
     (if b < 128 then Some (0, b, 0)
      else if 192 \<le> b \<and> b < 224 then Some (1, b - 192, 128)
      else if 224 \<le> b \<and> b < 240 then Some (2, b - 224, 2048)
      else if 240 \<le> b \<and> b < 248 then Some (3, b - 240, 65536)
      else None)"

definition valid_code_point :: "nat \<Rightarrow> nat \<Rightarrow> bool" where
  "valid_code_point least cp \<longleftrightarrow> least \<le> cp \<and> cp < 1114112 \<and> \<not> (55296 \<le> cp \<and> cp < 57344)"

definition code_glyph :: "nat \<Rightarrow> glyph" where
  "code_glyph cp = (if cp < 256 then Lat (fromCharCode cp) else Uni cp)"

definition pct_code_point :: "string \<Rightarrow> (nat \<times> string) option" where
  "pct_code_point s = (case pct_byte s of
     None \<Rightarrow> None
   | Some (b, s') \<Rightarrow> (case utf8_lead b of
       None \<Rightarrow> None
     | Some (n, payload, least) \<Rightarrow> (case pct_tail n payload s' of
         None \<Rightarrow> None
       | Some (cp, s'') \<Rightarrow> if valid_code_point least cp then Some (cp, s'') else None)))"

lemma pct_byte_length: "pct_byte s = Some (b, s') \<Longrightarrow> length s' < length s"
  by (cases s rule: pct_byte.cases) (auto split: if_splits option.splits)

lemma pct_tail_length: "pct_tail n cp s = Some (r, s') \<Longrightarrow> length s' \<le> length s"
proof (induction n arbitrary: cp s)
  case (Suc n)
  from Suc.prems obtain b t where "pct_byte s = Some (b, t)" "pct_tail n (cp * 64 + b mod 64) t = Some (r, s')"
    by (auto split: option.splits prod.splits if_splits)
  then show ?case using Suc.IH pct_byte_length by fastforce
qed simp

lemma pct_code_point_length: "pct_code_point s = Some (cp, s') \<Longrightarrow> length s' < length s"
  by (auto simp: pct_code_point_def split: if_splits option.splits prod.splits dest!: pct_byte_length pct_tail_length)

function decodeURIComponent :: "string \<Rightarrow> glyph list option" where
  "decodeURIComponent [] = Some []"
| "decodeURIComponent (c # s) =
     (if c \<noteq> CHR ''%'' then map_option (\<lambda>r. Lat c # r) (decodeURIComponent s)
      else case pct_code_point (c # s) of
        None \<Rightarrow> None
      | Some (cp, s') \<Rightarrow> map_option (\<lambda>r. code_glyph cp # r) (decodeURIComponent s'))"
  by pat_completeness auto
termination
  by (relation "measure length") (auto dest: pct_code_point_length)

section \<open>Content-Disposition\<close>

text \<open>The word \<open>filename\<close> in any case at the front, and what follows it.\<close>

definition after_filename :: "string \<Rightarrow> string option" where
  "after_filename s = (if startsWith (toLowerCase s) ''filename'' then Some (drop 8 s) else None)"

definition after_char :: "char \<Rightarrow> string \<Rightarrow> string option" where
  "after_char c s = (case s of [] \<Rightarrow> None | x # r \<Rightarrow> if x = c then Some r else None)"

text \<open>\<open>/filename\*\s*=\s*[^']*''([^;]+)/i\<close> at the front: the group.\<close>

definition extended_here :: "string \<Rightarrow> string option" where
  "extended_here s = (case after_filename s of
     None \<Rightarrow> None
   | Some s1 \<Rightarrow> (case after_char (CHR ''*'') s1 of
       None \<Rightarrow> None
     | Some s2 \<Rightarrow> (case after_char (CHR ''='') (trimStart s2) of
         None \<Rightarrow> None
       | Some s3 \<Rightarrow>
           let s4 = dropWhile (\<lambda>c. c \<noteq> CHR 0x27) s3;
               group = takeWhile (\<lambda>c. c \<noteq> CHR '';'') (drop 2 s4)
           in if take 2 s4 = [CHR 0x27, CHR 0x27] \<and> group \<noteq> [] then Some group else None)))"

text \<open>
  \<open>/filename\s*=\s*"?([^";]+)"?/i\<close> at the front. When nothing is left for the group, the white
  space before it gives its last character back.
\<close>

definition plain_here :: "string \<Rightarrow> string option" where
  "plain_here s = (case after_filename s of
     None \<Rightarrow> None
   | Some s1 \<Rightarrow> (case after_char (CHR ''='') (trimStart s1) of
       None \<Rightarrow> None
     | Some s2 \<Rightarrow>
         let ws = takeWhile is_ws s2;
             s3 = dropWhile is_ws s2;
             s4 = (case after_char (CHR 0x22) s3 of Some r \<Rightarrow> r | None \<Rightarrow> s3);
             group = takeWhile (\<lambda>c. c \<noteq> CHR 0x22 \<and> c \<noteq> CHR '';'') s4
         in if group \<noteq> [] then Some group else if ws \<noteq> [] then Some [last ws] else None))"

text \<open>The leftmost match.\<close>

fun first_match :: "(string \<Rightarrow> string option) \<Rightarrow> string \<Rightarrow> string option" where
  "first_match p [] = p []"
| "first_match p (c # s) = (case p (c # s) of Some g \<Rightarrow> Some g | None \<Rightarrow> first_match p s)"

definition filenameFromDisposition :: "string \<Rightarrow> glyph list option" where
  "filenameFromDisposition disposition =
     (let plain = map_option (\<lambda>g. lat (trim g)) (first_match plain_here disposition)
      in case first_match extended_here disposition of
           None \<Rightarrow> plain
         | Some g \<Rightarrow> (case decodeURIComponent (trim g) of Some name \<Rightarrow> Some name | None \<Rightarrow> plain))"

section \<open>Extension and base name\<close>

definition download_baseType :: "string \<Rightarrow> string" where
  "download_baseType contentType = toLowerCase (trim (hd (split_on (CHR '';'') contentType)))"

definition extensionFor :: "(string \<Rightarrow> string option) \<Rightarrow> string option \<Rightarrow> string" where
  "extensionFor getExtension contentType = (case contentType of
     None \<Rightarrow> ''bin''
   | Some ct \<Rightarrow>
       let base = download_baseType ct
       in if str_includes base ''ndjson'' \<or> str_includes base ''jsonl'' then ''ndjson''
          else if endsWith base ''+json'' then ''json''
          else if endsWith base ''+xml'' then ''xml''
          else case getExtension base of
            Some ext \<Rightarrow> ext
          | None \<Rightarrow> if startsWith base ''text/'' then ''txt'' else ''bin'')"

definition basenameFromUri :: "string \<Rightarrow> string" where
  "basenameFromUri uri =
     (let path = takeWhile (\<lambda>c. c \<noteq> CHR ''?'' \<and> c \<noteq> CHR ''#'') uri;
          segments = filter (\<lambda>seg. seg \<noteq> []) (split_on (CHR ''/'') path)
      in if segments = [] then [] else last segments)"

text \<open>\<open>/\.[^./]+$/\<close>.\<close>

definition has_extension :: "string \<Rightarrow> bool" where
  "has_extension base =
     (let ext = takeWhile (\<lambda>c. c \<noteq> CHR ''.'' \<and> c \<noteq> CHR ''/'') (rev base);
          before = drop (length ext) (rev base)
      in ext \<noteq> [] \<and> before \<noteq> [] \<and> hd before = CHR ''.'')"

definition deriveFilename ::
    "(string \<Rightarrow> string option) \<Rightarrow> string option \<Rightarrow> string option \<Rightarrow> string option \<Rightarrow> glyph list" where
  "deriveFilename getExtension contentDisposition uri contentType =
     (let fromHeader = (case contentDisposition of None \<Rightarrow> None | Some d \<Rightarrow> filenameFromDisposition d);
          segment = (case uri of None \<Rightarrow> [] | Some u \<Rightarrow> basenameFromUri u);
          base = (if segment = [] then ''body'' else segment);
          fallback = lat (if has_extension base then base else base @ ''.'' @ extensionFor getExtension contentType)
      in case fromHeader of
           None \<Rightarrow> fallback
         | Some name \<Rightarrow> if name \<noteq> [] then name else fallback)"

section \<open>Lemmas\<close>

lemma split_on_last_no_sep: "seg \<in> set (filter (\<lambda>seg. seg \<noteq> []) (split_on c s)) \<Longrightarrow> c \<notin> set seg"
  using split_on_no_sep by fastforce

lemma basename_no_slash: "CHR ''/'' \<notin> set (basenameFromUri uri)"
proof -
  let ?segs = "filter (\<lambda>seg. seg \<noteq> []) (split_on (CHR ''/'') (takeWhile (\<lambda>c. c \<noteq> CHR ''?'' \<and> c \<noteq> CHR ''#'') uri))"
  show ?thesis
  proof (cases "?segs = []")
    case False
    then have "CHR ''/'' \<notin> set (last ?segs)" by (intro split_on_last_no_sep [of _ _ "takeWhile (\<lambda>c. c \<noteq> CHR ''?'' \<and> c \<noteq> CHR ''#'') uri"] last_in_set)
    then show ?thesis using False by (simp add: basenameFromUri_def Let_def del: filter_empty_conv)
  qed (simp add: basenameFromUri_def Let_def)
qed

lemma has_extension_append:
  assumes "ext \<noteq> []" "CHR ''.'' \<notin> set ext" "CHR ''/'' \<notin> set ext"
  shows "has_extension (base @ ''.'' @ ext)"
proof -
  have "takeWhile (\<lambda>c. c \<noteq> CHR ''.'' \<and> c \<noteq> CHR ''/'') (rev ext @ CHR ''.'' # rev base) = rev ext"
    using assms by (subst takeWhile_append2) auto
  then show ?thesis using assms(1) by (simp add: has_extension_def Let_def)
qed

text \<open>The encoding of a name: every code point as the escapes of its UTF-8 bytes.\<close>

definition pct_escape :: "nat \<Rightarrow> string" where
  "pct_escape b = [CHR ''%'', digit_char (b div 16), digit_char (b mod 16)]"

definition utf8_bytes :: "nat \<Rightarrow> nat list" where
  "utf8_bytes cp =
     (if cp < 128 then [cp]
      else if cp < 2048 then [192 + cp div 64, 128 + cp mod 64]
      else if cp < 65536 then [224 + cp div 4096, 128 + cp div 64 mod 64, 128 + cp mod 64]
      else [240 + cp div 262144, 128 + cp div 4096 mod 64, 128 + cp div 64 mod 64, 128 + cp mod 64])"

definition encode_name :: "nat list \<Rightarrow> string" where
  "encode_name cps = concat (map (\<lambda>cp. concat (map pct_escape (utf8_bytes cp))) cps)"

lemma hex_value_digit: "d < 16 \<Longrightarrow> hex_value (digit_char d) = Some d"
  by (simp add: hex_value_def charCode_digit Let_def)

lemma pct_byte_escape: "b < 256 \<Longrightarrow> pct_byte (pct_escape b @ s) = Some (b, s)"
  by (simp add: pct_escape_def hex_value_digit)

lemma pct_tail_escape:
  "x < 64 \<Longrightarrow> pct_tail (Suc n) cp (pct_escape (128 + x) @ s) = pct_tail n (cp * 64 + x) s"
proof -
  assume "x < 64"
  moreover from this have "(128 + x) mod 64 = x" using mod_mult_self1 [of x 2 64] by (simp add: add.commute)
  ultimately show ?thesis by (simp add: pct_byte_escape)
qed

lemma pct_tail_1: "x < 64 \<Longrightarrow> pct_tail 1 cp (pct_escape (128 + x) @ s) = Some (cp * 64 + x, s)"
  using pct_tail_escape [of x 0 cp s] by simp

lemma pct_tail_2:
  "x < 64 \<Longrightarrow> y < 64 \<Longrightarrow>
   pct_tail 2 cp (pct_escape (128 + x) @ pct_escape (128 + y) @ s) = Some ((cp * 64 + x) * 64 + y, s)"
  unfolding numeral_2_eq_2 using pct_tail_escape [of x 1 cp] pct_tail_1 [of y "cp * 64 + x" s] by simp

lemma pct_tail_3:
  "x < 64 \<Longrightarrow> y < 64 \<Longrightarrow> z < 64 \<Longrightarrow>
   pct_tail 3 cp (pct_escape (128 + x) @ pct_escape (128 + y) @ pct_escape (128 + z) @ s)
     = Some (((cp * 64 + x) * 64 + y) * 64 + z, s)"
  unfolding numeral_3_eq_3 using pct_tail_escape [of x 2 cp] pct_tail_2 [of y z "cp * 64 + x" s]
  by (simp add: numeral_2_eq_2)

lemma pct_code_point_lead:
  "b < 256 \<Longrightarrow> utf8_lead b = Some (n, payload, least) \<Longrightarrow> pct_tail n payload s = Some (cp, s') \<Longrightarrow>
   valid_code_point least cp \<Longrightarrow> pct_code_point (pct_escape b @ s) = Some (cp, s')"
  by (simp add: pct_code_point_def pct_byte_escape)

lemma base64_digits:
  fixes cp :: nat
  shows "cp div 64 * 64 + cp mod 64 = cp" "(cp div 4096 * 64 + cp div 64 mod 64) * 64 + cp mod 64 = cp"
    "((cp div 262144 * 64 + cp div 4096 mod 64) * 64 + cp div 64 mod 64) * 64 + cp mod 64 = cp"
proof -
  have d: "cp div 4096 = cp div 64 div 64" "cp div 262144 = cp div 64 div 64 div 64"
    by (simp_all add: div_mult2_eq [symmetric])
  show "cp div 64 * 64 + cp mod 64 = cp" "(cp div 4096 * 64 + cp div 64 mod 64) * 64 + cp mod 64 = cp"
    "((cp div 262144 * 64 + cp div 4096 mod 64) * 64 + cp div 64 mod 64) * 64 + cp mod 64 = cp"
    unfolding d by (simp_all only: div_mult_mod_eq)
qed

lemma pct_code_point_encode:
  assumes "valid_code_point 0 cp"
  shows "pct_code_point (concat (map pct_escape (utf8_bytes cp)) @ s) = Some (cp, s)"
proof -
  have cp: "cp < 1114112" using assms by (simp add: valid_code_point_def)
  have v: "valid_code_point least cp" if "least \<le> cp" for least
    using assms that by (simp add: valid_code_point_def)
  consider "cp < 128" | "128 \<le> cp" "cp < 2048" | "2048 \<le> cp" "cp < 65536" | "65536 \<le> cp" by linarith
  then show ?thesis
  proof cases
    case 1
    then show ?thesis
      using pct_code_point_lead [of cp 0 cp 0 s cp s] v [of 0] by (simp add: utf8_bytes_def utf8_lead_def)
  next
    case 2
    then have lead: "cp div 64 < 32" by (simp add: div_less_iff_less_mult)
    have "pct_code_point (pct_escape (192 + cp div 64) @ pct_escape (128 + cp mod 64) @ s) = Some (cp, s)"
      by (rule pct_code_point_lead [OF _ _ pct_tail_1 [of "cp mod 64" "cp div 64" s, unfolded base64_digits] v])
         (use 2 lead in \<open>simp_all add: utf8_lead_def\<close>)
    then show ?thesis using 2 by (simp add: utf8_bytes_def)
  next
    case 3
    then have lead: "cp div 4096 < 16" by (simp add: div_less_iff_less_mult)
    have "pct_code_point (pct_escape (224 + cp div 4096) @ pct_escape (128 + cp div 64 mod 64)
        @ pct_escape (128 + cp mod 64) @ s) = Some (cp, s)"
      by (rule pct_code_point_lead [OF _ _ pct_tail_2 [of "cp div 64 mod 64" "cp mod 64" "cp div 4096" s, unfolded base64_digits] v])
         (use 3 lead in \<open>simp_all add: utf8_lead_def\<close>)
    then show ?thesis using 3 by (simp add: utf8_bytes_def)
  next
    case 4
    then have lead: "cp div 262144 < 8" using cp by (simp add: div_less_iff_less_mult)
    have "pct_code_point (pct_escape (240 + cp div 262144) @ pct_escape (128 + cp div 4096 mod 64)
        @ pct_escape (128 + cp div 64 mod 64) @ pct_escape (128 + cp mod 64) @ s) = Some (cp, s)"
      by (rule pct_code_point_lead [OF _ _ pct_tail_3 [of "cp div 4096 mod 64" "cp div 64 mod 64" "cp mod 64" "cp div 262144" s, unfolded base64_digits] v])
         (use 4 lead in \<open>simp_all add: utf8_lead_def\<close>)
    then show ?thesis using 4 by (simp add: utf8_bytes_def)
  qed
qed


lemma decode_encode_step:
  assumes "valid_code_point 0 cp"
  shows "decodeURIComponent (concat (map pct_escape (utf8_bytes cp)) @ s)
     = map_option (\<lambda>r. code_glyph cp # r) (decodeURIComponent s)"
proof -
  obtain r where r: "concat (map pct_escape (utf8_bytes cp)) @ s = CHR ''%'' # r"
    by (cases "utf8_bytes cp") (auto simp: utf8_bytes_def pct_escape_def split: if_splits)
  then show ?thesis using pct_code_point_encode [OF assms, of s] by simp
qed

lemma decode_encode:
  "list_all (valid_code_point 0) cps \<Longrightarrow> decodeURIComponent (encode_name cps) = Some (map code_glyph cps)"
  by (induction cps) (simp_all add: encode_name_def decode_encode_step)

interpretation percent: codec "list_all (valid_code_point 0)" encode_name decodeURIComponent "map code_glyph"
  by unfold_locales (rule decode_encode)

text \<open>The characters of an encoding are escapes: no semicolon, no white space.\<close>

lemma utf8_bytes_less: "cp < 1114112 \<Longrightarrow> b \<in> set (utf8_bytes cp) \<Longrightarrow> b < 256"
proof -
  assume cp: "cp < 1114112" and b: "b \<in> set (utf8_bytes cp)"
  have "cp div 262144 < 5" using cp by (simp add: div_less_iff_less_mult)
  moreover have "cp < 65536 \<Longrightarrow> cp div 4096 < 16" by (simp add: div_less_iff_less_mult)
  moreover have "cp < 2048 \<Longrightarrow> cp div 64 < 32" by (simp add: div_less_iff_less_mult)
  moreover have "k mod 64 < 64" for k :: nat by simp
  ultimately show ?thesis using b unfolding utf8_bytes_def by (force split: if_splits)
qed

lemma hex_digit_plain: "d < 16 \<Longrightarrow> \<not> is_ws (digit_char d) \<and> digit_char d \<noteq> CHR '';''"
proof -
  assume d: "d < 16"
  have "charCode (digit_char d) \<noteq> charCode (CHR '';'')" using d by (simp add: charCode_digit) (simp add: charCode_def)
  then have "digit_char d \<noteq> CHR '';''" by auto
  then show ?thesis using d by (simp add: is_ws_def charCode_digit Let_def)
qed

lemma pct_escape_plain: "b < 256 \<Longrightarrow> c \<in> set (pct_escape b) \<Longrightarrow> \<not> is_ws c \<and> c \<noteq> CHR '';''"
proof -
  assume b: "b < 256" and c: "c \<in> set (pct_escape b)"
  have "b div 16 < 16" using b by (simp add: div_less_iff_less_mult)
  moreover have "\<not> is_ws (CHR ''%'')" by (simp add: is_ws_def charCode_def)
  ultimately show ?thesis using c hex_digit_plain by (auto simp: pct_escape_def)
qed

lemma encode_name_plain:
  assumes "list_all (valid_code_point 0) cps" "c \<in> set (encode_name cps)"
  shows "\<not> is_ws c \<and> c \<noteq> CHR '';''"
proof -
  obtain cp b where "cp \<in> set cps" and b: "b \<in> set (utf8_bytes cp)" "c \<in> set (pct_escape b)"
    using assms(2) by (auto simp: encode_name_def)
  then have "cp < 1114112" using assms(1) by (simp add: list_all_iff valid_code_point_def)
  then show ?thesis using utf8_bytes_less b pct_escape_plain by blast
qed

lemma encode_name_not_Nil: "cps \<noteq> [] \<Longrightarrow> encode_name cps \<noteq> []"
  by (cases cps) (auto simp: encode_name_def utf8_bytes_def pct_escape_def)

lemma encode_name_trim: "list_all (valid_code_point 0) cps \<Longrightarrow> trim (encode_name cps) = encode_name cps"
proof (cases "encode_name cps = []")
  case False
  assume "list_all (valid_code_point 0) cps"
  then show ?thesis
    using encode_name_plain hd_in_set [OF False] last_in_set [OF False] by (intro trim_id [OF False]) blast+
qed simp

text \<open>A prefix without the letter \<open>f\<close> cannot hold a match.\<close>

lemma after_filename_other: "c \<notin> {CHR ''f'', CHR ''F''} \<Longrightarrow> after_filename (c # s) = None"
proof -
  assume c: "c \<notin> {CHR ''f'', CHR ''F''}"
  have "charCode c \<noteq> 102" "charCode c \<noteq> 70"
    using c charCode_inject [of c "CHR ''f''"] charCode_inject [of c "CHR ''F''"] by (auto simp: charCode_def)
  then have "lower_code (charCode c) \<noteq> 102" by (auto simp: lower_code_def)
  moreover have "lower_code (charCode c) < 256" by (simp add: lower_code_less charCode_less)
  moreover have "charCode (CHR ''f'') = 102" by (simp add: charCode_def)
  ultimately have "fromCharCode (lower_code (charCode c)) \<noteq> CHR ''f''"
    using charCode_fromCharCode by fastforce
  then show ?thesis by (simp add: after_filename_def startsWith_def toLowerCase_def)
qed


lemma first_match_skip:
  assumes "list_all (\<lambda>c. c \<notin> {CHR ''f'', CHR ''F''}) pre" "\<And>c s. after_filename (c # s) = None \<Longrightarrow> p (c # s) = None"
  shows "first_match p (pre @ s) = first_match p s"
  using assms(1) by (induction pre) (simp_all add: assms(2) after_filename_other)

lemma extended_here_value:
  assumes "v \<noteq> []" "CHR '';'' \<notin> set v"
  shows "extended_here (''filename*=UTF-8'' @ [CHR 0x27, CHR 0x27] @ v) = Some v"
proof -
  have t: "takeWhile (\<lambda>c. c \<noteq> CHR '';'') v = v" using assms(2) by (auto simp: takeWhile_eq_all_conv)
  have "after_filename (''filename*=UTF-8'' @ [CHR 0x27, CHR 0x27] @ v) = Some (''*=UTF-8'' @ [CHR 0x27, CHR 0x27] @ v)"
    by (simp add: after_filename_def startsWith_def char_eval)
  moreover have "trimStart (''=UTF-8'' @ [CHR 0x27, CHR 0x27] @ v) = ''=UTF-8'' @ [CHR 0x27, CHR 0x27] @ v"
    by (simp add: trimStart_def is_ws_def charCode_def)
  ultimately show ?thesis using assms(1) by (simp add: extended_here_def after_char_def Let_def t del: takeWhile_eq_Nil_iff)
qed

section \<open>Properties\<close>

text \<open>
  Property C29. A name sent in the extended form, percent-encoded as UTF-8, is the name of the
  download, whatever characters it has, after any text without the letter \<open>f\<close>.
\<close>

theorem extended_filename_roundtrip:
  assumes "list_all (valid_code_point 0) cps" "cps \<noteq> []" "list_all (\<lambda>c. c \<notin> {CHR ''f'', CHR ''F''}) pre"
  shows "deriveFilename getExtension (Some (pre @ ''filename*=UTF-8'' @ [CHR 0x27, CHR 0x27] @ encode_name cps)) uri ct
     = map code_glyph cps"
proof -
  let ?v = "''filename*=UTF-8'' @ [CHR 0x27, CHR 0x27] @ encode_name cps"
  have v: "extended_here ?v = Some (encode_name cps)"
    using encode_name_plain [OF assms(1)] by (intro extended_here_value encode_name_not_Nil assms(2)) blast
  have "first_match extended_here (pre @ ?v) = first_match extended_here ?v"
    by (rule first_match_skip [OF assms(3)]) (simp add: extended_here_def)
  also have "\<dots> = Some (encode_name cps)" using v by simp
  finally have "filenameFromDisposition (pre @ ?v) = Some (map code_glyph cps)"
    by (simp add: filenameFromDisposition_def encode_name_trim [OF assms(1)] percent.parse_printed [OF assms(1)])
  then show ?thesis using assms(2) by (simp add: deriveFilename_def)
qed

theorem extended_filename_roundtrip_witness:
  "deriveFilename (\<lambda>_. None) (Some (''attachment; '' @ ''filename*=UTF-8'' @ [CHR 0x27, CHR 0x27] @ encode_name [0x20AC])) None None
     = [Uni 0x20AC]"
  using extended_filename_roundtrip [of "[0x20AC]" "''attachment; ''" "\<lambda>_. None" None None]
  by (simp add: valid_code_point_def code_glyph_def del: append.simps)

text \<open>
  Without a name in the header, the download's name is one path segment and has an
  extension, given that the registry's extensions are words without dot and slash.
\<close>

theorem fallback_name_is_a_file_name:
  assumes "\<And>base ext. getExtension base = Some ext \<Longrightarrow> ext \<noteq> [] \<and> CHR ''.'' \<notin> set ext \<and> CHR ''/'' \<notin> set ext"
  shows "\<exists>name. deriveFilename getExtension None uri ct = lat name \<and> CHR ''/'' \<notin> set name \<and> has_extension name"
proof -
  let ?segment = "case uri of None \<Rightarrow> [] | Some u \<Rightarrow> basenameFromUri u"
  let ?base = "if ?segment = [] then ''body'' else ?segment"
  let ?ext = "extensionFor getExtension ct"
  have base: "CHR ''/'' \<notin> set ?base" using basename_no_slash by (auto split: option.split)
  have ext: "?ext \<noteq> [] \<and> CHR ''.'' \<notin> set ?ext \<and> CHR ''/'' \<notin> set ?ext"
    using assms by (auto simp: extensionFor_def Let_def split: option.split)
  let ?name = "if has_extension ?base then ?base else ?base @ ''.'' @ ?ext"
  have "CHR ''/'' \<notin> set ?name" using base ext by auto
  moreover have "has_extension ?name" using has_extension_append [of ?ext ?base] ext by auto
  moreover have "deriveFilename getExtension None uri ct = lat ?name" by (simp add: deriveFilename_def Let_def)
  ultimately show ?thesis by blast
qed

theorem fallback_name_is_a_file_name_witness:
  "\<exists>name. deriveFilename (\<lambda>_. Some ''html'') None (Some ''/a/b'') (Some ''text/html'') = lat name \<and> has_extension name"
  using fallback_name_is_a_file_name [of "\<lambda>_. Some ''html''" "Some ''/a/b''" "Some ''text/html''"] by auto

end
