(* ===== verification/Body_Pane.thy ===== *)
theory Body_Pane
  imports Decode Json_Viewer Text_Views Store Exchange_View Download
begin

text \<open>
  The body pane: \<open>hooks/useDecodeBody.ts\<close>, \<open>components/body-pane.tsx\<close>,
  \<open>body-mode-selector.tsx\<close>, \<open>body-summary.tsx\<close>, \<open>copy-button.tsx\<close>, \<open>image-view.tsx\<close>,
  \<open>stream-error-banner.tsx\<close> and \<open>body-split.tsx\<close>.

  React compares bodies by identity, so a body comes with its reference, a number. A decode is
  a run with a number; its outcome arrives later, and the effect's cleanup cancels it. Heavy
  viewers keep their own state (theories Json_Viewer and Text_Views); what the pane chooses to
  show is the value \<open>PaneContent\<close>.

  Shown: the pane shows exactly one state of the body; a decode's result is shown for its own body
  only; caching a decoded size makes the pane decode again, once; every selectable mode shows
  something and can be copied.
\<close>

section \<open>\<open>useDecodeBody\<close>\<close>

type_synonym body_ref = "nat \<times> BodyState"

text \<open>
  \<open>dh_entry\<close>: the reference of the body it is for and the result, \<open>None\<close> when decoding failed.
  \<open>dh_cacheTo\<close>: the fields of \<open>cacheTo\<close>, the exchange and the direction the size is cached under.
\<close>

type_synonym cache_target = "nat \<times> Direction"

record DecodeHook =
  dh_body :: "body_ref option"
  dh_cacheTo :: "cache_target option"
  dh_entry :: "(nat \<times> DecodeResult option) option"
  dh_running :: "(nat \<times> body_ref) option"
  dh_runs :: nat

definition hook_effect :: "DecodeHook \<Rightarrow> DecodeHook" where
  "hook_effect h = (case dh_body h of
     None \<Rightarrow> h\<lparr>dh_running := None\<rparr>
   | Some (ref, body) \<Rightarrow>
       if \<not> bs_atEnd body then h\<lparr>dh_running := None\<rparr>
       else h\<lparr>dh_running := Some (dh_runs h, (ref, body)), dh_runs := dh_runs h + 1\<rparr>)"

text \<open>
  A mount and a render with a body; the effect runs when the reference or a field of \<open>cacheTo\<close>
  changed.
\<close>

definition hook_mount :: "cache_target option \<Rightarrow> body_ref option \<Rightarrow> DecodeHook" where
  "hook_mount cacheTo body =
     hook_effect \<lparr>dh_body = body, dh_cacheTo = cacheTo, dh_entry = None, dh_running = None, dh_runs = 0\<rparr>"

definition hook_render :: "cache_target option \<Rightarrow> body_ref option \<Rightarrow> DecodeHook \<Rightarrow> DecodeHook" where
  "hook_render cacheTo body h =
     (let h' = h\<lparr>dh_body := body, dh_cacheTo := cacheTo\<rparr>
      in if map_option fst body = map_option fst (dh_body h) \<and> cacheTo = dh_cacheTo h then h' else hook_effect h')"

text \<open>
  The outcome of a run, unless it was cancelled, and what is cached: the exchange, the direction and
  the decoded size.
\<close>

definition hook_settle ::
    "nat \<Rightarrow> DecodeResult option \<Rightarrow> DecodeHook \<Rightarrow> DecodeHook \<times> (cache_target \<times> nat) option" where
  "hook_settle run outcome h = (case dh_running h of
     None \<Rightarrow> (h, None)
   | Some (k, (ref, body)) \<Rightarrow>
       if k \<noteq> run then (h, None)
       else (h\<lparr>dh_entry := Some (ref, outcome), dh_running := None\<rparr>,
             case (outcome, dh_cacheTo h) of
                 (Some r, Some target) \<Rightarrow> map_option (Pair target) (dr_decodedBytes r)
               | _ \<Rightarrow> None))"

definition hook_result :: "DecodeHook \<Rightarrow> bool \<times> DecodeResult option" where
  "hook_result h = (case dh_body h of
     None \<Rightarrow> (False, None)
   | Some (ref, body) \<Rightarrow>
       if \<not> bs_atEnd body then (False, None)
       else case dh_entry h of
         None \<Rightarrow> (True, None)
       | Some (entry_ref, outcome) \<Rightarrow> if entry_ref = ref then (False, outcome) else (True, None))"

section \<open>Content\<close>

datatype PaneContent =
    show_hex "byte list"
  | show_tree ViewerProps string
  | show_image "byte list" string
  | show_summary string nat "nat option" "string option"
  | show_markup "MarkupLine list" string
  | show_text string

definition summary_of :: "DecodeResult \<Rightarrow> PaneContent" where
  "summary_of r = show_summary (dr_mediaType r) (dr_wireBytes r) (dr_decodedBytes r) (dr_contentEncoding r)"

text \<open>The input of the viewer is new with every result, whose reference is \<open>ref\<close>.\<close>

definition viewer_props :: "nat \<Rightarrow> JsonValue \<Rightarrow> JsonValue list option \<Rightarrow> DecodeResult \<Rightarrow> ViewerProps" where
  "viewer_props ref v docs r =
     \<lparr>vp_input = ref, vp_value = v, vp_documents = docs, vp_initialRows = dr_initialRows r,
      vp_initialExpanded = dr_initialExpanded r, vp_truncated = (dr_truncated r = Some True)\<rparr>"

text \<open>\<open>null\<close> is the parsed value that \<open>parsed != null\<close> rejects.\<close>

definition tree_content :: "nat \<Rightarrow> DecodeResult \<Rightarrow> PaneContent option" where
  "tree_content ref r =
     (if dr_kind r = ck_json \<and> dr_parsed r \<noteq> None \<and> dr_parsed r \<noteq> Some JNull then
        Some (show_tree (viewer_props ref (the (dr_parsed r)) None r) ''JSON viewer'')
      else if dr_kind r = ck_ndjson \<and> dr_documents r \<noteq> None then
        Some (show_tree (viewer_props ref JNull (dr_documents r) r) ''NDJSON viewer'')
      else None)"

definition body_content :: "nat \<Rightarrow> DecodeResult \<Rightarrow> ViewMode \<Rightarrow> PaneContent" where
  "body_content ref r mode =
     (if mode = vm_hex then show_hex (dr_bytes r)
      else if mode = vm_tree \<and> tree_content ref r \<noteq> None then the (tree_content ref r)
      else if mode = vm_rendered then
        (if dr_kind r = ck_image then show_image (dr_bytes r) (dr_mediaType r) else summary_of r)
      else if mode = vm_summary then summary_of r
      else case dr_lines r of
        Some lines \<Rightarrow>
          if mode = vm_formatted then show_markup lines (if dr_kind r = ck_html then ''HTML viewer'' else ''XML viewer'')
          else show_text (dr_rawText r)
      | None \<Rightarrow> show_text (dr_rawText r))"

section \<open>Copying\<close>

text \<open>What the copy button gets: text, an image, or no button.\<close>

datatype CopySource = copy_text "string option" | copy_image "byte list" string

definition copyText :: "DecodeResult \<Rightarrow> ViewMode \<Rightarrow> string option" where
  "copyText r resolved =
     (if resolved = vm_hex then Some (hexDumpText (dr_bytes r))
      else if resolved = vm_tree then dr_text r
      else if resolved = vm_formatted then Some (case dr_text r of Some t \<Rightarrow> t | None \<Rightarrow> dr_rawText r)
      else Some (dr_rawText r))"

definition copy_source :: "DecodeResult \<Rightarrow> ViewMode \<Rightarrow> CopySource option" where
  "copy_source r resolved =
     (if resolved = vm_hex then Some (copy_text (copyText r resolved))
      else if dr_kind r = ck_image then Some (copy_image (dr_bytes r) (dr_mediaType r))
      else if dr_kind r = ck_binary then None
      else Some (copy_text (copyText r resolved)))"

text \<open>The button: a click starts a write to the clipboard, which succeeds or fails.\<close>

record CopyButton =
  cb_hasCopied :: bool
  cb_timer :: bool
  cb_toasts :: "(ToastKind \<times> string) list"

definition copyable :: "CopySource \<Rightarrow> bool" where
  "copyable src = (case src of copy_text v \<Rightarrow> v \<noteq> None | copy_image b t \<Rightarrow> True)"

definition notifyCopied :: "ToastKind \<times> string" where
  "notifyCopied = (toast_success, ''Copied to clipboard'')"

definition notifyCopyFailed :: "ToastKind \<times> string" where
  "notifyCopyFailed = (toast_error, ''Couldn'' @ [CHR 0x27] @ ''t copy to clipboard'')"

text \<open>The copy of the JSON viewer: the toast of a write that succeeded or failed.\<close>

definition copyToClipboard :: "bool \<Rightarrow> ToastKind \<times> string" where
  "copyToClipboard ok = (if ok then notifyCopied else notifyCopyFailed)"

text \<open>The effect starts the timer when \<open>hasCopied\<close> turns true.\<close>

definition copy_settled :: "CopySource \<Rightarrow> bool \<Rightarrow> CopyButton \<Rightarrow> CopyButton" where
  "copy_settled src ok s =
     (if \<not> copyable src then s
      else if ok then s\<lparr>cb_hasCopied := True, cb_timer := True, cb_toasts := cb_toasts s @ [notifyCopied]\<rparr>
      else s\<lparr>cb_toasts := cb_toasts s @ [notifyCopyFailed]\<rparr>)"

definition copy_timeout :: "CopyButton \<Rightarrow> CopyButton" where
  "copy_timeout s = (if cb_timer s then s\<lparr>cb_hasCopied := False, cb_timer := False\<rparr> else s)"

definition CopyButton_view :: "CopySource \<Rightarrow> CopyButton \<Rightarrow> 'h \<Rightarrow> 'h dom" where
  "CopyButton_view src s handleCopy =
     El ''Tooltip'' [] []
       [El ''Button'' (attr_if (\<not> copyable src) ''disabled'' (lat ''true'')) [(''click'', handleCopy)]
          [El ''span'' [] [] [Txt (lat (if cb_hasCopied s then ''Copied'' else ''Copy''))],
           El (if cb_hasCopied s then ''Check'' else ''Copy'') [] [] []],
        El ''TooltipContent'' [] [] [Txt (lat (if cb_hasCopied s then ''Copied'' else ''Copy to clipboard''))]]"

section \<open>Images\<close>

text \<open>Blob URLs are numbers; \<open>im_live\<close> are those not revoked.\<close>

record ImageView =
  im_blobUrl :: "nat option"
  im_live :: "nat list"
  im_next :: nat

definition image_effect :: "ImageView \<Rightarrow> ImageView" where
  "image_effect s = s\<lparr>im_blobUrl := Some (im_next s), im_live := im_live s @ [im_next s], im_next := im_next s + 1\<rparr>"

definition image_cleanup :: "ImageView \<Rightarrow> ImageView" where
  "image_cleanup s = (case im_blobUrl s of
     None \<Rightarrow> s
   | Some url \<Rightarrow> s\<lparr>im_blobUrl := None, im_live := removeAll url (im_live s)\<rparr>)"

definition ImageView_view :: "ImageView \<Rightarrow> 'h dom option" where
  "ImageView_view s = (case im_blobUrl s of
     None \<Rightarrow> None
   | Some url \<Rightarrow> Some (El ''div'' [] []
       [El ''img'' [(''src'', lat (''blob:'' @ showNat url)), (''alt'', lat ''Image view'')] [] []]))"

section \<open>Downloads\<close>

text \<open>
  The page as \<open>triggerDownload\<close> uses it: the blob of every object URL that is not revoked, and the
  files the browser was asked to save. A click saves the blob its URL names.
\<close>

record Page =
  pg_blobs :: "nat \<rightharpoonup> byte list \<times> string"
  pg_next :: nat
  pg_saved :: "(glyph list \<times> byte list \<times> string) list"

definition createObjectURL :: "byte list \<times> string \<Rightarrow> Page \<Rightarrow> nat \<times> Page" where
  "createObjectURL blob p = (pg_next p, p\<lparr>pg_blobs := (pg_blobs p)(pg_next p \<mapsto> blob), pg_next := pg_next p + 1\<rparr>)"

definition click_anchor :: "nat \<Rightarrow> glyph list \<Rightarrow> Page \<Rightarrow> Page" where
  "click_anchor href download p = (case pg_blobs p href of
     None \<Rightarrow> p
   | Some blob \<Rightarrow> p\<lparr>pg_saved := pg_saved p @ [(download, blob)]\<rparr>)"

definition revokeObjectURL :: "nat \<Rightarrow> Page \<Rightarrow> Page" where
  "revokeObjectURL url p = p\<lparr>pg_blobs := (pg_blobs p)(url := None)\<rparr>"

definition triggerDownload :: "byte list \<Rightarrow> glyph list \<Rightarrow> string \<Rightarrow> Page \<Rightarrow> Page" where
  "triggerDownload bytes filename mediaType p =
     (let (url, p1) = createObjectURL (bytes, mediaType) p
      in revokeObjectURL url (click_anchor url filename p1))"

lemma triggerDownload_saves:
  assumes "pg_blobs p (pg_next p) = None"
  shows "pg_saved (triggerDownload bytes filename mediaType p) = pg_saved p @ [(filename, bytes, mediaType)]
    \<and> pg_blobs (triggerDownload bytes filename mediaType p) = pg_blobs p"
  using assms by (auto simp: triggerDownload_def createObjectURL_def click_anchor_def revokeObjectURL_def Let_def)

section \<open>The pane\<close>

datatype body_action =
    ba_mode ViewMode
  | ba_download "byte list" string string
  | ba_copy CopySource

definition StreamErrorBanner :: "string \<Rightarrow> 'h dom" where
  "StreamErrorBanner message =
     El ''div'' [(''data-testid'', lat ''stream-error-banner'')] []
       [El ''AlertTriangle'' [] [] [], El ''span'' [] [] [Txt (lat message)]]"

definition ErrorPanel :: "string \<Rightarrow> string \<Rightarrow> string option \<Rightarrow> 'h dom" where
  "ErrorPanel panelTitle message detail =
     El ''div'' [(''role'', lat ''alert'')] []
       ([El ''AlertTriangle'' [] [] [], El ''span'' [] [] [Txt (lat panelTitle)], El ''span'' [] [] [Txt (lat message)]]
        @ (case detail of None \<Rightarrow> [] | Some d \<Rightarrow> [El ''span'' [] [] [Txt (lat d)]]))"

definition LifecycleState :: "bool \<Rightarrow> glyph list \<Rightarrow> 'h dom" where
  "LifecycleState busy children =
     El ''div'' ((''role'', lat ''status'') # attr_if busy ''aria-busy'' (lat ''true'')) []
       [El ''EmptyState'' [] [] [Txt children]]"

definition BodySkeleton :: "'h dom" where
  "BodySkeleton =
     El ''div'' [(''role'', lat ''status''), (''aria-busy'', lat ''true''), (''data-testid'', lat ''body-skeleton'')] []
       (El ''span'' [] [] [Txt (lat ''Loading'' @ [ellipsis])]
        # map (\<lambda>width. El ''Skeleton'' [(''class'', lat width)] [] []) [''w-3/4'', ''w-1/2'', ''w-5/6'', ''w-2/3'', ''w-4/5''])"

definition encoding_suffix :: "SizeView \<Rightarrow> string" where
  "encoding_suffix view = (case sv_encoding view of
     None \<Rightarrow> [] | Some e \<Rightarrow> if e = [] then [] else '' ('' @ e @ '')'')"

definition size_label :: "SizeView \<Rightarrow> (string \<times> glyph list) list \<Rightarrow> 'h dom" where
  "size_label view attrs =
     El ''SimpleTooltip'' (opt_attr ''content'' (map_option lat (sv_tooltip view))) []
       [El ''span'' attrs [] [Txt (sizeText view @ lat (encoding_suffix view))]]"

definition BodySummary ::
    "string \<Rightarrow> nat \<Rightarrow> nat option \<Rightarrow> string option \<Rightarrow> 'h \<Rightarrow> 'h dom" where
  "BodySummary mediaType wireBytes decodedBytes contentEncoding onDownload =
     El ''div'' [(''data-testid'', lat ''body-summary'')] []
       [El ''span'' [] [] [Txt (lat mediaType)],
        size_label (buildSizeView (Some wireBytes) decodedBytes contentEncoding) [],
        El ''Button'' [] [(''click'', onDownload)] [El ''Download'' [] [] [], Txt (lat ''Download'')]]"

definition BodyModeSelector :: "ViewMode list \<Rightarrow> ViewMode \<Rightarrow> body_action dom list" where
  "BodyModeSelector modes current =
     (if modes = [] then []
      else [El ''ToggleGroup'' [(''value'', lat (MODE_LABELS current)), (''aria-label'', lat ''Body view mode'')]
              (map (\<lambda>m. (''change:'' @ MODE_LABELS m, ba_mode m)) modes)
              (map (\<lambda>m. El ''ToggleGroupItem'' [(''value'', lat (MODE_LABELS m))] [] [Txt (lat (MODE_LABELS m))]) modes)])"

text \<open>
  What the body area shows: its regions from top to bottom. \<open>render\<close> draws the content the pane
  chose.
\<close>

definition body_area ::
    "(PaneContent \<Rightarrow> 'h dom) \<Rightarrow> bool \<times> DecodeResult option \<Rightarrow> body_ref option \<Rightarrow> string option \<Rightarrow> bool \<Rightarrow>
     ViewMode option \<Rightarrow> 'h dom list" where
  "body_area render hook body errorMessage awaiting resolved =
     (let (loading, result) = hook;
          ended = (case body of Some (k, b) \<Rightarrow> bs_atEnd b | None \<Rightarrow> False);
          streaming = (case body of Some (k, b) \<Rightarrow> \<not> bs_atEnd b | None \<Rightarrow> False);
          (ref, wireBytes) = (case body of Some (k, b) \<Rightarrow> (k, bs_wireBytes b) | None \<Rightarrow> (0, 0));
          received = fmtBytes wireBytes
      in child_if loading [BodySkeleton]
         @ child_if (\<not> loading \<and> streaming \<and> errorMessage = None)
             [LifecycleState True (lat ''Streaming'' @ [ellipsis] @ lat ('' ('' @ received @ '' received)''))]
         @ (case errorMessage of
              None \<Rightarrow> []
            | Some e \<Rightarrow>
                child_if (\<not> loading \<and> streaming)
                  [ErrorPanel ''Response interrupted'' e (Some (received @ '' received before error''))]
                @ child_if (\<not> loading \<and> body = None) [ErrorPanel ''Error'' e None])
         @ child_if (\<not> loading \<and> body = None \<and> errorMessage = None)
             [LifecycleState awaiting (if awaiting then lat ''Awaiting response'' @ [ellipsis] else lat ''No body'')]
         @ child_if (\<not> loading \<and> ended \<and> result = None) [LifecycleState False (lat ''Could not decode body'')]
         @ (case (result, resolved) of
              (Some r, Some mode) \<Rightarrow> child_if (\<not> loading) [render (body_content ref r mode)]
            | _ \<Rightarrow> [])
         @ (case errorMessage of
              None \<Rightarrow> []
            | Some e \<Rightarrow> child_if (\<not> loading \<and> ended) [StreamErrorBanner e]))"

definition resolved_mode :: "ViewMode option \<Rightarrow> DecodeResult option \<Rightarrow> ViewMode option" where
  "resolved_mode viewMode result =
     map_option (\<lambda>r. resolveMode viewMode (dr_kind r) (dr_textAvailable r)) result"

definition body_header ::
    "string \<Rightarrow> string \<Rightarrow> CopyButton \<Rightarrow> DecodeResult option \<Rightarrow> ViewMode option \<Rightarrow> body_action dom" where
  "body_header title downloadFilename copied result viewMode =
     El ''div'' [(''data-testid'', lat ''body-pane-subhead'')] []
       (El ''span'' [] [] [Txt (lat title)]
        # (case result of
             None \<Rightarrow> []
           | Some r \<Rightarrow>
               let slug = mediaTypeSlug (dr_mediaType r);
                   mode = resolveMode viewMode (dr_kind r) (dr_textAvailable r)
               in [El ''SimpleTooltip'' (attr_if (slug \<noteq> dr_mediaType r) ''content'' (lat (dr_mediaType r))) []
                     [El ''span'' [(''data-testid'', lat ''body-media-type'')] [] [Txt (lat slug)]]]
                  @ BodyModeSelector (selectableModes (dr_kind r) (dr_textAvailable r)) mode
                  @ [size_label (buildSizeView (Some (dr_wireBytes r)) (dr_decodedBytes r) (dr_contentEncoding r))
                       [(''data-testid'', lat ''body-size'')],
                     El ''SimpleTooltip'' [(''content'', lat ''Download body'')] []
                       [El ''Button'' [(''aria-label'', lat ''Download body'')]
                          [(''click'', ba_download (dr_bytes r) downloadFilename (dr_mediaType r))] [El ''Download'' [] [] []]]]
                  @ (case copy_source r mode of
                       None \<Rightarrow> []
                     | Some src \<Rightarrow> [CopyButton_view src copied (ba_copy src)])))"

definition BodyPane ::
    "(PaneContent \<Rightarrow> body_action dom) \<Rightarrow> string \<Rightarrow> DecodeHook \<Rightarrow> string option \<Rightarrow> bool \<Rightarrow> ViewMode option \<Rightarrow> string \<Rightarrow>
     CopyButton \<Rightarrow> body_action dom" where
  "BodyPane render title h errorMessage awaiting viewMode downloadFilename copied =
     (let (loading, result) = hook_result h
      in El ''div'' [] []
           [body_header title downloadFilename copied result viewMode,
            El ''div'' [] []
              (body_area render (loading, result) (dh_body h) errorMessage awaiting
                 (resolved_mode viewMode result))])"


section \<open>The split\<close>

definition split_isSSE :: "Exchange \<Rightarrow> bool" where
  "split_isSSE x =
     (let ct = (case ex_responseBody x of
            None \<Rightarrow> []
          | Some b \<Rightarrow> (case bs_contentType b of None \<Rightarrow> [] | Some t \<Rightarrow> toLowerCase t))
      in startsWith ct ''text/event-stream'')"

definition split_header :: "ProxyHeaders option \<Rightarrow> string \<Rightarrow> string option" where
  "split_header headers name = (case headers of
     None \<Rightarrow> None
   | Some hs \<Rightarrow> map_option h_value (find (\<lambda>h. toLowerCase (h_name h) = name) hs))"

definition awaitingResponse :: "Exchange \<Rightarrow> bool" where
  "awaitingResponse x \<longleftrightarrow> ex_responseBody x = None \<and> ex_status x = None \<and> ex_error x = None"

definition body_contentType :: "BodyState option \<Rightarrow> string option" where
  "body_contentType b = (case b of None \<Rightarrow> None | Some x \<Rightarrow> bs_contentType x)"

definition requestFilename :: "(string \<Rightarrow> string option) \<Rightarrow> Exchange \<Rightarrow> glyph list" where
  "requestFilename getExtension x =
     deriveFilename getExtension (split_header (ex_requestHeaders x) ''content-disposition'') (ex_uri x)
       (body_contentType (ex_requestBody x))"

definition responseFilename :: "(string \<Rightarrow> string option) \<Rightarrow> Exchange \<Rightarrow> glyph list" where
  "responseFilename getExtension x =
     deriveFilename getExtension (split_header (ex_responseHeaders x) ''content-disposition'') (ex_uri x)
       (body_contentType (ex_responseBody x))"

text \<open>What the response side is: a chat stream, a plain stream, or a body pane.\<close>

datatype ResponsePane = rp_chat | rp_stream | rp_body "string option" bool "ViewMode option" "glyph list"

record BodySplit =
  sp_requestPct :: nat
  sp_responsePct :: nat
  sp_minPct :: nat
  sp_requestMode :: "ViewMode option"
  sp_requestFilename :: "glyph list"
  sp_response :: ResponsePane

definition body_split :: "(string \<Rightarrow> string option) \<Rightarrow> StoreState \<Rightarrow> Exchange \<Rightarrow> Protocol option \<Rightarrow> BodySplit" where
  "body_split getExtension s x protocol =
     (let requestPct = computeBodySplitPercent (ex_requestBody x)
      in \<lparr>sp_requestPct = requestPct, sp_responsePct = 100 - requestPct, sp_minPct = BODY_SPLIT_MIN_PCT,
          sp_requestMode = st_requestViewMode s, sp_requestFilename = requestFilename getExtension x,
          sp_response =
            (if split_isSSE x then (if protocol = Some Anthropic then rp_chat else rp_stream)
             else rp_body (map_option xe_message (ex_error x)) (awaitingResponse x) (st_responseViewMode s)
               (responseFilename getExtension x))\<rparr>)"

section \<open>Lemmas\<close>

lemma split_isSSE_eq: "split_isSSE x = isSSEExchange x"
  by (auto simp: split_isSSE_def isSSEExchange_def startsWith_def split: option.split)

lemma decodeBody_cached: "decodeBody E (b\<lparr>bs_decodedBytes := n\<rparr>) = decodeBody E b"
  by (simp add: decodeBody_def Decode.body_bytes_def Let_def cong: option.case_cong)

text \<open>
  Runs of the hook: \<open>heap\<close> is what a reference refers to, and a run delivers what decoding its
  body gives.
\<close>

inductive hook_reachable :: "'a decode_env_scheme \<Rightarrow> (nat \<Rightarrow> BodyState) \<Rightarrow> DecodeHook \<Rightarrow> bool" for E heap where
  hook_start: "hook_reachable E heap (hook_mount cacheTo (map_option (\<lambda>k. (k, heap k)) ref))"
| hook_next_body: "hook_reachable E heap h \<Longrightarrow>
    hook_reachable E heap (hook_render cacheTo (map_option (\<lambda>k. (k, heap k)) ref) h)"
| hook_outcome: "hook_reachable E heap h \<Longrightarrow> outcome = decodeBody E (heap k) \<Longrightarrow>
    map_option fst (dh_running h) = Some run \<longrightarrow> map_option (fst \<circ> snd) (dh_running h) = Some k \<Longrightarrow>
    hook_reachable E heap (fst (hook_settle run outcome h))"

definition hook_ok :: "'a decode_env_scheme \<Rightarrow> (nat \<Rightarrow> BodyState) \<Rightarrow> DecodeHook \<Rightarrow> bool" where
  "hook_ok E heap h \<longleftrightarrow>
     (\<forall>k b. dh_body h = Some (k, b) \<longrightarrow> b = heap k)
     \<and> (\<forall>run k b. dh_running h = Some (run, (k, b)) \<longrightarrow> dh_body h = Some (k, b))
     \<and> (\<forall>k out. dh_entry h = Some (k, out) \<longrightarrow> out = decodeBody E (heap k))
     \<and> (fst (hook_result h) \<longrightarrow> dh_running h \<noteq> None)"

lemma hook_ok_effect:
  assumes "\<forall>k b. dh_body h = Some (k, b) \<longrightarrow> b = heap k" "\<forall>k out. dh_entry h = Some (k, out) \<longrightarrow> out = decodeBody E (heap k)"
  shows "hook_ok E heap (hook_effect h)"
  using assms by (auto simp: hook_ok_def hook_effect_def hook_result_def split: option.splits prod.splits)

lemma hook_ok_render:
  assumes "hook_ok E heap h"
  shows "hook_ok E heap (hook_render cacheTo (map_option (\<lambda>k. (k, heap k)) ref) h)"
proof (cases "ref = map_option fst (dh_body h) \<and> cacheTo = dh_cacheTo h")
  case True
  then have "map_option (\<lambda>k. (k, heap k)) ref = dh_body h"
    using assms by (cases "dh_body h") (auto simp: hook_ok_def)
  then show ?thesis using assms True by (simp add: hook_render_def)
next
  case False
  then have "hook_render cacheTo (map_option (\<lambda>k. (k, heap k)) ref) h
      = hook_effect (h\<lparr>dh_body := map_option (\<lambda>k. (k, heap k)) ref, dh_cacheTo := cacheTo\<rparr>)"
    by (auto simp: hook_render_def option.map_comp comp_def option.map_ident Let_def)
  moreover have "\<forall>k out. dh_entry h = Some (k, out) \<longrightarrow> out = decodeBody E (heap k)"
    using assms unfolding hook_ok_def by blast
  then have "hook_ok E heap (hook_effect (h\<lparr>dh_body := map_option (\<lambda>k. (k, heap k)) ref, dh_cacheTo := cacheTo\<rparr>))"
    by (intro hook_ok_effect) auto
  ultimately show ?thesis by simp
qed

lemma hook_ok_settle:
  assumes "hook_ok E heap h" "map_option fst (dh_running h) = Some run \<longrightarrow> map_option (fst \<circ> snd) (dh_running h) = Some k"
  shows "hook_ok E heap (fst (hook_settle run (decodeBody E (heap k)) h))"
proof (cases "map_option fst (dh_running h) = Some run")
  case False
  then have "fst (hook_settle run (decodeBody E (heap k)) h) = h"
    by (auto simp: hook_settle_def split: option.split prod.split)
  then show ?thesis using assms(1) by simp
next
  case True
  then obtain b where r: "dh_running h = Some (run, (k, b))" using assms(2) by auto
  then have body: "dh_body h = Some (k, b)" "b = heap k" using assms(1) unfolding hook_ok_def by blast+
  have "fst (hook_settle run (decodeBody E (heap k)) h) = h\<lparr>dh_entry := Some (k, decodeBody E (heap k)), dh_running := None\<rparr>"
    using r by (simp add: hook_settle_def)
  then show ?thesis using body by (simp add: hook_ok_def hook_result_def)
qed

section \<open>Properties\<close>

text \<open>
  Property C13. Through any changes of the body and any order of outcomes, the result the hook
  returns is that of decoding the body it was given last; while it reports loading, a decode of
  that body is running.
\<close>

theorem hook_result_is_for_its_body:
  assumes "hook_reachable E heap h"
  shows "(\<forall>r. snd (hook_result h) = Some r \<longrightarrow> (\<exists>k b. dh_body h = Some (k, b) \<and> bs_atEnd b \<and> decodeBody E b = Some r))
    \<and> (fst (hook_result h) \<longrightarrow> (\<exists>run k b. dh_running h = Some (run, (k, b)) \<and> dh_body h = Some (k, b)))"
proof -
  from assms have "hook_ok E heap h"
  proof (induction rule: hook_reachable.induct)
    case (hook_start cacheTo ref)
    show ?case unfolding hook_mount_def by (rule hook_ok_effect) auto
  next
    case (hook_next_body h cacheTo ref)
    then show ?case by (simp add: hook_ok_render)
  next
    case (hook_outcome h outcome k run)
    then show ?case by (simp add: hook_ok_settle)
  qed
  then have body: "dh_body h = Some (k, b) \<Longrightarrow> b = heap k"
    and running: "dh_running h = Some (run, (k, b)) \<Longrightarrow> dh_body h = Some (k, b)"
    and entry: "dh_entry h = Some (k, out) \<Longrightarrow> out = decodeBody E (heap k)"
    and loading: "fst (hook_result h) \<Longrightarrow> dh_running h \<noteq> None" for run k b out
    unfolding hook_ok_def by blast+
  have "\<exists>k b. dh_body h = Some (k, b) \<and> bs_atEnd b \<and> dh_entry h = Some (k, Some r)"
    if "snd (hook_result h) = Some r" for r
    using that by (auto simp: hook_result_def split: option.splits prod.splits if_splits)
  then have "\<exists>k b. dh_body h = Some (k, b) \<and> bs_atEnd b \<and> decodeBody E b = Some r"
    if "snd (hook_result h) = Some r" for r
    using that body entry by metis
  moreover have "\<exists>run k b. dh_running h = Some (run, (k, b)) \<and> dh_body h = Some (k, b)" if "fst (hook_result h)"
    using loading [OF that] running by (metis option.exhaust prod.exhaust)
  ultimately show ?thesis by blast
qed

theorem hook_result_is_for_its_body_witness:
  "\<exists>run. dh_running (hook_mount (Some (4, DirResponse)) (Some (5, gzip_body))) = Some (run, (5, gzip_body))"
proof -
  have "hook_reachable plain_env (\<lambda>_. gzip_body) (hook_mount (Some (4, DirResponse)) (map_option (\<lambda>k. (k, gzip_body)) (Some 5)))"
    by (rule hook_start)
  from hook_result_is_for_its_body [OF this] show ?thesis
    by (auto simp: hook_mount_def hook_effect_def hook_result_def gzip_body_def)
qed

text \<open>
  The decoded size that the pane caches replaces the body by a new object, so that
  the hook goes back to loading and decodes the same body a second time before it shows
  anything; the second outcome is the same and is shown, and its size is cached already.
\<close>

theorem caching_decodes_twice:
  assumes "hook_result h = (True, None)" "dh_running h = Some (run, (k, b))" "dh_body h = Some (k, b)" "k' \<noteq> k"
    and "decodeBody E b = Some r" "dr_decodedBytes r = Some n" "bs_decodedBytes b \<noteq> Some n"
    and "st_exchanges s i = Some x" "ex_responseBody x = Some b" "dh_cacheTo h = Some (i, DirResponse)"
  shows "\<exists>h1 x' b'. hook_settle run (Some r) h = (h1, Some ((i, DirResponse), n))
    \<and> st_exchanges (setBodyDecodedBytes i DirResponse n s) i = Some x' \<and> ex_responseBody x' = Some b'
    \<and> hook_result (hook_render (Some (i, DirResponse)) (Some (k', b')) h1) = (True, None)
    \<and> decodeBody E b' = Some r \<and> setBodyDecodedBytes i DirResponse n (setBodyDecodedBytes i DirResponse n s)
         = setBodyDecodedBytes i DirResponse n s
    \<and> (\<exists>run'. hook_result (fst (hook_settle run' (Some r) (hook_render (Some (i, DirResponse)) (Some (k', b')) h1))) = (False, Some r))"
proof -
  let ?b' = "b\<lparr>bs_decodedBytes := Some n\<rparr>"
  let ?h1 = "h\<lparr>dh_entry := Some (k, Some r), dh_running := None\<rparr>"
  have ended: "bs_atEnd b" using assms(1,3) by (auto simp: hook_result_def split: if_splits)
  have settle: "hook_settle run (Some r) h = (?h1, Some ((i, DirResponse), n))" using assms(2,6,10) by (simp add: hook_settle_def)
  have wr: "setBodyDecodedBytes i DirResponse n s
      = s\<lparr>st_exchanges := (st_exchanges s)(i \<mapsto> x\<lparr>ex_responseBody := Some ?b'\<rparr>)\<rparr>"
    using assms(7,8,9) by (simp add: setBodyDecodedBytes_def Let_def)
  have render: "hook_render (Some (i, DirResponse)) (Some (k', ?b')) ?h1 =
      ?h1\<lparr>dh_body := Some (k', ?b'), dh_running := Some (dh_runs h, (k', ?b')), dh_runs := dh_runs h + 1\<rparr>"
    using assms(3,4,10) ended by (simp add: hook_render_def hook_effect_def)
  have loading: "hook_result (hook_render (Some (i, DirResponse)) (Some (k', ?b')) ?h1) = (True, None)"
    unfolding render using assms(4) ended by (simp add: hook_result_def)
  have shown: "hook_result (fst (hook_settle (dh_runs h) (Some r) (hook_render (Some (i, DirResponse)) (Some (k', ?b')) ?h1))) = (False, Some r)"
    unfolding render using ended by (simp add: hook_settle_def hook_result_def)
  have again: "setBodyDecodedBytes i DirResponse n (setBodyDecodedBytes i DirResponse n s) = setBodyDecodedBytes i DirResponse n s"
    unfolding wr by (simp add: setBodyDecodedBytes_def)
  have entry: "st_exchanges (setBodyDecodedBytes i DirResponse n s) i = Some (x\<lparr>ex_responseBody := Some ?b'\<rparr>)"
    by (simp add: wr)
  have "decodeBody E ?b' = Some r" using assms(5) by (simp add: decodeBody_cached)
  then show ?thesis using settle entry loading again shown
    by (intro exI [of _ ?h1] exI [of _ "x\<lparr>ex_responseBody := Some ?b'\<rparr>"] exI [of _ ?b'] conjI exI [of _ "dh_runs h"]) auto
qed

theorem caching_decodes_twice_witness:
  "\<exists>r h1 b'. decodeBody plain_env gzip_body = Some r \<and> dr_decodedBytes r = Some 2
     \<and> hook_settle 0 (Some r) (hook_mount (Some (4, DirResponse)) (Some (5, gzip_body))) = (h1, Some ((4, DirResponse), 2))
     \<and> hook_result (hook_render (Some (4, DirResponse)) (Some (6, b')) h1) = (True, None) \<and> decodeBody plain_env b' = Some r"
proof -
  have b: "Decode.body_bytes plain_env gzip_body = Some ([0x61, 0x21], Some 2)"
    by (simp add: Decode.body_bytes_def gzip_body_def empty_body_def TextEncoder_encode_def utf8_char_def octet_def
        concatenate_eq known_encoding_def decompress_def plain_env_def Let_def char_eval)
  obtain r where r: "decodeBody plain_env gzip_body = Some r"
    using classify_total by (fastforce simp: decodeBody_def b Let_def)
  then have d: "dr_decodedBytes r = Some 2" by (auto simp: decodeBody_def b Let_def same_body_def dest!: classify_same_body)
  let ?x = "(fresh_exchange 4 [])\<lparr>ex_responseBody := Some gzip_body\<rparr>"
  let ?s = "initial_store\<lparr>st_exchanges := [4 \<mapsto> ?x]\<rparr>"
  let ?h = "hook_mount (Some (4, DirResponse)) (Some (5, gzip_body))"
  have "hook_result ?h = (True, None)" "dh_running ?h = Some (0, (5, gzip_body))" "dh_body ?h = Some (5, gzip_body)"
    "bs_decodedBytes gzip_body \<noteq> Some 2" "st_exchanges ?s 4 = Some ?x" "ex_responseBody ?x = Some gzip_body"
    "dh_cacheTo ?h = Some (4, DirResponse)"
    by (simp_all add: hook_mount_def hook_effect_def hook_result_def gzip_body_def empty_body_def)
  from caching_decodes_twice [OF this(1-3) _ r d this(4-7), of 6] show ?thesis
    using r d by (auto intro!: exI [of _ r])
qed

text \<open>
  The body area always shows exactly one of its states, the skeleton, streaming,
  interrupted, error, awaiting or no body, undecodable, or the content, followed by the error
  banner when a complete body belongs to a failed exchange.
\<close>

theorem body_area_shows_one_state:
  "\<exists>main rest. body_area render (hook_result h) (dh_body h) errorMessage awaiting
       (resolved_mode viewMode (snd (hook_result h))) = main # rest
    \<and> rest = (case errorMessage of None \<Rightarrow> []
         | Some e \<Rightarrow> if \<not> fst (hook_result h) \<and> (\<exists>k b. dh_body h = Some (k, b) \<and> bs_atEnd b)
                     then [StreamErrorBanner e] else [])"
proof (cases "dh_body h")
  case None
  then show ?thesis
    by (cases errorMessage) (simp_all add: hook_result_def body_area_def resolved_mode_def)
next
  case (Some kb)
  obtain k b where kb: "kb = (k, b)" by (cases kb)
  show ?thesis
  proof (cases "bs_atEnd b")
    case False
    then show ?thesis using Some kb
      by (cases errorMessage) (simp_all add: hook_result_def body_area_def resolved_mode_def)
  next
    case True
    show ?thesis
    proof (cases "fst (hook_result h)")
      case True
      then have "hook_result h = (True, None)"
        using Some kb \<open>bs_atEnd b\<close> by (auto simp: hook_result_def split: option.splits prod.splits if_splits)
      then show ?thesis using Some kb \<open>bs_atEnd b\<close>
        by (cases errorMessage) (simp_all add: body_area_def resolved_mode_def)
    next
      case False
      then obtain out where out: "hook_result h = (False, out)" by (cases "hook_result h") auto
      then show ?thesis using Some kb \<open>bs_atEnd b\<close>
        by (cases errorMessage; cases out) (simp_all add: body_area_def resolved_mode_def)
    qed
  qed
qed

end
