(* ===== verification/Stream_Views.thy ===== *)
theory Stream_Views
  imports Transcript Chrome Body_Pane
begin

text \<open>
  The panes of an event stream: \<open>components/event-log.tsx\<close> (the virtualized event list),
  \<open>components/stream-view.tsx\<close> (with play and pause) and
  \<open>components/anthropic/chat-stream-view.tsx\<close> (events or transcript).

  A pane is a state machine: its exchange is replaced when data arrives, the user toggles, scrolls
  or jumps. The follow effect of \<open>hooks/useStreamFollow.ts\<close> runs after a step that changed its
  dependencies; \<open>height\<close> in a step is the height of the content the virtualizer lays out for what
  is then shown. \<open>BodySplit\<close> mounts a new pane for another exchange.

  Shown: a paused pane shows what it showed at the pause until it is resumed or the stream is over;
  a following pane stays at the end; an expanded event stays expanded when older events are
  evicted; a stream that ends while paused is shown whole but not scrolled to its end.
\<close>

section \<open>Event rows\<close>

definition EVENT_ROW_HEIGHT :: nat where
  "EVENT_ROW_HEIGHT = 28"

definition eventTypeClass :: "string \<Rightarrow> string" where
  "eventTypeClass type =
     (if type \<in> {''message_start'', ''content_block_start'', ''content_block_stop''} then ''text-sse-lifecycle''
      else if type = ''content_block_delta'' then ''text-ok''
      else if type = ''message_delta'' then ''text-secondary-foreground''
      else if type = ''message_stop'' then ''text-muted-foreground''
      else if type = ''ping'' then ''text-muted-foreground/70''
      else ''text-secondary-foreground'')"

text \<open>\<open>flip\<close> is the handler of the expand button.\<close>

definition EventDataSummary :: "'h \<Rightarrow> string \<Rightarrow> bool \<Rightarrow> 'h dom" where
  "EventDataSummary flip data expanded =
     (if \<not> 80 < length data then El ''span'' [] [] [Txt (lat data)]
      else El ''div'' [] []
        [El ''span'' [(''class'', lat (if expanded then ''break-all'' else ''truncate''))] []
           [Txt (if expanded then lat data else lat (take 80 data) @ [ellipsis])],
         El ''Button'' [(''aria-label'', lat (if expanded then ''Collapse event data'' else ''Expand event data'')),
                        (''aria-expanded'', bool_text expanded)] [(''click'', flip)]
           [El ''ChevronDown'' [] [] []]])"

text \<open>
  The key of a row is the event's index in the stream; the state of a row, whether it is expanded,
  lives as long as a row with its key is mounted. The log is the list of the expanded keys.
\<close>

definition row_key :: "SSEEvent list \<Rightarrow> nat \<Rightarrow> nat" where
  "row_key events index = (if index < length events then ev_index (events ! index) else index)"

definition log_toggle :: "nat \<Rightarrow> nat list \<Rightarrow> nat list" where
  "log_toggle key expanded = (if key \<in> set expanded then removeAll key expanded else expanded @ [key])"

text \<open>A render with other events or another window of virtual items unmounts the rows that are gone.\<close>

definition log_render :: "SSEEvent list \<Rightarrow> nat list \<Rightarrow> nat list \<Rightarrow> nat list" where
  "log_render events items expanded = filter (\<lambda>k. k \<in> set (map (row_key events) items)) expanded"

definition event_row :: "(nat \<Rightarrow> 'h) \<Rightarrow> SSEEvent list \<Rightarrow> nat list \<Rightarrow> nat \<Rightarrow> 'h dom" where
  "event_row flip events expanded index =
     (let event = events ! index; key = row_key events index
      in El ''div'' [(''key'', lat (showNat key)), (''data-index'', lat (showNat index))] []
           [El ''div'' [(''data-kind'', lat (case classifyEvent event of Generic \<Rightarrow> ''generic''))] []
              [El ''span'' [(''class'', lat (eventTypeClass (ev_type event)))] [] [Txt (lat (ev_type event))],
               EventDataSummary (flip key) (ev_data event) (key \<in> set expanded)]])"

definition EventLog :: "(nat \<Rightarrow> 'h) \<Rightarrow> SSEEvent list \<Rightarrow> nat list \<Rightarrow> nat list \<Rightarrow> 'h dom" where
  "EventLog flip events items expanded =
     (if length events = 0 then El ''div'' [] [] [Txt (lat ''No events yet'')]
      else El ''div'' [] [] (map (event_row flip events expanded) items))"

section \<open>What a pane reads from its exchange\<close>

definition stream_atEnd :: "Exchange \<Rightarrow> bool" where
  "stream_atEnd x = (case ex_responseBody x of None \<Rightarrow> True | Some b \<Rightarrow> bs_atEnd b)"

definition stream_events :: "Exchange \<Rightarrow> SSEEvent list" where
  "stream_events x = (case ex_responseBody x of
     None \<Rightarrow> []
   | Some b \<Rightarrow> (case bs_sseState b of None \<Rightarrow> [] | Some s \<Rightarrow> ss_events s))"

definition stream_state :: "Exchange \<Rightarrow> bool \<Rightarrow> StreamState" where
  "stream_state x following = deriveStreamState (stream_atEnd x) following (map_option xe_direction (ex_error x))"

definition is_terminal :: "StreamState \<Rightarrow> bool" where
  "is_terminal s \<longleftrightarrow> s = stream_complete \<or> s = stream_disconnected"

section \<open>\<open>StreamView\<close>\<close>

record StreamPane =
  vw_exchange :: Exchange
  vw_frozen :: "SSEEvent list option"
  vw_follow :: FollowState

definition vw_derived :: "StreamPane \<Rightarrow> StreamState" where
  "vw_derived v = stream_state (vw_exchange v) (isFollowing (vw_follow v))"

definition vw_terminal :: "StreamPane \<Rightarrow> bool" where
  "vw_terminal v = is_terminal (vw_derived v)"

definition vw_paused :: "StreamPane \<Rightarrow> bool" where
  "vw_paused v \<longleftrightarrow> vw_frozen v \<noteq> None \<and> \<not> vw_terminal v"

definition shownEvents :: "StreamPane \<Rightarrow> SSEEvent list" where
  "shownEvents v = (case vw_frozen v of
     Some frozen \<Rightarrow> if vw_paused v then frozen else stream_events (vw_exchange v)
   | None \<Rightarrow> stream_events (vw_exchange v))"

definition liveState :: "StreamPane \<Rightarrow> StreamState" where
  "liveState v = (if vw_paused v then stream_paused else vw_derived v)"

definition playing :: "StreamPane \<Rightarrow> bool" where
  "playing v \<longleftrightarrow> vw_frozen v = None"

definition showJump :: "StreamPane \<Rightarrow> bool" where
  "showJump v \<longleftrightarrow> vw_frozen v = None \<and> vw_derived v = stream_paused"

definition followLen :: "StreamPane \<Rightarrow> nat" where
  "followLen v = length (case vw_frozen v of Some frozen \<Rightarrow> frozen | None \<Rightarrow> stream_events (vw_exchange v))"

definition togglePlay :: "StreamPane \<Rightarrow> StreamPane" where
  "togglePlay v = v\<lparr>vw_frozen := (case vw_frozen v of Some f \<Rightarrow> None | None \<Rightarrow> Some (stream_events (vw_exchange v)))\<rparr>"

datatype stream_action = sa_toggle | sa_jump | sa_scroll | sa_expand nat | sa_mode string

definition stream_dom :: "nat list \<Rightarrow> nat list \<Rightarrow> StreamPane \<Rightarrow> stream_action dom" where
  "stream_dom items expanded v =
     El ''div'' [] []
       [El ''div'' [] []
          (LiveIndicator (liveState v)
           # child_if (\<not> vw_terminal v)
               [El ''Button'' [(''aria-label'', lat (if playing v then ''Pause stream'' else ''Resume stream''))]
                  [(''click'', sa_toggle)] [El (if playing v then ''Pause'' else ''Play'') [] [] []]]),
        El ''div'' [] []
          (El ''div'' [(''data-testid'', lat ''stream-scroll'')] [(''scroll'', sa_scroll)]
             [EventLog sa_expand (shownEvents v) items expanded]
           # (case ex_error (vw_exchange v) of None \<Rightarrow> [] | Some e \<Rightarrow> [StreamErrorBanner (xe_message e)])
           @ child_if (showJump v) [El ''Button'' [] [(''click'', sa_jump)] [Txt (lat ''Jump to latest'')]]
           @ [El ''div'' [(''role'', lat ''status''), (''aria-live'', lat ''polite'')] []
                [Txt (lat (snd (snd (INDICATOR_CONFIG (liveState v))))), Txt (lat '', ''),
                 Txt (lat (showNat (length (shownEvents v)))), Txt (lat '' events'')]])]"

section \<open>Following\<close>

text \<open>
  The layout after a render: the content has a new height and the browser keeps the position
  within range. The effect follows when its dependencies changed.
\<close>

definition lay_out :: "int \<Rightarrow> FollowState \<Rightarrow> FollowState" where
  "lay_out height f = f\<lparr>scroll_box := set_scrollTop (scrollTop (scroll_box f)) ((scroll_box f)\<lparr>scrollHeight := height\<rparr>)\<rparr>"

definition follow_effect :: "FollowState \<Rightarrow> FollowState" where
  "follow_effect f =
     (if isFollowing f then f\<lparr>scroll_box := set_scrollTop (scrollHeight (scroll_box f)) (scroll_box f)\<rparr> else f)"

definition follow_render :: "nat \<Rightarrow> nat \<Rightarrow> int \<Rightarrow> FollowState \<Rightarrow> FollowState" where
  "follow_render old_len new_len height f =
     (if old_len \<noteq> new_len then follow_effect (lay_out height f) else lay_out height f)"

text \<open>The user scrolls to a position: the handler reads it, and turning following on runs the effect.\<close>

definition follow_scroll :: "int \<Rightarrow> FollowState \<Rightarrow> FollowState" where
  "follow_scroll y f =
     (let f' = handleScroll (f\<lparr>scroll_box := set_scrollTop y (scroll_box f)\<rparr>)
      in if isFollowing f' \<and> \<not> isFollowing f then follow_effect f' else f')"

datatype stream_event =
    se_exchange Exchange int
  | se_toggle int
  | se_scroll int
  | se_jump

definition stream_mount :: "Exchange \<Rightarrow> FollowState \<Rightarrow> StreamPane" where
  "stream_mount x f = \<lparr>vw_exchange = x, vw_frozen = None, vw_follow = follow_effect (f\<lparr>isFollowing := True\<rparr>)\<rparr>"

fun stream_step :: "stream_event \<Rightarrow> StreamPane \<Rightarrow> StreamPane" where
  "stream_step (se_exchange x height) v =
     (let v' = v\<lparr>vw_exchange := x\<rparr>
      in v'\<lparr>vw_follow := follow_render (followLen v) (followLen v') height (vw_follow v)\<rparr>)"
| "stream_step (se_toggle height) v =
     (if vw_terminal v then v
      else let v' = togglePlay v
        in v'\<lparr>vw_follow := follow_render (followLen v) (followLen v') height (vw_follow v)\<rparr>)"
| "stream_step (se_scroll y) v = v\<lparr>vw_follow := follow_scroll y (vw_follow v)\<rparr>"
| "stream_step se_jump v = (if showJump v then v\<lparr>vw_follow := jumpToLatest (vw_follow v)\<rparr> else v)"

definition stream_run :: "stream_event list \<Rightarrow> StreamPane \<Rightarrow> StreamPane" where
  "stream_run es v = fold stream_step es v"

section \<open>\<open>ChatStreamView\<close>\<close>

datatype ChatMode = chat_events | chat_transcript

record ChatPane =
  ch_exchange :: Exchange
  ch_mode :: ChatMode
  ch_follow :: FollowState

definition chat_mount :: "Exchange \<Rightarrow> FollowState \<Rightarrow> ChatPane" where
  "chat_mount x f = \<lparr>ch_exchange = x, ch_mode = chat_events, ch_follow = follow_effect (f\<lparr>isFollowing := True\<rparr>)\<rparr>"

definition chat_state :: "ChatPane \<Rightarrow> StreamState" where
  "chat_state c = stream_state (ch_exchange c) (isFollowing (ch_follow c))"

text \<open>The value of the toggle group: empty when the pressed item is pressed again, which is ignored.\<close>

definition chat_select :: "ChatMode option \<Rightarrow> ChatPane \<Rightarrow> ChatPane" where
  "chat_select value c = (case value of None \<Rightarrow> c | Some m \<Rightarrow> c\<lparr>ch_mode := m\<rparr>)"

definition mode_value :: "ChatMode \<Rightarrow> string" where
  "mode_value m = (case m of chat_events \<Rightarrow> ''events'' | chat_transcript \<Rightarrow> ''transcript'')"

datatype chat_event =
    ce_exchange Exchange int
  | ce_mode "ChatMode option" int
  | ce_scroll int
  | ce_jump

fun chat_step :: "chat_event \<Rightarrow> ChatPane \<Rightarrow> ChatPane" where
  "chat_step (ce_exchange x height) c =
     c\<lparr>ch_exchange := x,
       ch_follow := follow_render (length (stream_events (ch_exchange c))) (length (stream_events x)) height (ch_follow c)\<rparr>"
| "chat_step (ce_mode value height) c =
     (let c' = chat_select value c in c'\<lparr>ch_follow := lay_out height (ch_follow c')\<rparr>)"
| "chat_step (ce_scroll y) c = c\<lparr>ch_follow := follow_scroll y (ch_follow c)\<rparr>"
| "chat_step ce_jump c =
     (if chat_state c = stream_paused then c\<lparr>ch_follow := jumpToLatest (ch_follow c)\<rparr> else c)"

text \<open>The pane, or \<open>None\<close> when the transcript throws.\<close>

definition ChatStreamView :: "nat list \<Rightarrow> nat list \<Rightarrow> ChatPane \<Rightarrow> stream_action dom option" where
  "ChatStreamView items expanded c =
     (let events = stream_events (ch_exchange c); state = chat_state c
      in case (case ch_mode c of
                 chat_events \<Rightarrow> Some (EventLog sa_expand events items expanded)
               | chat_transcript \<Rightarrow> TranscriptView events (is_terminal state)) of
           None \<Rightarrow> None
         | Some content \<Rightarrow> Some (El ''div'' [] []
             [El ''div'' [] []
                [LiveIndicator state,
                 El ''ToggleGroup'' [(''value'', lat (mode_value (ch_mode c)))]
                   (map (\<lambda>m. (''change:'' @ mode_value m, sa_mode (mode_value m))) [chat_transcript, chat_events])
                   (map (\<lambda>m. El ''ToggleGroupItem'' [(''value'', lat (mode_value m))] [] [Txt (lat (mode_value m))])
                      [chat_transcript, chat_events])],
              El ''div'' [] []
                (El ''div'' [(''data-testid'', lat ''stream-scroll'')] [(''scroll'', sa_scroll)] [content]
                 # (case ex_error (ch_exchange c) of None \<Rightarrow> [] | Some e \<Rightarrow> [StreamErrorBanner (xe_message e)])
                 @ child_if (state = stream_paused) [El ''Button'' [] [(''click'', sa_jump)] [Txt (lat ''Jump to latest'')]])]))"


section \<open>Pausing\<close>

fun is_toggle :: "stream_event \<Rightarrow> bool" where
  "is_toggle (se_toggle h) = True"
| "is_toggle e = False"

lemma stream_run_Nil [simp]: "stream_run [] v = v"
  by (simp add: stream_run_def)

lemma stream_run_Cons: "stream_run (e # es) v = stream_run es (stream_step e v)"
  by (simp add: stream_run_def)

lemma stream_run_append: "stream_run (a @ b) v = stream_run b (stream_run a v)"
  by (simp add: stream_run_def)

lemma stream_step_frozen: "\<not> is_toggle e \<Longrightarrow> vw_frozen (stream_step e v) = vw_frozen v"
  by (cases e) (simp_all add: Let_def)

interpretation snapshot: framed_machine stream_step vw_frozen "\<lambda>e. \<not> is_toggle e"
  by unfold_locales (rule stream_step_frozen)

lemma stream_run_frozen: "list_all (\<lambda>e. \<not> is_toggle e) es \<Longrightarrow> vw_frozen (stream_run es v) = vw_frozen v"
  unfolding stream_run_def by (rule snapshot.part_run)

lemma togglePlay_frozen: "vw_frozen v = None \<Longrightarrow> vw_frozen (togglePlay v) = Some (stream_events (vw_exchange v))"
  by (simp add: togglePlay_def)

text \<open>
  Property C22. A paused stream: whatever data arrives and however the user scrolls, the pane shows
  the events that were there at the pause, says that it is paused and offers no jump, until it is
  resumed or the stream is over; then it shows all events and the state of the stream.
\<close>

theorem paused_snapshot_shown:
  assumes "\<not> vw_terminal v" "vw_frozen v = None" "list_all (\<lambda>e. \<not> is_toggle e) es"
  shows "let w = stream_run es (stream_step (se_toggle h) v) in
    shownEvents w = (if vw_terminal w then stream_events (vw_exchange w) else stream_events (vw_exchange v))
    \<and> liveState w = (if vw_terminal w then vw_derived w else stream_paused)
    \<and> \<not> showJump w \<and> \<not> playing w
    \<and> followLen w = length (stream_events (vw_exchange v))"
proof -
  let ?w = "stream_run es (stream_step (se_toggle h) v)"
  have "vw_frozen (stream_step (se_toggle h) v) = Some (stream_events (vw_exchange v))"
    using assms(1,2) by (simp add: togglePlay_frozen Let_def)
  then have "vw_frozen ?w = Some (stream_events (vw_exchange v))"
    using stream_run_frozen [OF assms(3)] by simp
  then show ?thesis
    by (simp add: Let_def shownEvents_def liveState_def showJump_def playing_def followLen_def vw_paused_def)
qed

definition open_stream :: "SSEEvent list \<Rightarrow> bool \<Rightarrow> Exchange" where
  "open_stream events ended = (fresh_exchange 4 [])\<lparr>ex_responseBody := Some (empty_body\<lparr>bs_atEnd := ended,
     bs_sseState := Some \<lparr>ss_events = events, ss_totalEventCount = length events, ss_parserRemainder = []\<rparr>\<rparr>)\<rparr>"

lemma open_stream_simps [simp]:
  "stream_events (open_stream events ended) = events"
  "stream_state (open_stream events ended) following =
     (if ended then stream_complete else if following then stream_live else stream_paused)"
  by (simp_all add: open_stream_def stream_events_def stream_state_def stream_atEnd_def deriveStreamState_def
      fresh_exchange_def Let_def)

definition small_box :: FollowState where
  "small_box = \<lparr>isFollowing = True, scroll_box = \<lparr>scrollTop = 0, scrollHeight = 28, clientHeight = 28\<rparr>\<rparr>"

theorem paused_snapshot_shown_witness:
  "let w = stream_run [se_exchange (open_stream [sample_start, sample_delta 1 ''Hi''] False) 28]
        (stream_step (se_toggle 28) (stream_mount (open_stream [sample_start] False) small_box))
   in shownEvents w = [sample_start] \<and> liveState w = stream_paused"
proof -
  let ?v = "stream_mount (open_stream [sample_start] False) small_box"
  let ?es = "[se_exchange (open_stream [sample_start, sample_delta 1 ''Hi''] False) 28]"
  have v: "\<not> vw_terminal ?v" "vw_frozen ?v = None" "list_all (\<lambda>e. \<not> is_toggle e) ?es"
    by (simp_all add: vw_terminal_def vw_derived_def stream_mount_def is_terminal_def)
  have "\<not> vw_terminal (stream_run ?es (stream_step (se_toggle 28) ?v))"
    using v(1) by (simp add: stream_run_Cons Let_def vw_terminal_def vw_derived_def is_terminal_def)
  with paused_snapshot_shown [OF v, of 28] show ?thesis
    unfolding Let_def by (simp add: stream_mount_def)
qed

section \<open>Following\<close>

definition from_end :: "ScrollBox \<Rightarrow> int" where
  "from_end b = scrollHeight b - scrollTop b - clientHeight b"

text \<open>
  Rows of \<open>px\<close> pixels: the height of a step is that of the events then shown. A stream that is
  over stays over.
\<close>

definition lingering :: "StreamPane \<Rightarrow> bool" where
  "lingering v \<longleftrightarrow> vw_frozen v \<noteq> None \<and> vw_terminal v"

definition content_height :: "nat \<Rightarrow> StreamPane \<Rightarrow> int" where
  "content_height px v = int (px * length (shownEvents v))"

inductive stream_reachable :: "nat \<Rightarrow> StreamPane \<Rightarrow> bool" for px where
  stream_start: "scrollHeight (scroll_box f) = content_height px (stream_mount x f) \<Longrightarrow> 0 \<le> clientHeight (scroll_box f)
    \<Longrightarrow> stream_reachable px (stream_mount x f)"
| stream_data: "stream_reachable px v \<Longrightarrow> height = content_height px (v\<lparr>vw_exchange := x\<rparr>)
    \<Longrightarrow> (vw_terminal v \<Longrightarrow> vw_terminal (v\<lparr>vw_exchange := x\<rparr>)) \<Longrightarrow> stream_reachable px (stream_step (se_exchange x height) v)"
| stream_toggled: "stream_reachable px v \<Longrightarrow> height = content_height px (togglePlay v)
    \<Longrightarrow> stream_reachable px (stream_step (se_toggle height) v)"
| stream_scrolled: "stream_reachable px v \<Longrightarrow> stream_reachable px (stream_step (se_scroll y) v)"
| stream_jumped: "stream_reachable px v \<Longrightarrow> stream_reachable px (stream_step se_jump v)"

definition follow_ok :: "StreamPane \<Rightarrow> bool" where
  "follow_ok v \<longleftrightarrow> (let b = scroll_box (vw_follow v) in
     0 \<le> clientHeight b \<and> 0 \<le> scrollTop b \<and> scrollTop b \<le> max 0 (scrollHeight b - clientHeight b)
     \<and> (isFollowing (vw_follow v) \<longrightarrow> from_end b < 40 \<or> lingering v))"

lemma set_scrollTop_simps [simp]:
  "scrollHeight (set_scrollTop y b) = scrollHeight b" "clientHeight (set_scrollTop y b) = clientHeight b"
  "scrollTop (set_scrollTop y b) = max 0 (min y (scrollHeight b - clientHeight b))"
  by (simp_all add: set_scrollTop_def)

lemma follow_render_box:
  "isFollowing (follow_render m n height f) = isFollowing f"
  "scrollHeight (scroll_box (follow_render m n height f)) = height"
  "clientHeight (scroll_box (follow_render m n height f)) = clientHeight (scroll_box f)"
  by (simp_all add: follow_render_def follow_effect_def lay_out_def)

lemma follow_scroll_box:
  "scrollHeight (scroll_box (follow_scroll y f)) = scrollHeight (scroll_box f)"
  "clientHeight (scroll_box (follow_scroll y f)) = clientHeight (scroll_box f)"
  by (simp_all add: follow_scroll_def follow_effect_def handleScroll_def Let_def)

lemma jumpToLatest_box:
  "scrollHeight (scroll_box (jumpToLatest f)) = scrollHeight (scroll_box f)"
  "clientHeight (scroll_box (jumpToLatest f)) = clientHeight (scroll_box f)"
  by (simp_all add: jumpToLatest_def Let_def)

text \<open>What is shown does not depend on the position.\<close>

lemma vw_terminal_follow: "vw_terminal (v\<lparr>vw_follow := f\<rparr>) = vw_terminal v"
  by (simp add: vw_terminal_def vw_derived_def stream_state_def deriveStreamState_def is_terminal_def Let_def)

lemma shownEvents_follow: "shownEvents (v\<lparr>vw_follow := f\<rparr>) = shownEvents v"
  by (simp add: shownEvents_def vw_paused_def vw_terminal_follow split: option.split)

lemma lingering_follow: "lingering (v\<lparr>vw_follow := f\<rparr>) = lingering v"
  by (simp add: lingering_def vw_terminal_follow)

lemma content_height_follow: "content_height px (v\<lparr>vw_follow := f\<rparr>) = content_height px v"
  by (simp add: content_height_def shownEvents_follow)

lemmas follow_facts = vw_terminal_follow shownEvents_follow lingering_follow content_height_follow

lemma height_of_followLen: "\<not> lingering v \<Longrightarrow> content_height px v = int (px * followLen v)"
  by (auto simp: content_height_def lingering_def shownEvents_def vw_paused_def followLen_def split: option.splits)


lemma follow_ok_render:
  assumes "follow_ok v" "vw_follow v' = vw_follow v" "lingering v \<Longrightarrow> lingering v'"
    and "scrollHeight (scroll_box (vw_follow v)) = content_height px v" "height = content_height px v'"
  shows "follow_ok (v'\<lparr>vw_follow := follow_render (followLen v) (followLen v') height (vw_follow v)\<rparr>)"
proof (cases "followLen v = followLen v'")
  case True
  show ?thesis
  proof (cases "lingering v'")
    case True
    then show ?thesis using assms(1) \<open>followLen v = followLen v'\<close>
      by (simp add: follow_ok_def follow_facts follow_render_def lay_out_def Let_def)
  next
    case False
    then have "height = scrollHeight (scroll_box (vw_follow v))"
      using assms(3-5) height_of_followLen [of v px] height_of_followLen [of v' px] True by (cases "lingering v") simp_all
    then show ?thesis using assms(1,3) False True
      by (auto simp: follow_ok_def follow_facts follow_render_def lay_out_def Let_def from_end_def)
  qed
next
  case False
  then show ?thesis using assms(1)
    by (auto simp: follow_ok_def follow_facts follow_render_def follow_effect_def lay_out_def Let_def from_end_def)
qed

lemma follow_ok_scroll: "follow_ok v \<Longrightarrow> follow_ok (v\<lparr>vw_follow := follow_scroll y (vw_follow v)\<rparr>)"
  by (auto simp: follow_ok_def follow_facts follow_scroll_def follow_effect_def handleScroll_def Let_def from_end_def)

lemma follow_ok_jump: "follow_ok v \<Longrightarrow> follow_ok (v\<lparr>vw_follow := jumpToLatest (vw_follow v)\<rparr>)"
  by (auto simp: follow_ok_def follow_facts jumpToLatest_def Let_def from_end_def)

lemma follow_invariant:
  "stream_reachable px v \<Longrightarrow> follow_ok v \<and> scrollHeight (scroll_box (vw_follow v)) = content_height px v"
proof (induction rule: stream_reachable.induct)
  case (stream_start f x)
  then show ?case
    by (auto simp: stream_mount_def follow_ok_def follow_effect_def from_end_def Let_def content_height_def shownEvents_def)
next
  case (stream_data v height x)
  let ?v' = "v\<lparr>vw_exchange := x\<rparr>"
  have "lingering v \<Longrightarrow> lingering ?v'" using stream_data(3) by (simp add: lingering_def)
  then have "follow_ok (?v'\<lparr>vw_follow := follow_render (followLen v) (followLen ?v') height (vw_follow v)\<rparr>)"
    by (intro follow_ok_render) (use stream_data in simp_all)
  then show ?case using stream_data(2)
    by (simp add: Let_def follow_render_box content_height_follow)
next
  case (stream_toggled v height)
  show ?case
  proof (cases "vw_terminal v")
    case True
    then show ?thesis using stream_toggled.IH by simp
  next
    case False
    have "vw_follow (togglePlay v) = vw_follow v" by (simp add: togglePlay_def)
    then have "follow_ok ((togglePlay v)\<lparr>vw_follow := follow_render (followLen v) (followLen (togglePlay v)) height (vw_follow v)\<rparr>)"
      by (intro follow_ok_render) (use stream_toggled False in \<open>simp_all add: lingering_def\<close>)
    then show ?thesis using stream_toggled(2) False
      by (simp add: Let_def follow_render_box content_height_follow)
  qed
next
  case (stream_scrolled v y)
  then show ?case by (simp add: follow_ok_scroll follow_scroll_box content_height_follow)
next
  case (stream_jumped v)
  then show ?case by (simp add: follow_ok_jump jumpToLatest_box content_height_follow)
qed

text \<open>
  Property C21. With rows of equal height, a pane that follows its stream is never 40 pixels or more
  away from the end, over any sequence of arriving data, pauses, resumes, scrolls and jumps, as
  long as the stream did not end while it was paused.
\<close>

theorem following_stays_at_end:
  assumes "stream_reachable px v" "isFollowing (vw_follow v)" "\<not> (vw_frozen v \<noteq> None \<and> vw_terminal v)"
  shows "from_end (scroll_box (vw_follow v)) < 40"
  using follow_invariant [OF assms(1)] assms(2,3) by (auto simp: follow_ok_def lingering_def Let_def)

lemma small_start: "stream_reachable 28 (stream_mount (open_stream [sample_start] False) small_box)"
  by (rule stream_start) (simp_all add: content_height_def shownEvents_def stream_mount_def small_box_def)

theorem following_stays_at_end_witness:
  "from_end (scroll_box (vw_follow (stream_step (se_exchange (open_stream [sample_start, sample_delta 1 ''Hi''] False) 56)
     (stream_mount (open_stream [sample_start] False) small_box)))) < 40"
proof -
  let ?v = "stream_mount (open_stream [sample_start] False) small_box"
  let ?w = "stream_step (se_exchange (open_stream [sample_start, sample_delta 1 ''Hi''] False) 56) ?v"
  have "stream_reachable 28 ?w"
    by (rule stream_data [OF small_start])
       (simp_all add: content_height_def shownEvents_def stream_mount_def vw_terminal_def vw_derived_def is_terminal_def)
  moreover have "isFollowing (vw_follow ?w)" "vw_frozen ?w = None"
    by (simp_all add: Let_def follow_render_box stream_mount_def follow_effect_def small_box_def)
  ultimately show ?thesis using following_stays_at_end [of 28 ?w] by simp
qed

text \<open>
  A stream that ends while it is paused: the pane goes over to all events, but its
  position stays where it was at the pause although it still follows, and neither a jump nor a
  resume is offered.
\<close>

theorem ended_while_paused_not_at_end:
  assumes "vw_paused v" "vw_frozen v = Some frozen" "isFollowing (vw_follow v)" "follow_ok v"
    and "scrollHeight (scroll_box (vw_follow v)) = content_height px v"
    and "vw_terminal (v\<lparr>vw_exchange := x\<rparr>)" "length frozen \<le> length (stream_events x)"
    and "clientHeight (scroll_box (vw_follow v)) \<le> content_height px v"
  shows "let w = stream_step (se_exchange x (int (px * length (stream_events x)))) v in
    shownEvents w = stream_events x
    \<and> scrollTop (scroll_box (vw_follow w)) = scrollTop (scroll_box (vw_follow v))
    \<and> from_end (scroll_box (vw_follow w)) =
        from_end (scroll_box (vw_follow v)) + int (px * (length (stream_events x) - length frozen))
    \<and> isFollowing (vw_follow w) \<and> \<not> showJump w \<and> vw_terminal w"
proof -
  let ?v' = "v\<lparr>vw_exchange := x\<rparr>"
  have len: "followLen ?v' = followLen v" by (simp add: followLen_def assms(2))
  have "shownEvents v = frozen" using assms(1,2) by (simp add: shownEvents_def)
  then have height: "scrollHeight (scroll_box (vw_follow v)) = int (px * length frozen)"
    using assms(5) by (simp add: content_height_def)
  have grown: "int (px * length frozen) \<le> int (px * length (stream_events x))"
    using assms(7) by (simp add: mult_left_mono)
  have diff: "int px * int (length (stream_events x) - length frozen) =
      int px * int (length (stream_events x)) - int px * int (length frozen)"
    using assms(7) by (simp only: of_nat_diff right_diff_distrib)
  have top: "0 \<le> scrollTop (scroll_box (vw_follow v))"
    "scrollTop (scroll_box (vw_follow v)) \<le> int (px * length frozen) - clientHeight (scroll_box (vw_follow v))"
    using assms(4,5,8) height by (auto simp: follow_ok_def Let_def)
  have "shownEvents ?v' = stream_events x"
    using assms(2,6) by (simp add: shownEvents_def vw_paused_def)
  then show ?thesis using assms(2,3,6) top grown
    by (simp add: Let_def len follow_render_def lay_out_def follow_facts showJump_def from_end_def height diff)
qed

theorem ended_while_paused_not_at_end_witness:
  "let v = stream_step (se_toggle 28) (stream_mount (open_stream [sample_start] False) small_box);
       w = stream_step (se_exchange (open_stream [sample_start, sample_delta 1 ''Hi'', sample_delta 2 ''!''] True) 84) v
   in from_end (scroll_box (vw_follow w)) = 56 \<and> \<not> showJump w"
proof -
  let ?v = "stream_step (se_toggle 28) (stream_mount (open_stream [sample_start] False) small_box)"
  let ?x = "open_stream [sample_start, sample_delta 1 ''Hi'', sample_delta 2 ''!''] True"
  have running: "\<not> vw_terminal (stream_mount (open_stream [sample_start] False) small_box)"
    by (simp add: vw_terminal_def vw_derived_def stream_mount_def is_terminal_def)
  have "stream_reachable 28 ?v"
    by (rule stream_toggled [OF small_start])
       (simp add: content_height_def shownEvents_def togglePlay_def stream_mount_def vw_paused_def)
  note inv = follow_invariant [OF this]
  have v: "vw_frozen ?v = Some [sample_start]" "isFollowing (vw_follow ?v)" "vw_exchange ?v = open_stream [sample_start] False"
    "clientHeight (scroll_box (vw_follow ?v)) = 28"
    using running by (simp_all add: Let_def togglePlay_def stream_mount_def follow_render_box follow_effect_def small_box_def)
  have paused: "vw_paused ?v"
    using v by (simp add: vw_paused_def vw_terminal_def vw_derived_def is_terminal_def)
  have h: "content_height 28 ?v = 28" using paused v(1) by (simp add: content_height_def shownEvents_def)
  have at_end: "from_end (scroll_box (vw_follow ?v)) = 0"
    using inv h v(2,4) paused by (auto simp: follow_ok_def from_end_def Let_def)
  have ended: "vw_terminal (?v\<lparr>vw_exchange := ?x\<rparr>)"
    by (simp add: vw_terminal_def vw_derived_def is_terminal_def)
  have "length [sample_start] \<le> length (stream_events ?x)" "clientHeight (scroll_box (vw_follow ?v)) \<le> content_height 28 ?v"
    using h v(4) by simp_all
  from ended_while_paused_not_at_end [OF paused v(1,2) _ _ ended this] inv at_end show ?thesis
    by (simp add: Let_def)
qed


section \<open>Expanded events\<close>

lemma retained_shift:
  assumes "sse_inv s"
  shows "sse_inv (applyRetention cap (feedChunk P s t))"
  by (intro sse_inv_retain sse_inv_feed assms)

lemma sse_keys_distinct: "sse_inv s \<Longrightarrow> distinct (map ev_index (ss_events s))"
  by (simp add: sse_inv_def)

lemma row_key_unique:
  assumes "sse_inv s" "j < length (ss_events s)" "k < length (ss_events s)" "row_key (ss_events s) j = row_key (ss_events s) k"
  shows "j = k"
  using assms sse_keys_distinct [OF assms(1)] by (simp add: row_key_def distinct_conv_nth) metis

text \<open>
  Expansion belongs to the event: when data arrives and older events are evicted, so
  that all rows move, the row of an event that stays on screen is expanded exactly when it was,
  and no row of another event takes its state over.
\<close>

theorem expansion_follows_event:
  assumes "sse_inv s" "i < length (ss_events s)"
    and "s' = applyRetention cap (feedChunk P s chunk)" "j < length (ss_events s')" "j \<in> set items"
    and "ss_events s' ! j = ss_events s ! i"
  shows "(row_key (ss_events s') j \<in> set (log_render (ss_events s') items expanded))
           = (row_key (ss_events s) i \<in> set expanded)
    \<and> (k < length (ss_events s') \<and> row_key (ss_events s') k = row_key (ss_events s) i \<longrightarrow> k = j)"
proof -
  have key: "row_key (ss_events s') j = row_key (ss_events s) i"
    using assms(2,4,6) by (simp add: row_key_def)
  then have "(row_key (ss_events s') j \<in> set (log_render (ss_events s') items expanded)) = (row_key (ss_events s) i \<in> set expanded)"
    using assms(5) key [symmetric] by (auto simp: log_render_def)
  moreover have "sse_inv s'" unfolding assms(3) by (rule retained_shift [OF assms(1)])
  ultimately show ?thesis using row_key_unique assms(4) key by metis
qed

definition ab_platform :: platform where
  "ab_platform = \<lparr>json_parse = (\<lambda>s. None), decode_utf8 = (\<lambda>bs. [])\<rparr>"

definition one_event_text :: string where
  "one_event_text = ''data:a'' @ [newline, newline]"

theorem expansion_follows_event_witness:
  "let s = feedChunk ab_platform createSSEStreamState one_event_text;
       s' = applyRetention 1 (feedChunk ab_platform s [])
   in row_key (ss_events s') 0 \<in> set (log_render (ss_events s') [0] [0])"
proof -
  let ?s = "feedChunk ab_platform createSSEStreamState one_event_text"
  have inv: "sse_inv ?s" by (intro sse_inv_feed sse_inv_create)
  have events: "ss_events ?s = [\<lparr>ev_type = ''message'', ev_data = ''a'', ev_id = None, ev_parsedData = None, ev_index = 0\<rparr>]"
    by (simp add: one_event_text_def feedChunk_def createSSEStreamState_def newline_def parseSSEBlock_def trim_def trimEnd_def trimStart_def
        is_ws_def sse_line_def sse_fields_init_def startsWith_def ab_platform_def charCode_def)
  have kept: "ss_events (applyRetention 1 (feedChunk ab_platform ?s [])) = ss_events ?s"
    using feedChunk_nothing [OF inv, of ab_platform] events by (simp add: applyRetention_def)
  have "row_key (ss_events ?s) 0 \<in> set [0]" by (simp add: row_key_def events)
  with expansion_follows_event [OF inv _ refl, of 0 0 1 ab_platform "[]" "[0]" "[0]"] show ?thesis
    unfolding Let_def kept by (simp add: events)
qed


text \<open>
  Switching the chat pane to a transcript that fits and back to the events leaves the view at the
  top of the events, although the pane still follows and shows no jump button: the mode is not a
  dependency of the follow effect.
\<close>

theorem mode_switch_leaves_end:
  assumes "isFollowing (ch_follow c)" "transcript_height \<le> clientHeight (scroll_box (ch_follow c))"
    "clientHeight (scroll_box (ch_follow c)) \<le> height"
  shows "let w = chat_step (ce_mode (Some chat_events) height) (chat_step (ce_mode (Some chat_transcript) transcript_height) c)
    in ch_mode w = chat_events \<and> from_end (scroll_box (ch_follow w)) = height - clientHeight (scroll_box (ch_follow c))
      \<and> isFollowing (ch_follow w) \<and> chat_state w \<noteq> stream_paused"
  using assms
  by (simp add: Let_def chat_select_def lay_out_def from_end_def chat_state_def stream_state_def deriveStreamState_def)

end
