(* ===== verification/Pipeline.thy ===== *)
theory Pipeline
  imports Stream_Views
begin

text \<open>
  From the messages of the proxy to what a pane shows, across the store, the reducer, the decoder
  and the stream panes: a run of the store is any sequence of actions, messages of other
  exchanges, decode results, user actions, and only what it says about the response body of one
  selected exchange matters for that body.
\<close>

section \<open>What a run says about one response body\<close>

fun response_data :: "nat \<Rightarrow> store_action list \<Rightarrow> BodyData list" where
  "response_data i [] = []"
| "response_data i (act_applyEvent m # as) =
     (case msg_event m of
        EvBodyData d \<Rightarrow> if msg_id m = i \<and> msg_direction m = DirResponse then d # response_data i as else response_data i as
      | _ \<Rightarrow> response_data i as)"
| "response_data i (a # as) = response_data i as"

text \<open>A message that starts the response again.\<close>

fun restarts :: "nat \<Rightarrow> store_action \<Rightarrow> bool" where
  "restarts i (act_applyEvent m) = (msg_id m = i \<and> (case msg_event m of EvResponse s v h e b \<Rightarrow> True | _ \<Rightarrow> False))"
| "restarts i a = False"

text \<open>A body without its cached size, and the response body of an exchange of the store.\<close>

definition body_core :: "BodyState \<Rightarrow> BodyState" where
  "body_core b = b\<lparr>bs_decodedBytes := None\<rparr>"

definition response_of :: "StoreState \<Rightarrow> nat \<Rightarrow> BodyState option" where
  "response_of s i = Option.bind (st_exchanges s i) ex_responseBody"

definition response_core :: "StoreState \<Rightarrow> nat \<Rightarrow> BodyState option" where
  "response_core s i = map_option body_core (response_of s i)"

text \<open>Data that throws leaves the body as it was.\<close>

fun feed_body :: "'a platform_scheme \<Rightarrow> BodyState \<Rightarrow> BodyData list \<Rightarrow> BodyState" where
  "feed_body P b [] = b"
| "feed_body P b (d # ds) = feed_body P (case appendBodyData P (Some b) d of None \<Rightarrow> b | Some b' \<Rightarrow> b') ds"

section \<open>One step\<close>

lemma appendBodyData_core:
  "appendBodyData P (Some (body_core b)) d = map_option body_core (appendBodyData P (Some b) d)"
  by (cases b) (simp add: appendBodyData_def body_core_def Let_def option.map_comp comp_def split: option.split)

lemma feed_body_append_all: "append_all P b ds = Some b' \<Longrightarrow> feed_body P b ds = b'"
  by (induction ds arbitrary: b) (auto split: option.splits)

lemma applyEvent_protected:
  assumes "store_ok s" "st_selectedId s = Some i"
  shows "st_exchanges (applyEvent P m s) i =
    (case reducer_apply P m (exchange_store_of s) of None \<Rightarrow> st_exchanges s i | Some st \<Rightarrow> fst st i)"
proof (cases "reducer_apply P m (exchange_store_of s)")
  case None
  then show ?thesis by (simp add: applyEvent_def)
next
  case (Some st)
  have "store_wf st" using reducer_apply_wf [OF _ Some] assms(1) by (simp add: store_ok_def)
  then have "fst (evict (Some i) st) i = fst st i" by (rule evict_protected)
  then show ?thesis using Some assms(2) by (auto simp: applyEvent_def Let_def split: prod.split)
qed

lemma applyEvent_response:
  assumes "store_ok s" "st_selectedId s = Some i" "response_core s i = Some b" "\<not> restarts i (act_applyEvent m)"
  shows "response_core (applyEvent P m s) i = Some (feed_body P b (response_data i [act_applyEvent m]))"
proof (cases "msg_id m = i")
  case False
  have "st_exchanges (applyEvent P m s) i = st_exchanges s i"
    using reducer_apply_other [of P m "exchange_store_of s" _ i] False
    by (simp add: applyEvent_protected assms(1,2) split: option.split)
  then show ?thesis using assms(3) False
    by (cases "msg_event m") (simp_all add: response_core_def response_of_def)
next
  case True
  obtain x b0 where x: "st_exchanges s i = Some x" "ex_responseBody x = Some b0" and b: "b = body_core b0"
    using assms(3) by (auto simp: response_core_def response_of_def bind_eq_Some_conv)
  have step: "response_core (applyEvent P m s) i =
      (case update_exchange P x (msg_direction m) (msg_event m) of
         Some (Some x') \<Rightarrow> map_option body_core (ex_responseBody x') | _ \<Rightarrow> Some b)"
    unfolding response_core_def response_of_def applyEvent_protected [OF assms(1,2)]
    using True x b by (simp add: reducer_apply_def Let_def split: option.split)
  show ?thesis
  proof (cases "msg_event m")
    case (EvBodyData d)
    then show ?thesis unfolding step using True x b
      by (cases "msg_direction m")
         (simp_all add: appendBodyData_core option.map_comp comp_def split: option.split)
  next
    case (EvRequest rm u v h bd)
    then show ?thesis unfolding step using True x b by (simp split: option.split)
  next
    case (EvResponse st v h e bd)
    then show ?thesis using assms(4) True by simp
  qed (use step True x b in simp_all)
qed

lemma cached_size_response: "response_core (setBodyDecodedBytes j dir n s) i = response_core s i"
  by (auto simp: setBodyDecodedBytes_def response_core_def response_of_def body_core_def Let_def split: option.split)

lemma response_data_single: "\<not> (\<exists>m. a = act_applyEvent m) \<Longrightarrow> response_data i [a] = []"
  by (cases a) simp_all

lemma response_data_Cons: "response_data i (a # as) = response_data i [a] @ response_data i as"
  by (cases a) (auto split: Event.split)

lemma feed_body_append: "feed_body P b (ds @ es) = feed_body P (feed_body P b ds) es"
  by (induction ds arbitrary: b) simp_all

lemma step_response:
  assumes "store_ok s" "st_selectedId s = Some i" "response_core s i = Some b" "\<not> restarts i a"
  shows "response_core (store_step P a s) i = Some (feed_body P b (response_data i [a]))"
proof (cases "data_action a")
  case False
  then have "st_exchanges (store_step P a s) = st_exchanges s" using store_step_frame [OF False, of P s] by simp
  then show ?thesis using False assms(3)
    by (cases a) (simp_all add: response_core_def response_of_def)
next
  case True
  then show ?thesis using assms
    by (cases a) (simp_all add: applyEvent_response cached_size_response)
qed

section \<open>A whole run\<close>

definition quiet :: "nat \<Rightarrow> store_action \<Rightarrow> bool" where
  "quiet i a \<longleftrightarrow> \<not> selects a \<and> \<not> restarts i a"

definition store_run :: "'a platform_scheme \<Rightarrow> store_action list \<Rightarrow> StoreState \<Rightarrow> StoreState" where
  "store_run P as s = fold (store_step P) as s"

lemma run_response:
  assumes "store_ok s" "st_selectedId s = Some i" "response_core s i = Some b" "list_all (quiet i) as"
  shows "response_core (store_run P as s) i = Some (feed_body P b (response_data i as))"
  using assms
proof (induction as arbitrary: s b)
  case (Cons a as)
  have q: "\<not> selects a" "\<not> restarts i a" "list_all (quiet i) as" using Cons.prems(4) by (simp_all add: quiet_def [abs_def])
  have "store_ok (store_step P a s)" by (rule store_ok_step) (rule Cons.prems(1))
  moreover have "st_selectedId (store_step P a s) = Some i" using Cons.prems(2) by (simp add: step_selected [OF q(1)])
  moreover have "response_core (store_step P a s) i = Some (feed_body P b (response_data i [a]))"
    by (rule step_response) (use Cons.prems q in simp_all)
  ultimately have "response_core (store_run P as (store_step P a s)) i =
      Some (feed_body P (feed_body P b (response_data i [a])) (response_data i as))"
    using Cons.IH q(3) by blast
  then show ?case unfolding response_data_Cons [of i a as] feed_body_append by (simp add: store_run_def)
qed (simp add: store_run_def)

lemma run_response_obtain:
  assumes "store_reachable P s" "st_selectedId s = Some i" "response_of s i = Some b" "list_all (quiet i) as"
  obtains x b' where "selectSelected (store_run P as s) = Some x" "ex_responseBody x = Some b'"
    "body_core b' = feed_body P (body_core b) (response_data i as)"
proof -
  have "response_core s i = Some (body_core b)" using assms(3) by (simp add: response_core_def)
  from run_response [OF reachable_ok [OF assms(1)] assms(2) this assms(4), of P]
  obtain x b' where "st_exchanges (store_run P as s) i = Some x" "ex_responseBody x = Some b'"
    "body_core b' = feed_body P (body_core b) (response_data i as)"
    by (auto simp: response_core_def response_of_def bind_eq_Some_conv)
  moreover have "st_selectedId (store_run P as s) = Some i"
    using assms(2,4) selection.part_run [of as P s]
    by (auto simp: store_run_def quiet_def list_all_iff)
  ultimately show ?thesis using that by (simp add: selectSelected_def)
qed


section \<open>What the run leaves alone\<close>

lemma feed_body_fields:
  "bs_contentType (feed_body P b ds) = bs_contentType b \<and> bs_contentEncoding (feed_body P b ds) = bs_contentEncoding b"
proof (induction ds arbitrary: b)
  case (Cons d ds)
  have "appendBodyData P (Some b) d = Some b' \<Longrightarrow> bs_contentType b' = bs_contentType b \<and> bs_contentEncoding b' = bs_contentEncoding b" for b'
    by (auto simp: appendBodyData_def Let_def split: option.splits)
  then show ?case using Cons.IH by (auto split: option.split)
qed simp

lemma body_core_fields [simp]:
  "bs_contentType (body_core b) = bs_contentType b" "bs_contentEncoding (body_core b) = bs_contentEncoding b"
  "bs_sseState (body_core b) = bs_sseState b" "bs_chunks (body_core b) = bs_chunks b"
  "bs_atEnd (body_core b) = bs_atEnd b" "bs_wireBytes (body_core b) = bs_wireBytes b"
  by (simp_all add: body_core_def)

lemma body_core_eqD:
  assumes "body_core b' = c"
  shows "bs_contentType b' = bs_contentType c \<and> bs_contentEncoding b' = bs_contentEncoding c
    \<and> bs_sseState b' = bs_sseState c \<and> bs_chunks b' = bs_chunks c \<and> bs_atEnd b' = bs_atEnd c
    \<and> bs_wireBytes b' = bs_wireBytes c"
  using body_core_fields [of b'] assms by metis

lemma feed_body_plain:
  assumes "bs_sseState b = None"
  shows "feed_body P b (ds @ [d]) = b\<lparr>bs_chunks := bs_chunks b @ data_payloads (ds @ [d]), bs_atEnd := bd_at_end d,
      bs_wireBytes := bd_total_bytes d\<rparr>"
  by (rule feed_body_append_all, rule append_all_plain [OF assms])

lemma feed_body_stream:
  assumes "bs_sseState b = Some createSSEStreamState" "data_texts P ds = Some ts"
  shows "bs_sseState (feed_body P b ds) = Some (applyRetention MAX_SSE_EVENTS (feedChunk P createSSEStreamState (concat ts)))"
proof -
  obtain b' where b': "append_all P b ds = Some b'"
    "bs_sseState b' = Some (foldl (\<lambda>s t. applyRetention MAX_SSE_EVENTS (feedChunk P s t)) createSSEStreamState ts)"
    using append_all_stream [OF assms(1), of P ds] assms(2) by auto
  then show ?thesis using feed_body_append_all [OF b'(1)] by (simp add: sse.run_retained_init)
qed

text \<open>The bytes that decoding a body gives, from the bytes of its chunks.\<close>

definition content_bytes :: "'a decode_env_scheme \<Rightarrow> string option \<Rightarrow> byte list \<Rightarrow> byte list option" where
  "content_bytes E contentEncoding bytes =
     (let encoding = map_option toLowerCase contentEncoding
      in if known_encoding encoding then decompress E bytes (the encoding) else Some bytes)"

lemma decode_content:
  assumes "chunksToBytes (bs_chunks b) = Some arrays" "content_bytes E (bs_contentEncoding b) (concat arrays) = Some bytes"
  shows "\<exists>r. decodeBody E b = Some r \<and> dr_bytes r = bytes \<and> dr_wireBytes r = bs_wireBytes b"
proof -
  obtain n where "Decode.body_bytes E b = Some (bytes, n)"
    using assms by (auto simp: Decode.body_bytes_def content_bytes_def concatenate_eq Let_def split: if_splits)
  then obtain r where r: "decodeBody E b = Some r" using classify_total by (fastforce simp: decodeBody_def Let_def)
  then show ?thesis using \<open>Decode.body_bytes E b = Some (bytes, n)\<close>
    by (auto simp: decodeBody_def Let_def same_body_def dest!: classify_same_body)
qed

section \<open>Sample messages\<close>

definition sample_message :: "Event \<Rightarrow> EventMessage" where
  "sample_message ev = \<lparr>msg_exchange = \<lparr>em_exchange_id = 4, em_timestamp = ''t''\<rparr>, msg_direction = DirResponse, msg_event = ev\<rparr>"

definition sample_response :: "string \<Rightarrow> EventMessage" where
  "sample_response contentType =
     sample_message (EvResponse ''200 OK'' ''1.1'' [\<lparr>h_name = ''content-type'', h_value = contentType\<rparr>] 1 NotRead)"

definition sample_data :: "string \<Rightarrow> bool \<Rightarrow> nat \<Rightarrow> EventMessage" where
  "sample_data t atEnd n = sample_message (EvBodyData \<lparr>bd_content = Some \<lparr>bc_offset = 0, bc_length = 1, bc_payload = ChunkText t\<rparr>,
     bd_trailers = None, bd_at_end = atEnd, bd_total_bytes = n\<rparr>)"

definition sample_store :: "string \<Rightarrow> StoreState" where
  "sample_store contentType = setSelectedId (Some 4) (applyEvent no_platform (sample_response contentType) initial_store)"

lemma sample_store_reachable: "store_reachable no_platform (sample_store ct)"
  using store_next [OF store_next [OF store_start], where a1 = "act_applyEvent (sample_response ct)"
      and a = "act_setSelectedId (Some 4)" and P = no_platform]
  by (simp add: sample_store_def)

lemma sample_store_selected: "st_selectedId (sample_store ct) = Some 4"
  by (simp add: sample_store_def setSelectedId_def)

lemma sample_store_response:
  "response_of (sample_store ct) 4 = Some (empty_body\<lparr>bs_contentType := Some ct,
     bs_sseState := (if isSSEContentType (Some ct) then Some createSSEStreamState else None)\<rparr>)"
  by (simp add: sample_store_def response_of_def setSelectedId_def applyEvent_def reducer_apply_def sample_response_def
      sample_message_def initial_store_def evict_single getHeader_def char_eval empty_body_def Let_def)

end
