(* ===== verification/App.thy ===== *)
theory App
  imports Exchange_View Connection
begin

text \<open>
  Parts that no other component calls yet or that sit above them: the paired Elasticsearch view
  \<open>components/msearch-view.tsx\<close> (not mounted by the program), the relative clock
  \<open>hooks/useRelativeTime.ts\<close> over the shared timer of \<open>lib/tickSource.ts\<close>, the layout fallback
  \<open>lib/virtual.ts\<close>, the default theme \<open>theme/theme.ts\<close>, and what \<open>App.tsx\<close> and \<open>main.tsx\<close> mount.

  Shown: a click on a request focuses exactly its pair; a click on a response focuses nothing; all
  clocks that are mounted show the same instant after a tick.
\<close>

section \<open>The paired view\<close>

text \<open>The two bodies are what the caller renders.\<close>

record 'h SubExchange =
  su_index :: string
  su_description :: string
  su_status :: int
  su_hits :: int
  su_tookMs :: int
  su_showing :: "int option"
  su_requestBody :: "'h dom"
  su_responseBody :: "'h dom"

datatype msearch_action = ms_focus "nat option" | ms_trigger nat

definition IndexBadge :: "nat \<Rightarrow> bool \<Rightarrow> 'h dom" where
  "IndexBadge n focused =
     El ''span'' [(''class'', lat (if focused then ''border-primary bg-primary text-primary-foreground''
                               else ''bg-card text-secondary-foreground''))] [] [Txt (lat (showNat n))]"

definition Stats :: "'h SubExchange \<Rightarrow> 'h dom" where
  "Stats sub =
     El ''span'' [] []
       [El ''span'' [(''class'', lat (KIND_TEXT (code_status (Some (su_status sub)) False)))] [] [Txt (lat (showInt (su_status sub)))],
        El ''span'' [(''class'', lat (if su_hits sub = 0 then ''text-redirect'' else ''text-ok''))] []
          [Txt (lat (showInt (su_hits sub))), Txt (lat '' hits''),
           Txt (lat (case su_showing sub of
              None \<Rightarrow> []
            | Some n \<Rightarrow> if n = 0 then [] else '' (showing '' @ showInt n @ '')''))],
        El ''span'' [] [] [Txt (lat (showInt (su_tookMs sub))), Txt (lat '' ms'')]]"

definition PaneHead :: "string \<Rightarrow> glyph list \<Rightarrow> 'h dom" where
  "PaneHead title meta = El ''div'' [] [] [El ''span'' [] [] [Txt (lat title)], El ''span'' [] [] [Txt meta]]"

definition card_class :: "nat option \<Rightarrow> nat \<Rightarrow> (string \<times> glyph list) list" where
  "card_class focusedIndex i = attr_if (focusedIndex = Some i) ''class'' (lat ''border-primary ring-1 ring-primary'')"

definition request_card :: "nat option \<Rightarrow> nat \<Rightarrow> msearch_action SubExchange \<Rightarrow> msearch_action dom" where
  "request_card focusedIndex i sub =
     El ''div'' (card_class focusedIndex i) []
       [El ''button'' [] [(''click'', ms_focus (if focusedIndex = Some i then None else Some i))]
          [IndexBadge (i + 1) (focusedIndex = Some i),
           El ''span'' [] [] [El ''span'' [] [] [Txt (lat (su_index sub))], El ''span'' [] [] [Txt (lat (su_description sub))]],
           Stats sub],
        El ''div'' [] [] [su_requestBody sub]]"

text \<open>\<open>open\<close>: the indices whose \<open>Collapsible\<close> is open, at first the first one.\<close>

definition collapsible_init :: "nat list" where
  "collapsible_init = [0]"

definition collapsible_trigger :: "nat \<Rightarrow> nat list \<Rightarrow> nat list" where
  "collapsible_trigger i opened = (if i \<in> set opened then removeAll i opened else opened @ [i])"

definition response_card :: "nat option \<Rightarrow> nat list \<Rightarrow> nat \<Rightarrow> msearch_action SubExchange \<Rightarrow> msearch_action dom" where
  "response_card focusedIndex opened i sub =
     El ''Collapsible'' (card_class focusedIndex i) []
       (El ''CollapsibleTrigger'' [] [(''click'', ms_trigger i)]
          [El ''ChevronRight'' [] [] [], IndexBadge (i + 1) (focusedIndex = Some i), Stats sub]
        # child_if (i \<in> set opened) [El ''CollapsibleContent'' [] [] [su_responseBody sub]])"

definition MsearchView :: "msearch_action SubExchange list \<Rightarrow> nat option \<Rightarrow> nat list \<Rightarrow> msearch_action dom" where
  "MsearchView subs focusedIndex opened =
     (let n = showNat (length subs); indexed = zip [0..<length subs] subs
      in El ''div'' [] []
           [El ''div'' [] []
              (PaneHead ''Sub-requests'' (lat (n @ '' '' @ [CHR 0xD7] @ '' _msearch '' @ [CHR 0xB7] @ '' ndjson''))
               # map (\<lambda>(i, sub). request_card focusedIndex i sub) indexed),
            El ''div'' [] []
              (PaneHead ''Sub-responses'' (lat (n @ '' responses''))
               # map (\<lambda>(i, sub). response_card focusedIndex opened i sub) indexed)])"

section \<open>Clocks\<close>

text \<open>
  A mounted clock is a listener of the timer with its own \<open>now\<close>; a tick hands the time to every
  listener.
\<close>

record Clocks =
  ck_source :: TickSource
  ck_now :: "nat \<Rightarrow> int option"

definition clock_mount :: "nat \<Rightarrow> int \<Rightarrow> Clocks \<Rightarrow> Clocks" where
  "clock_mount l now s = s\<lparr>ck_source := tick_subscribe l (ck_source s), ck_now := (ck_now s)(l \<mapsto> now)\<rparr>"

definition clock_unmount :: "nat \<Rightarrow> Clocks \<Rightarrow> Clocks" where
  "clock_unmount l s = s\<lparr>ck_source := tick_unsubscribe l (ck_source s), ck_now := (ck_now s)(l := None)\<rparr>"

fun deliver :: "int \<Rightarrow> nat list \<Rightarrow> (nat \<Rightarrow> int option) \<Rightarrow> nat \<Rightarrow> int option" where
  "deliver now [] nows = nows"
| "deliver now (l # ls) nows = deliver now ls (nows(l \<mapsto> now))"

definition tick :: "int \<Rightarrow> Clocks \<Rightarrow> Clocks" where
  "tick now s = s\<lparr>ck_now := deliver now (tick_listeners (ck_source s)) (ck_now s)\<rparr>"

definition useRelativeTime :: "(string \<Rightarrow> int option) \<Rightarrow> string \<Rightarrow> nat \<Rightarrow> Clocks \<Rightarrow> string option" where
  "useRelativeTime getTime timestamp l s = map_option (formatRelative getTime timestamp) (ck_now s l)"

section \<open>Layout, theme and entry\<close>

definition observeElementRectWithFallback :: "nat \<times> nat \<Rightarrow> nat \<times> nat" where
  "observeElementRectWithFallback rect = (if fst rect = 0 \<and> snd rect = 0 then (400, 600) else rect)"

datatype ThemePreference = theme_light | theme_dark | theme_system

definition DEFAULT_THEME :: ThemePreference where
  "DEFAULT_THEME = theme_system"

definition isPreference :: "string option \<Rightarrow> ThemePreference option" where
  "isPreference v =
     (if v = Some ''light'' then Some theme_light
      else if v = Some ''dark'' then Some theme_dark
      else if v = Some ''system'' then Some theme_system
      else None)"

text \<open>\<open>param\<close> is \<open>URLSearchParams.get\<close> on the page's query.\<close>

definition resolveDefaultTheme :: "(string \<Rightarrow> string option) \<Rightarrow> ThemePreference" where
  "resolveDefaultTheme param = (case isPreference (param ''defaultTheme'') of Some t \<Rightarrow> t | None \<Rightarrow> DEFAULT_THEME)"

definition theme_text :: "ThemePreference \<Rightarrow> string" where
  "theme_text t = (case t of theme_light \<Rightarrow> ''light'' | theme_dark \<Rightarrow> ''dark'' | theme_system \<Rightarrow> ''system'')"

definition renderMsearch :: "'h dom" where
  "renderMsearch = El ''EmptyState'' [(''textSize'', lat ''sm'')] [] [Txt (lat ''Paired request view is not yet available'')]"

definition App :: "(string \<Rightarrow> string option) \<Rightarrow> bool \<Rightarrow> 'h dom \<Rightarrow> 'h dom" where
  "App param testHooks appShell =
     El ''ThemeProvider'' [(''attribute'', lat ''class''), (''defaultTheme'', lat (theme_text (resolveDefaultTheme param))),
                           (''enableSystem'', lat ''true''), (''storageKey'', lat ''theme'')] []
       [El ''TooltipProvider'' [] [] ([appShell, El ''Toaster'' [] [] []] @ child_if testHooks [El ''ThemeTestBridge'' [] [] []])]"

text \<open>What \<open>main.tsx\<close> mounts for a page with a hash.\<close>

datatype entry = entry_harness | entry_app bool

definition entry_of :: "bool \<Rightarrow> string \<Rightarrow> entry" where
  "entry_of testHooks hash =
     (if testHooks \<and> startsWith hash ''#json-tree-harness'' then entry_harness else entry_app testHooks)"

section \<open>Lemmas\<close>

lemma deliver_eq: "deliver now ls nows l = (if l \<in> set ls then Some now else nows l)"
  by (induction ls arbitrary: nows) auto

lemma clocks_agree:
  "tick_listeners (ck_source s) = ls \<Longrightarrow> l \<in> set ls \<Longrightarrow>
   useRelativeTime getTime timestamp l (tick now s) = Some (formatRelative getTime timestamp now)"
  by (simp add: useRelativeTime_def tick_def deliver_eq)

definition focused_cards :: "msearch_action dom list \<Rightarrow> bool list" where
  "focused_cards cards = map (\<lambda>c. dom_attr ''class'' c \<noteq> None) cards"

lemma card_class_focused [simp]: "(\<exists>y. map_of (card_class f i) ''class'' = Some y) \<longleftrightarrow> f = Some i"
  by (simp add: card_class_def attr_if_def)

lemma request_cards_focused:
  "focused_cards (map (\<lambda>(i, sub). request_card f i sub) (zip [0..<length subs] subs)) = map (\<lambda>i. f = Some i) [0..<length subs]"
  by (rule nth_equalityI) (simp_all add: focused_cards_def request_card_def)

lemma response_cards_focused:
  "focused_cards (map (\<lambda>(i, sub). response_card f opened i sub) (zip [0..<length subs] subs)) = map (\<lambda>i. f = Some i) [0..<length subs]"
  by (rule nth_equalityI) (simp_all add: focused_cards_def response_card_def)

text \<open>The head of a response card does not focus: its only handler opens or closes the card.\<close>

lemma response_card_handlers:
  "dom_handlers (response_card f opened i sub) =
     (''click'', ms_trigger i) # handlers_of [IndexBadge (i + 1) (f = Some i), Stats sub]
       @ (if i \<in> set opened then dom_handlers (su_responseBody sub) else [])"
  by (simp add: response_card_def child_if_def)

end
