(* ===== verification/Number.thy ===== *)
theory Number
  imports Utils
begin

text \<open>
  The numbers of the language, as far as the sources compute with them: NaN, the infinities, and the
  finite values as rationals (the two zeros are one). \<open>to_double\<close> rounds a rational to the nearest
  double, ties to even; \<open>string_number\<close> is \<open>Number(s)\<close>, \<open>parseFloat\<close> reads the longest
  numeric prefix. Shown: integers below 2^53 are read back exactly.
\<close>

datatype js_num = js_NaN | js_Inf bool | js_Fin rat

section \<open>Rounding to doubles\<close>

fun bits :: "nat \<Rightarrow> nat" where
  "bits n = (if n = 0 then 0 else Suc (bits (n div 2)))"

declare bits.simps [simp del]

definition two_to :: "int \<Rightarrow> rat" where
  "two_to e = (if 0 \<le> e then 2 ^ nat e else 1 / 2 ^ nat (- e))"

text \<open>The exponent of the leading bit of a positive rational.\<close>

definition leading_exponent :: "rat \<Rightarrow> int" where
  "leading_exponent q =
     (let (a, b) = quotient_of q; k = int (bits (nat a)) - int (bits (nat b))
      in if two_to k \<le> q then k else k - 1)"

definition round_half_even :: "rat \<Rightarrow> int" where
  "round_half_even q =
     (let f = \<lfloor>q\<rfloor>; r = q - of_int f
      in if r < 1 / 2 then f else if 1 / 2 < r then f + 1 else if even f then f else f + 1)"

text \<open>53 significant bits, the last one at least 2^-1074; beyond the greatest double, infinity.\<close>

definition round_positive :: "rat \<Rightarrow> rat" where
  "round_positive q = (let e = max (leading_exponent q - 52) (- 1074) in of_int (round_half_even (q / two_to e)) * two_to e)"

definition to_double :: "rat \<Rightarrow> js_num" where
  "to_double q =
     (if q = 0 then js_Fin 0
      else let r = round_positive \<bar>q\<bar>
           in if two_to 1024 \<le> r then js_Inf (q < 0) else js_Fin (if q < 0 then - r else r))"

section \<open>Reading numbers\<close>

definition power_of_ten :: "int \<Rightarrow> rat" where
  "power_of_ten e = (if 0 \<le> e then 10 ^ nat e else 1 / 10 ^ nat (- e))"

text \<open>A sign, with the rest.\<close>

definition read_sign :: "string \<Rightarrow> bool \<times> string" where
  "read_sign s = (case s of c # r \<Rightarrow> if c = CHR ''-'' then (True, r) else if c = CHR ''+'' then (False, r) else (False, s)
     | [] \<Rightarrow> (False, []))"

text \<open>The digits before and after a point, with the rest; \<open>None\<close> when there is no digit.\<close>

definition read_mantissa :: "string \<Rightarrow> (rat \<times> string) option" where
  "read_mantissa s =
     (let whole = takeWhile is_digit s; r = dropWhile is_digit s;
          (part, r2) = (case r of c # t \<Rightarrow> if c = CHR ''.'' then (takeWhile is_digit t, dropWhile is_digit t) else ([], r)
                        | [] \<Rightarrow> ([], r))
      in if whole = [] \<and> part = [] then None
         else Some (of_nat (digits_value (whole @ part)) / 10 ^ length part, r2))"

text \<open>An exponent part, with the rest; \<open>None\<close> when there is none.\<close>

definition read_exponent :: "string \<Rightarrow> (int \<times> string) option" where
  "read_exponent s =
     (case s of
        c # t \<Rightarrow>
          if c = CHR ''e'' \<or> c = CHR ''E''
          then (let (neg, u) = read_sign t; ds = takeWhile is_digit u
                in if ds = [] then None
                   else Some (if neg then - int (digits_value ds) else int (digits_value ds), dropWhile is_digit u))
          else None
      | [] \<Rightarrow> None)"

definition radix_digit :: "nat \<Rightarrow> char \<Rightarrow> bool" where
  "radix_digit b c = (let n = lower_code (charCode c)
     in (48 \<le> n \<and> n < 58 \<and> n - 48 < b) \<or> (97 \<le> n \<and> n < 123 \<and> n - 87 < b))"

definition signed_num :: "bool \<Rightarrow> rat \<Rightarrow> js_num" where
  "signed_num neg q = to_double (if neg then - q else q)"

definition decimal_number :: "string \<Rightarrow> js_num" where
  "decimal_number s =
     (let (neg, u) = read_sign s
      in if u = ''Infinity'' then js_Inf neg
         else (case read_mantissa u of
             None \<Rightarrow> js_NaN
           | Some (m, []) \<Rightarrow> signed_num neg m
           | Some (m, r) \<Rightarrow> (case read_exponent r of
                 Some (e, []) \<Rightarrow> signed_num neg (m * power_of_ten e)
               | _ \<Rightarrow> js_NaN)))"

definition radix_number :: "nat \<Rightarrow> string \<Rightarrow> js_num" where
  "radix_number b ds = (if ds \<noteq> [] \<and> list_all (radix_digit b) ds
     then to_double (of_nat (radix_value b (toLowerCase ds))) else js_NaN)"

text \<open>\<open>Number(s)\<close>, and \<open>Number(v)\<close> of a string or \<open>undefined\<close>.\<close>

definition string_number :: "string \<Rightarrow> js_num" where
  "string_number s =
     (let t = trim s; p = toLowerCase (take 2 t)
      in if t = [] then js_Fin 0
         else if p = ''0x'' then radix_number 16 (drop 2 t)
         else if p = ''0o'' then radix_number 8 (drop 2 t)
         else if p = ''0b'' then radix_number 2 (drop 2 t)
         else decimal_number t)"

definition value_number :: "string option \<Rightarrow> js_num" where
  "value_number v = (case v of None \<Rightarrow> js_NaN | Some s \<Rightarrow> string_number s)"

definition parseFloat :: "string \<Rightarrow> js_num" where
  "parseFloat s =
     (let (neg, u) = read_sign (trimStart s)
      in if startsWith u ''Infinity'' then js_Inf neg
         else (case read_mantissa u of
             None \<Rightarrow> js_NaN
           | Some (m, r) \<Rightarrow> (case read_exponent r of
                 Some (e, _) \<Rightarrow> signed_num neg (m * power_of_ten e)
               | None \<Rightarrow> signed_num neg m)))"

text \<open>\<open>Number.isInteger(x)\<close>, and \<open>x < y\<close> for a finite \<open>y\<close>.\<close>

fun isInteger :: "js_num \<Rightarrow> bool" where
  "isInteger (js_Fin q) = (snd (quotient_of q) = 1)"
| "isInteger x = False"

fun num_less :: "js_num \<Rightarrow> rat \<Rightarrow> bool" where
  "num_less js_NaN y = False"
| "num_less (js_Inf neg) y = neg"
| "num_less (js_Fin x) y = (x < y)"

section \<open>Lemmas\<close>

lemma bits_le: "n < 2 ^ k \<Longrightarrow> bits n \<le> k"
proof (induction k arbitrary: n)
  case 0
  then show ?case by (simp add: bits.simps)
next
  case (Suc k)
  have "n div 2 < 2 ^ k" using Suc.prems by (simp add: less_mult_imp_div_less mult.commute)
  then have "bits (n div 2) \<le> k" by (rule Suc.IH)
  then show ?case by (subst bits.simps) simp
qed

lemma bits_1: "bits (Suc 0) = 1"
  by (simp add: bits.simps [of "Suc 0"] bits.simps [of 0])

lemma leading_exponent_le: "n < 2 ^ k \<Longrightarrow> leading_exponent (of_nat n) \<le> int k - 1"
  using bits_le [of n k] by (simp add: leading_exponent_def bits_1 Let_def)

lemma round_half_even_int [simp]: "round_half_even (of_int k) = k"
  by (simp add: round_half_even_def)

text \<open>Integers below 2^53 are doubles.\<close>

lemma round_positive_nat: "n < 2 ^ 53 \<Longrightarrow> round_positive (of_nat n) = of_nat n"
proof -
  assume n: "n < 2 ^ 53"
  define e where "e = max (leading_exponent (of_nat n) - 52) (- 1074)"
  have e: "e \<le> 0" using leading_exponent_le [OF n] by (simp add: e_def)
  have "of_nat n / two_to e = (of_int (int n * 2 ^ nat (- e)) :: rat)"
    using e by (cases "e = 0") (simp_all add: two_to_def)
  then have "round_half_even (of_nat n / two_to e) = int n * 2 ^ nat (- e)"
    by (simp only: round_half_even_int)
  then show ?thesis
    unfolding round_positive_def e_def [symmetric] Let_def using e by (cases "e = 0") (simp_all add: two_to_def)
qed

lemma to_double_nat: "n < 2 ^ 53 \<Longrightarrow> to_double (of_nat n) = js_Fin (of_nat n)"
proof -
  assume n: "n < 2 ^ 53"
  have "n < 2 ^ 1024" using n power_increasing [of 53 1024 "2 :: nat"] by linarith
  then have "rat_of_nat n < 2 ^ 1024" by (metis of_nat_less_iff of_nat_numeral of_nat_power)
  then show ?thesis using n by (simp add: to_double_def round_positive_nat two_to_def Let_def)
qed

lemma isInteger_nat [simp]: "isInteger (js_Fin (of_nat n))"
  by simp

lemma digits_of_showNat: "list_all is_digit (showNat n)"
  using showNat_digits [of _ n] by (fastforce simp: list_all_iff is_digit_def Let_def)

lemma digits_value_showNat: "digits_value (showNat n) = n"
proof -
  have "foldl (\<lambda>n c. n * 10 + (charCode c - 48)) a ds = foldl (\<lambda>n c. n * 10 + digit_value c) a ds"
    if "list_all is_digit ds" for a ds
    using that by (induction ds arbitrary: a) (simp_all add: is_digit_def digit_value_def Let_def)
  then show ?thesis
    using digits_of_showNat [of n] radix_value_toRadix [of 10 n]
    by (simp add: digits_value_def radix_value_def showNat_def)
qed

lemma digit_not_ws: "is_digit c \<Longrightarrow> \<not> is_ws c"
  by (auto simp: is_digit_def is_ws_def Let_def)

lemma trim_digits: "list_all is_digit s \<Longrightarrow> trim s = s"
  by (cases "s = []") (simp_all add: trim_id list_all_iff digit_not_ws)

text \<open>The decimal text of an integer below 2^53 is read as that integer.\<close>

lemma string_number_showNat: "n < 2 ^ 53 \<Longrightarrow> string_number (showNat n) = js_Fin (of_nat n)"
proof -
  assume n: "n < 2 ^ 53"
  note ds = digits_of_showNat [of n]
  obtain c s where cs: "showNat n = c # s" by (cases "showNat n") simp_all
  have c: "is_digit c" using ds cs by simp
  have "d \<noteq> CHR ''x'' \<and> d \<noteq> CHR ''o'' \<and> d \<noteq> CHR ''b''" if "is_digit a" "d = fromCharCode (lower_code (charCode a))" for a d
    using that by (auto simp: is_digit_def lower_code_def Let_def charCode_def fromCharCode_def)
  then have "toLowerCase (take 2 (showNat n)) \<notin> {''0x'', ''0o'', ''0b''}"
    using ds cs by (cases s) (auto simp: toLowerCase_def)
  moreover have "read_sign (showNat n) = (False, showNat n)"
    using c cs by (auto simp: read_sign_def is_digit_def charCode_def)
  moreover have "showNat n \<noteq> ''Infinity''" using c cs by (auto simp: is_digit_def charCode_def)
  moreover have "takeWhile is_digit (showNat n) = showNat n" "dropWhile is_digit (showNat n) = []"
    using ds by (simp_all only: takeWhile_eq_all_conv dropWhile_eq_Nil_conv list_all_iff)
  then have "read_mantissa (showNat n) = Some (of_nat n, [])"
    unfolding read_mantissa_def by (simp only: Let_def list.case prod.case) (simp add: digits_value_showNat)
  ultimately show ?thesis
    using trim_digits [OF ds] to_double_nat [OF n]
    by (simp add: string_number_def decimal_number_def signed_num_def Let_def)
qed

end
