(* ===== verification/Capture.thy ===== *)
theory Capture
  imports Number Machine
begin

text \<open>
  The scene capture of the development tooling, \<open>scripts/capture-scenes-lib.ts\<close>: the command line,
  the plan of the cells and the pool that runs them with bounded concurrency. The pool is a state machine: a pump
  takes a cell and waits for its worker, which succeeds or fails at any time; a failed pump stops,
  the others go on.

  Shown: settings written as a command line are read back; no more cells are in flight than allowed, every cell is started once and in order, the pool
  uses all the concurrency it may, and it is resolved exactly when every cell is captured.
\<close>

section \<open>The command line\<close>

text \<open>\<open>None\<close> is \<open>undefined\<close> for \<open>out\<close>, and \<open>null\<close> or \<open>undefined\<close> for \<open>baseUrl\<close>.\<close>

record Args =
  ar_out :: "string option"
  ar_concurrency :: js_num
  ar_port :: js_num
  ar_baseUrl :: "string option"
  ar_build :: bool

datatype ArgsError = unknown_argument string | usage_error | invalid_concurrency js_num

text \<open>The value after an option: \<open>argv[++i]\<close>, \<open>undefined\<close> beyond the end.\<close>

fun option_value :: "string list \<Rightarrow> string option" where
  "option_value [] = None"
| "option_value (v # rest) = Some v"

fun parse_options :: "Args \<Rightarrow> string list \<Rightarrow> ArgsError + Args" where
  "parse_options a [] = Inr a"
| "parse_options a (arg # rest) =
     (if arg = ''--out'' then parse_options (a\<lparr>ar_out := option_value rest\<rparr>) (tl rest)
      else if arg = ''--concurrency'' then parse_options (a\<lparr>ar_concurrency := value_number (option_value rest)\<rparr>) (tl rest)
      else if arg = ''--port'' then parse_options (a\<lparr>ar_port := value_number (option_value rest)\<rparr>) (tl rest)
      else if arg = ''--base-url'' then parse_options (a\<lparr>ar_baseUrl := option_value rest\<rparr>) (tl rest)
      else if arg = ''--no-build'' then parse_options (a\<lparr>ar_build := False\<rparr>) rest
      else Inl (unknown_argument arg))"

definition env_number :: "string option \<Rightarrow> nat \<Rightarrow> js_num" where
  "env_number v fallback = (case v of None \<Rightarrow> js_Fin (of_nat fallback) | Some s \<Rightarrow> string_number s)"

text \<open>The two environment variables \<open>CAPTURE_CONCURRENCY\<close> and \<open>CAPTURE_PORT\<close> are arguments.\<close>

definition default_args :: "string option \<Rightarrow> string option \<Rightarrow> Args" where
  "default_args env_concurrency env_port =
     \<lparr>ar_out = Some [], ar_concurrency = env_number env_concurrency 6, ar_port = env_number env_port 4180,
      ar_baseUrl = None, ar_build = True\<rparr>"

definition check_args :: "Args \<Rightarrow> ArgsError + Args" where
  "check_args a =
     (if ar_out a = None \<or> ar_out a = Some [] then Inl usage_error
      else if \<not> isInteger (ar_concurrency a) \<or> num_less (ar_concurrency a) 1 then Inl (invalid_concurrency (ar_concurrency a))
      else Inr a)"

definition parseArgs :: "string option \<Rightarrow> string option \<Rightarrow> string list \<Rightarrow> ArgsError + Args" where
  "parseArgs env_concurrency env_port argv =
     (case parse_options (default_args env_concurrency env_port) argv of Inl e \<Rightarrow> Inl e | Inr a \<Rightarrow> check_args a)"

text \<open>An option as it is written, and what it sets. The last one of a kind wins.\<close>

datatype cli_option = opt_out string | opt_concurrency string | opt_port string | opt_base_url string | opt_no_build

fun option_words :: "cli_option \<Rightarrow> string list" where
  "option_words (opt_out v) = [''--out'', v]"
| "option_words (opt_concurrency v) = [''--concurrency'', v]"
| "option_words (opt_port v) = [''--port'', v]"
| "option_words (opt_base_url v) = [''--base-url'', v]"
| "option_words opt_no_build = [''--no-build'']"

fun set_option :: "cli_option \<Rightarrow> Args \<Rightarrow> Args" where
  "set_option (opt_out v) a = a\<lparr>ar_out := Some v\<rparr>"
| "set_option (opt_concurrency v) a = a\<lparr>ar_concurrency := string_number v\<rparr>"
| "set_option (opt_port v) a = a\<lparr>ar_port := string_number v\<rparr>"
| "set_option (opt_base_url v) a = a\<lparr>ar_baseUrl := Some v\<rparr>"
| "set_option opt_no_build a = a\<lparr>ar_build := False\<rparr>"

lemma parse_option_words:
  "parse_options a (option_words opt @ rest) = parse_options (set_option opt a) rest"
  by (cases opt) (simp_all add: value_number_def)

lemma parse_options_words:
  "parse_options a (concat (map option_words opts) @ rest) = parse_options (fold set_option opts a) rest"
  by (induction opts arbitrary: a) (simp_all add: parse_option_words)

text \<open>
  Only these command lines are accepted by the loop: options with their values, and at the end
  possibly one option whose value is missing.
\<close>

definition bare_option :: "string \<Rightarrow> bool" where
  "bare_option w \<longleftrightarrow> w \<in> {''--out'', ''--concurrency'', ''--port'', ''--base-url''}"

lemma valued_option:
  "bare_option w \<Longrightarrow> \<exists>opt. option_words opt = [w, v]"
  unfolding bare_option_def
  by (elim insertE emptyE) (metis option_words.simps)+

definition accepted_words :: "string list \<Rightarrow> bool" where
  "accepted_words argv \<longleftrightarrow> (\<exists>opts end_words. argv = concat (map option_words opts) @ end_words
     \<and> (end_words = [] \<or> (\<exists>w. bare_option w \<and> end_words = [w])))"

lemma accepted_words_Nil: "accepted_words []"
  unfolding accepted_words_def by (intro exI [of _ "[]"]) simp

lemma accepted_words_bare: "bare_option w \<Longrightarrow> accepted_words [w]"
  unfolding accepted_words_def by (intro exI [of _ "[]"] exI [of _ "[w]"]) simp

lemma accepted_words_option: "accepted_words argv \<Longrightarrow> accepted_words (option_words opt @ argv)"
  unfolding accepted_words_def by (metis append_assoc concat.simps(2) list.simps(9))

lemma parse_options_accepts: "parse_options a argv = Inr b \<Longrightarrow> accepted_words argv"
proof (induction argv arbitrary: a rule: length_induct)
  case (1 argv)
  show ?case
  proof (cases argv)
    case Nil
    then show ?thesis by (simp add: accepted_words_Nil)
  next
    case (Cons arg rest)
    show ?thesis
    proof (cases "bare_option arg")
      case bare: True
      show ?thesis
      proof (cases rest)
        case Nil
        then show ?thesis using Cons bare by (simp add: accepted_words_bare)
      next
        case (Cons v more)
        obtain opt where "option_words opt = [arg, v]" using valued_option [OF bare] by blast
        moreover obtain c where "parse_options c more = Inr b"
          using "1.prems" bare \<open>argv = _\<close> Cons by (auto simp: bare_option_def)
        then have "accepted_words more" using "1.IH" [rule_format, of more c] \<open>argv = _\<close> Cons by simp
        ultimately show ?thesis
          using accepted_words_option [of more opt] \<open>argv = _\<close> Cons by simp
      qed
    next
      case False
      then have "arg = ''--no-build''" "parse_options (a\<lparr>ar_build := False\<rparr>) rest = Inr b"
        using "1.prems" Cons by (auto simp: bare_option_def split: if_splits)
      then show ?thesis using "1.IH" Cons accepted_words_option [of rest opt_no_build] by auto
    qed
  qed
qed

text \<open>The command line of given settings.\<close>

definition args_words :: "string \<Rightarrow> nat \<Rightarrow> nat \<Rightarrow> string option \<Rightarrow> bool \<Rightarrow> string list" where
  "args_words dir concurrency port base_url build =
     concat (map option_words
       ([opt_out dir, opt_concurrency (showNat concurrency), opt_port (showNat port)]
        @ (case base_url of None \<Rightarrow> [] | Some u \<Rightarrow> [opt_base_url u]) @ (if build then [] else [opt_no_build])))"

text \<open>
  Writing settings as a command line and parsing it gives the settings back, whatever
  the environment holds, when a directory is named, at least one worker is asked for, and the
  numbers are below 2^53.\<close>

theorem args_roundtrip:
  assumes "dir \<noteq> []" "0 < concurrency" "concurrency < 2 ^ 53" "port < 2 ^ 53"
  shows "parseArgs env_concurrency env_port (args_words dir concurrency port base_url build)
    = Inr \<lparr>ar_out = Some dir, ar_concurrency = js_Fin (of_nat concurrency), ar_port = js_Fin (of_nat port),
           ar_baseUrl = base_url, ar_build = build\<rparr>"
  unfolding parseArgs_def args_words_def
  using parse_options_words [of _ _ "[]"] assms
  by (cases base_url; cases build)
    (simp_all add: default_args_def check_args_def value_number_def string_number_showNat)

lemma args_roundtrip_witness:
  "parseArgs None (Some ''x'') (args_words ''d'' 3 80 (Some ''u'') False)
    = Inr \<lparr>ar_out = Some ''d'', ar_concurrency = js_Fin (of_nat 3), ar_port = js_Fin (of_nat 80),
           ar_baseUrl = Some ''u'', ar_build = False\<rparr>"
  by (rule args_roundtrip) simp_all

text \<open>The port is not checked: a text that is no number, or no text at all, gives NaN.\<close>

lemma string_number_x: "string_number ''x'' = js_NaN"
  by (simp add: string_number_def decimal_number_def read_sign_def read_mantissa_def is_digit_def
      trim_def trimStart_def trimEnd_def is_ws_def char_eval)

lemma port_not_checked:
  "parseArgs None None [''--out'', ''d'', ''--port'', ''x''] = Inr \<lparr>ar_out = Some ''d'',
     ar_concurrency = js_Fin 6, ar_port = js_NaN, ar_baseUrl = None, ar_build = True\<rparr>"
  "parseArgs None None [''--out'', ''d'', ''--port''] = parseArgs None None [''--out'', ''d'', ''--port'', ''x'']"
  by (simp_all add: parseArgs_def default_args_def check_args_def env_number_def value_number_def string_number_x)

section \<open>The plan\<close>

datatype CaptureTheme = capture_light | capture_dark

type_synonym Cell = "string \<times> CaptureTheme"

definition LIGHT_SCENES :: "string list" where
  "LIGHT_SCENES = [''selected'', ''empty'', ''table-mode'', ''body-text'', ''cmdk-open'', ''help-open'']"

text \<open>\<open>Inl\<close>: the unknown scenes of the error.\<close>

definition planCells :: "string list \<Rightarrow> string list + Cell list" where
  "planCells sceneIds =
     (let unknownLight = filter (\<lambda>i. i \<notin> set sceneIds) LIGHT_SCENES
      in if 0 < length unknownLight then Inl unknownLight
         else Inr (map (\<lambda>scene. (scene, capture_dark)) sceneIds
           @ map (\<lambda>scene. (scene, capture_light)) (filter (\<lambda>scene. scene \<in> set LIGHT_SCENES) sceneIds)))"

section \<open>The pool\<close>

text \<open>Cells are their indices. \<open>pl_captured\<close> lists them as their workers finish.\<close>

datatype pump = pump_busy nat | pump_done | pump_failed nat

record Pool =
  pl_next :: nat
  pl_done :: nat
  pl_pumps :: "pump list"
  pl_captured :: "nat list"
  pl_log :: "string list"

text \<open>The head of the loop: take the next cell or end.\<close>

definition pump_loop :: "nat \<Rightarrow> nat \<Rightarrow> pump \<times> nat" where
  "pump_loop cnt next_cell = (if next_cell < cnt then (pump_busy next_cell, next_cell + 1) else (pump_done, next_cell))"

fun start_pumps :: "nat \<Rightarrow> nat \<Rightarrow> nat \<Rightarrow> pump list \<times> nat" where
  "start_pumps cnt 0 next_cell = ([], next_cell)"
| "start_pumps cnt (Suc k) next_cell =
     (let (p, n1) = pump_loop cnt next_cell; (ps, n2) = start_pumps cnt k n1 in (p # ps, n2))"

definition runPool :: "nat \<Rightarrow> nat \<Rightarrow> Pool" where
  "runPool cnt concurrency =
     (let (ps, n) = start_pumps cnt (min concurrency cnt) 0
      in \<lparr>pl_next = n, pl_done = 0, pl_pumps = ps, pl_captured = [], pl_log = []\<rparr>)"

datatype pool_event = worker_ok nat | worker_failed nat

fun pool_step :: "nat \<Rightarrow> (nat \<Rightarrow> string) \<Rightarrow> pool_event \<Rightarrow> Pool \<Rightarrow> Pool" where
  "pool_step cnt file (worker_ok k) p =
     (if k < length (pl_pumps p) then
        (case pl_pumps p ! k of
           pump_busy cell \<Rightarrow>
             (let finished = pl_done p + 1; (q, n) = pump_loop cnt (pl_next p)
              in \<lparr>pl_next = n, pl_done = finished, pl_pumps = (pl_pumps p)[k := q],
                  pl_captured = pl_captured p @ [cell],
                  pl_log = pl_log p @ [''  ['' @ showNat finished @ ''/'' @ showNat cnt @ ''] '' @ file cell]\<rparr>)
         | _ \<Rightarrow> p)
      else p)"
| "pool_step cnt file (worker_failed k) p =
     (if k < length (pl_pumps p) then
        (case pl_pumps p ! k of
           pump_busy cell \<Rightarrow> p\<lparr>pl_pumps := (pl_pumps p)[k := pump_failed cell]\<rparr>
         | _ \<Rightarrow> p)
      else p)"

text \<open>The promise of all pumps: \<open>Some False\<close> when one failed, \<open>Some True\<close> when all ended.\<close>

fun is_busy :: "pump \<Rightarrow> bool" where
  "is_busy (pump_busy c) = True"
| "is_busy p = False"

fun is_failed :: "pump \<Rightarrow> bool" where
  "is_failed (pump_failed c) = True"
| "is_failed p = False"

definition pool_result :: "Pool \<Rightarrow> bool option" where
  "pool_result p = (if list_ex is_failed (pl_pumps p) then Some False
     else if list_ex is_busy (pl_pumps p) then None else Some True)"

section \<open>Lemmas\<close>

fun pump_cells :: "pump \<Rightarrow> nat list" where
  "pump_cells (pump_busy c) = [c]"
| "pump_cells (pump_failed c) = [c]"
| "pump_cells pump_done = []"

definition pool_ok :: "nat \<Rightarrow> nat \<Rightarrow> Pool \<Rightarrow> bool" where
  "pool_ok cnt concurrency p \<longleftrightarrow> length (pl_pumps p) = min concurrency cnt
     \<and> min concurrency cnt \<le> pl_next p \<and> pl_next p \<le> cnt
     \<and> mset (concat (map pump_cells (pl_pumps p))) + mset (pl_captured p) = mset [0..<pl_next p]
     \<and> pl_done p = length (pl_captured p)
     \<and> (pump_done \<in> set (pl_pumps p) \<longrightarrow> pl_next p = cnt)"

lemma start_pumps_eq:
  "n + k \<le> cnt \<Longrightarrow> start_pumps cnt k n = (map pump_busy [n..<n + k], n + k)"
  by (induction k arbitrary: n) (simp_all add: pump_loop_def upt_rec)

lemma concat_cells_busy: "concat (map (pump_cells \<circ> pump_busy) xs) = xs"
  by (induction xs) simp_all

lemma pool_ok_start: "pool_ok cnt concurrency (runPool cnt concurrency)"
  by (auto simp: runPool_def start_pumps_eq pool_ok_def concat_cells_busy)

lemma cells_update:
  assumes "k < length ps" "ps ! k = pump_busy c"
  shows "mset (concat (map pump_cells (ps[k := q]))) + {#c#} = mset (concat (map pump_cells ps)) + mset (pump_cells q)"
proof -
  have ps: "ps = take k ps @ pump_busy c # drop (Suc k) ps" using id_take_nth_drop [OF assms(1)] assms(2) by simp
  have "ps[k := q] = take k ps @ q # drop (Suc k) ps" by (rule upd_conv_take_nth_drop [OF assms(1)])
  then show ?thesis by (subst (2) ps) simp
qed

lemma captured_cells:
  assumes "k < length ps" "ps ! k = pump_busy c" "mset (concat (map pump_cells ps)) + mset cs = mset [0..<n]"
  shows "mset (concat (map pump_cells (ps[k := q]))) + mset (cs @ [c]) = mset [0..<n] + mset (pump_cells q)"
proof -
  have "mset (concat (map pump_cells (ps[k := q]))) + mset (cs @ [c])
      = (mset (concat (map pump_cells (ps[k := q]))) + {#c#}) + mset cs" by simp
  also have "\<dots> = (mset (concat (map pump_cells ps)) + mset cs) + mset (pump_cells q)"
    unfolding cells_update [OF assms(1,2)] by (simp add: union_ac)
  finally show ?thesis unfolding assms(3) .
qed

lemma done_update: "pump_done \<in> set (ps[k := q]) \<Longrightarrow> q = pump_done \<or> pump_done \<in> set ps"
  using set_update_subset_insert [of ps k q] by auto

lemma pool_ok_step:
  assumes "pool_ok cnt concurrency p"
  shows "pool_ok cnt concurrency (pool_step cnt file e p)"
proof (cases e)
  case (worker_failed k)
  show ?thesis
  proof (cases "k < length (pl_pumps p) \<and> (\<exists>c. pl_pumps p ! k = pump_busy c)")
    case True
    then obtain c where c: "k < length (pl_pumps p)" "pl_pumps p ! k = pump_busy c" by blast
    show ?thesis using assms cells_update [OF c, of "pump_failed c"] worker_failed c
      by (auto simp: pool_ok_def dest: done_update)
  next
    case False
    then show ?thesis using assms worker_failed by (auto split: pump.split)
  qed
next
  case (worker_ok k)
  show ?thesis
  proof (cases "k < length (pl_pumps p) \<and> (\<exists>c. pl_pumps p ! k = pump_busy c)")
    case True
    then obtain c where c: "k < length (pl_pumps p)" "pl_pumps p ! k = pump_busy c" by blast
    have cells: "mset (concat (map pump_cells ((pl_pumps p)[k := q]))) + mset (pl_captured p @ [c])
        = mset [0..<pl_next p] + mset (pump_cells q)" for q
      using assms by (intro captured_cells [OF c]) (simp add: pool_ok_def del: mset_upt)
    show ?thesis
    proof (cases "pl_next p < cnt")
      case True
      then show ?thesis using assms worker_ok c cells [of "pump_busy (pl_next p)"]
        by (auto simp: pool_ok_def pump_loop_def dest: done_update simp del: mset_upt)
    next
      case False
      then show ?thesis using assms worker_ok c cells [of pump_done]
        by (auto simp: pool_ok_def pump_loop_def dest: done_update simp del: mset_upt)
    qed
  next
    case False
    then show ?thesis using assms worker_ok by (auto split: pump.split)
  qed
qed

definition pool_run :: "nat \<Rightarrow> nat \<Rightarrow> (nat \<Rightarrow> string) \<Rightarrow> pool_event list \<Rightarrow> Pool" where
  "pool_run cnt concurrency file es = fold (pool_step cnt file) es (runPool cnt concurrency)"

interpretation pool: started_machine "pool_step cnt filename" "pool_ok cnt concurrency" "runPool cnt concurrency"
  for cnt concurrency :: nat and filename :: "nat \<Rightarrow> string"
  by unfold_locales (simp_all add: pool_ok_step pool_ok_start)

lemma pool_ok_run: "pool_ok cnt concurrency (pool_run cnt concurrency file es)"
  unfolding pool_run_def by (rule pool.ok_reached)

lemma length_cells: "length (concat (map pump_cells ps)) = length (filter is_busy ps) + length (filter is_failed ps)"
proof (induction ps)
  case (Cons p ps)
  then show ?case by (cases p) simp_all
qed simp

lemma all_busy:
  "pump_done \<notin> set ps \<Longrightarrow> \<not> list_ex is_failed ps \<Longrightarrow> filter is_busy ps = ps"
proof (induction ps)
  case (Cons p ps)
  then show ?case by (cases p) simp_all
qed simp

text \<open>
  In every state of a run: the cells in flight, failed and captured are the first ones, each once;
  no more are in flight than allowed; without a failure exactly as many are in flight as are
  allowed and left; and the run is resolved only when all cells are captured, each once.
\<close>

theorem pool_bounded_and_exact:
  assumes "p = pool_run cnt concurrency file es"
  shows "length (filter is_busy (pl_pumps p)) \<le> concurrency
    \<and> (pool_result p \<noteq> Some False \<longrightarrow>
         length (filter is_busy (pl_pumps p)) = min concurrency (cnt - pl_done p))
    \<and> (0 < concurrency \<longrightarrow> pool_result p = Some True \<longrightarrow> mset (pl_captured p) = mset [0..<cnt])"
proof -
  have ok: "pool_ok cnt concurrency p" unfolding assms by (rule pool_ok_run)
  have bound: "length (filter is_busy (pl_pumps p)) \<le> concurrency"
    using ok length_filter_le [of is_busy "pl_pumps p"] unfolding pool_ok_def by linarith
  have cells: "length (filter is_busy (pl_pumps p)) + length (filter is_failed (pl_pumps p)) + pl_done p = pl_next p"
    using ok length_cells [of "pl_pumps p"] arg_cong [of _ _ size] unfolding pool_ok_def
    by (metis diff_zero length_upt size_mset size_union)
  have full: "length (filter is_busy (pl_pumps p)) = min concurrency (cnt - pl_done p)"
    if "pool_result p \<noteq> Some False"
  proof -
    have none: "\<not> list_ex is_failed (pl_pumps p)" using that by (auto simp: pool_result_def split: if_splits)
    then have "filter is_failed (pl_pumps p) = []" by (simp add: filter_empty_conv list_ex_iff)
    then have next_cell: "length (filter is_busy (pl_pumps p)) + pl_done p = pl_next p" using cells by simp
    show ?thesis
    proof (cases "pl_next p = cnt")
      case True
      then show ?thesis using next_cell bound by simp
    next
      case False
      then have "pump_done \<notin> set (pl_pumps p)" "pl_next p < cnt" using ok by (auto simp: pool_ok_def)
      then have "length (filter is_busy (pl_pumps p)) = min concurrency cnt" "min concurrency cnt < cnt"
        using all_busy [OF _ none] ok by (auto simp: pool_ok_def)
      then show ?thesis using next_cell \<open>pl_next p < cnt\<close> by linarith
    qed
  qed
  have "mset (pl_captured p) = mset [0..<cnt]" if "0 < concurrency" "pool_result p = Some True"
  proof -
    have "\<not> list_ex is_failed (pl_pumps p)" "\<not> list_ex is_busy (pl_pumps p)"
      using that(2) by (auto simp: pool_result_def split: if_splits)
    then have none: "filter is_busy (pl_pumps p) = []" "filter is_failed (pl_pumps p) = []"
      by (simp_all add: filter_empty_conv list_ex_iff)
    then have "length (concat (map pump_cells (pl_pumps p))) = 0" by (simp only: length_cells list.size)
    then have empty: "mset (concat (map pump_cells (pl_pumps p))) = {#}" by (simp only: length_0_conv mset.simps)
    have "pl_done p = cnt"
      using full that none(1) cells ok by (auto simp: pool_ok_def min_def split: if_splits)
    then have "pl_next p = cnt" using cells none by simp
    then show ?thesis using ok empty unfolding pool_ok_def by (simp del: mset_upt)
  qed
  then show ?thesis using bound full by blast
qed

end
