(* ===== verification/Script.thy ===== *)
theory Script
  imports Capture
begin

text \<open>
  The process life cycle the three browser scripts share (\<open>capture-scenes.ts\<close>, \<open>take-bestiary.ts\<close>,
  \<open>take-screenshots.ts\<close>): a main program that awaits, spawns child processes, launches a browser
  and may fail at any call; signal handlers that run \<open>cleanup\<close> beside it; and \<open>cleanup\<close> itself,
  which closes the browser, terminates and kills the children and ends the process.

  The main program is a list of operations. The process is single-threaded: a handler or a timer
  runs only while the main program awaits something, so the steps of the others are enabled only
  when the next operation of the main program is one that waits (\<open>yields\<close>). Children are numbered
  in the order they are spawned. The labels carry all the choices of the host.

  The scripts handle SIGINT and SIGTERM only. Any other end from outside, such as SIGHUP or a
  library that ends the process, is the label \<open>l_killed\<close>. A child that cannot be started has no pid:
  \<open>spawn\<close> returns, the script throws, and the host later emits \<open>error\<close> on the child; as nobody
  listens for it, that ends the process with code 1 (\<open>l_crash\<close>), cleaned up or not.

  Shown: when the process ends by itself, every child it ever spawned has been killed, unless the
  kill of a cleanup ran while a mock server was still about to listen; it ends with code 0 only
  after the whole main program; and after a signal it can always end.
\<close>

section \<open>Operations and states\<close>

datatype script_op =
    so_await string
  | so_sync string
  | so_spawn
  | so_create_server
  | so_listen
  | so_launch
  | so_close_browser
  | so_pool nat nat
  | so_throw
  | so_exit nat

text \<open>\<open>cl_sleeping\<close> carries the children the cleanup read before its wait.\<close>

datatype cleanup_phase = cl_closing | cl_sleeping "nat list" | cl_stopping

text \<open>\<open>rn_error\<close>: the \<open>error\<close> event of a child that could not be started is still to come.\<close>

record ScriptRun =
  rn_todo :: "script_op list"
  rn_completed :: "script_op list"
  rn_failed :: bool
  rn_error :: bool
  rn_browser :: bool
  rn_server :: bool
  rn_spawned :: "nat list"
  rn_terminated :: "nat list"
  rn_killed :: "nat list"
  rn_pool :: "(nat \<times> Pool) option"
  rn_cleanups :: "(cleanup_phase \<times> nat) list"
  rn_exit :: "nat option"

text \<open>\<open>yields\<close>: the main program waits, so the event loop is free. A pool waits once it is started.\<close>

fun waits :: "bool \<Rightarrow> script_op \<Rightarrow> bool" where
  "waits started (so_await w) = True"
| "waits started so_listen = True"
| "waits started so_launch = True"
| "waits started so_close_browser = True"
| "waits started (so_pool n c) = started"
| "waits started op = False"

definition yields :: "ScriptRun \<Rightarrow> bool" where
  "yields r \<longleftrightarrow> (case rn_todo r of
       [] \<Rightarrow> True
     | op # rest \<Rightarrow> waits (rn_pool r \<noteq> None) op)"

section \<open>Cleanup\<close>

text \<open>
  After the browser is closed: terminate the children and wait, or, where the script waits only for
  a child it has (\<open>always = False\<close>), end the process at once when there is none.
\<close>

definition finish_close :: "bool \<Rightarrow> nat \<Rightarrow> ScriptRun \<Rightarrow> ScriptRun" where
  "finish_close always c r =
     (if always \<or> rn_spawned r \<noteq> []
      then r\<lparr>rn_browser := False, rn_terminated := rn_terminated r @ rn_spawned r,
             rn_cleanups := rn_cleanups r @ [(cl_sleeping (rn_spawned r), c)]\<rparr>
      else r\<lparr>rn_browser := False, rn_exit := Some c\<rparr>)"

text \<open>\<open>cleanup()\<close>, followed by \<open>process.exit(c)\<close>.\<close>

definition begin_cleanup :: "bool \<Rightarrow> nat \<Rightarrow> ScriptRun \<Rightarrow> ScriptRun" where
  "begin_cleanup always c r =
     (if rn_browser r then r\<lparr>rn_cleanups := rn_cleanups r @ [(cl_closing, c)]\<rparr> else finish_close always c r)"

text \<open>
  After the wait: kill the children, all there are now in the scripts that keep a list, or those
  read before the wait in the one that keeps a single child; a mock server is closed before the
  process ends.
\<close>

definition finish_sleep :: "bool \<Rightarrow> nat list \<Rightarrow> nat \<Rightarrow> ScriptRun \<Rightarrow> ScriptRun" where
  "finish_sleep always pids c r =
     (let r1 = r\<lparr>rn_killed := rn_killed r @ (if always then rn_spawned r else pids)\<rparr>
      in if rn_server r then r1\<lparr>rn_cleanups := rn_cleanups r @ [(cl_stopping, c)]\<rparr> else r1\<lparr>rn_exit := Some c\<rparr>)"

definition forget :: "cleanup_phase \<Rightarrow> nat \<Rightarrow> ScriptRun \<Rightarrow> ScriptRun" where
  "forget ph c r = r\<lparr>rn_cleanups := remove1 (ph, c) (rn_cleanups r)\<rparr>"

section \<open>The main program\<close>

text \<open>The next operation is done; after the last one the process cleans up and ends with code 0.\<close>

definition advance :: "bool \<Rightarrow> ScriptRun \<Rightarrow> ScriptRun" where
  "advance always r =
     (case rn_todo r of
        [] \<Rightarrow> r
      | op # rest \<Rightarrow>
          (let r1 = r\<lparr>rn_todo := rest, rn_completed := rn_completed r @ [op]\<rparr>
           in if rest = [] then begin_cleanup always 0 r1 else r1))"

definition fail :: "bool \<Rightarrow> ScriptRun \<Rightarrow> ScriptRun" where
  "fail always r = begin_cleanup always 1 (r\<lparr>rn_todo := [], rn_failed := True\<rparr>)"

fun perform :: "script_op \<Rightarrow> ScriptRun \<Rightarrow> ScriptRun" where
  "perform so_spawn r = r\<lparr>rn_spawned := rn_spawned r @ [length (rn_spawned r)]\<rparr>"
| "perform so_create_server r = r\<lparr>rn_server := True\<rparr>"
| "perform so_launch r = r\<lparr>rn_browser := True\<rparr>"
| "perform so_close_browser r = r\<lparr>rn_browser := False\<rparr>"
| "perform op r = r"

definition script_start :: "script_op list \<Rightarrow> ScriptRun" where
  "script_start prog =
     \<lparr>rn_todo = prog, rn_completed = [], rn_failed = False, rn_error = False, rn_browser = False,
      rn_server = False, rn_spawned = [], rn_terminated = [], rn_killed = [], rn_pool = None, rn_cleanups = [], rn_exit = None\<rparr>"

datatype script_label =
    l_ok | l_fail | l_unstarted | l_pool pool_event | l_signal nat | l_closed nat | l_slept "nat list" nat
  | l_stopped nat | l_crash | l_killed nat

text \<open>Operations that are done in one go, and those that may fail.\<close>

fun simple_op :: "script_op \<Rightarrow> bool" where
  "simple_op (so_pool n c) = False"
| "simple_op so_throw = False"
| "simple_op (so_exit c) = False"
| "simple_op op = True"

fun may_fail :: "script_op \<Rightarrow> bool" where
  "may_fail (so_pool n c) = False"
| "may_fail (so_exit c) = False"
| "may_fail op = True"

inductive script_step :: "bool \<Rightarrow> (nat \<Rightarrow> string) \<Rightarrow> script_label \<Rightarrow> ScriptRun \<Rightarrow> ScriptRun \<Rightarrow> bool"
  for always :: bool and nm :: "nat \<Rightarrow> string" where
  Do: "rn_exit r = None \<Longrightarrow> rn_todo r = op # rest \<Longrightarrow> simple_op op \<Longrightarrow>
     script_step always nm l_ok r (advance always (perform op r))"
| Fail: "rn_exit r = None \<Longrightarrow> rn_todo r = op # rest \<Longrightarrow> may_fail op \<Longrightarrow>
     script_step always nm l_fail r (fail always r)"
| Unstarted: "rn_exit r = None \<Longrightarrow> rn_todo r = so_spawn # rest \<Longrightarrow>
     script_step always nm l_unstarted r (fail always (r\<lparr>rn_error := True\<rparr>))"
| Exit: "rn_exit r = None \<Longrightarrow> rn_todo r = so_exit c # rest \<Longrightarrow>
     script_step always nm l_ok r (r\<lparr>rn_exit := Some c\<rparr>)"
| Pool_Start: "rn_exit r = None \<Longrightarrow> rn_todo r = so_pool n c # rest \<Longrightarrow> rn_pool r = None \<Longrightarrow>
     script_step always nm l_ok r (r\<lparr>rn_pool := Some (n, runPool n c)\<rparr>)"
| Pool_Event: "rn_exit r = None \<Longrightarrow> rn_pool r = Some (n, p) \<Longrightarrow> yields r \<Longrightarrow>
     script_step always nm (l_pool e) r (r\<lparr>rn_pool := Some (n, pool_step n nm e p)\<rparr>)"
| Pool_Done: "rn_exit r = None \<Longrightarrow> rn_todo r = so_pool n c # rest \<Longrightarrow> rn_pool r = Some (n, p) \<Longrightarrow>
     pool_result p = Some True \<Longrightarrow> script_step always nm l_ok r (advance always r)"
| Pool_Failed: "rn_exit r = None \<Longrightarrow> rn_todo r = so_pool n c # rest \<Longrightarrow> rn_pool r = Some (n, p) \<Longrightarrow>
     pool_result p = Some False \<Longrightarrow> script_step always nm l_fail r (fail always r)"
| Signal: "rn_exit r = None \<Longrightarrow> yields r \<Longrightarrow> c \<in> set [130, 143] \<Longrightarrow>
     script_step always nm (l_signal c) r (begin_cleanup always c r)"
| Closed: "rn_exit r = None \<Longrightarrow> yields r \<Longrightarrow> (cl_closing, c) \<in> set (rn_cleanups r) \<Longrightarrow>
     script_step always nm (l_closed c) r (finish_close always c (forget cl_closing c r))"
| Slept: "rn_exit r = None \<Longrightarrow> yields r \<Longrightarrow> (cl_sleeping pids, c) \<in> set (rn_cleanups r) \<Longrightarrow>
     script_step always nm (l_slept pids c) r (finish_sleep always pids c (forget (cl_sleeping pids) c r))"
| Stopped: "rn_exit r = None \<Longrightarrow> yields r \<Longrightarrow> (cl_stopping, c) \<in> set (rn_cleanups r) \<Longrightarrow>
     script_step always nm (l_stopped c) r ((forget cl_stopping c r)\<lparr>rn_exit := Some c\<rparr>)"
| Crash: "rn_exit r = None \<Longrightarrow> yields r \<Longrightarrow> rn_error r \<Longrightarrow>
     script_step always nm l_crash r (r\<lparr>rn_exit := Some 1\<rparr>)"
| Killed: "rn_exit r = None \<Longrightarrow> c \<noteq> 0 \<Longrightarrow>
     script_step always nm (l_killed c) r (r\<lparr>rn_exit := Some c\<rparr>)"

code_pred (modes: i \<Rightarrow> i \<Rightarrow> i \<Rightarrow> i \<Rightarrow> o \<Rightarrow> bool as next_run) script_step .

inductive script_runs :: "bool \<Rightarrow> (nat \<Rightarrow> string) \<Rightarrow> script_label list \<Rightarrow> ScriptRun \<Rightarrow> ScriptRun \<Rightarrow> bool"
  for always :: bool and nm :: "nat \<Rightarrow> string" where
  Refl: "script_runs always nm [] r r"
| Step: "script_step always nm l r s \<Longrightarrow> script_runs always nm ls s t \<Longrightarrow> script_runs always nm (l # ls) r t"

code_pred (modes: i \<Rightarrow> i \<Rightarrow> i \<Rightarrow> i \<Rightarrow> o \<Rightarrow> bool as last_run) script_runs .

lemmas script_intros = script_step.intros script_runs.intros

inductive_cases script_stepE: "script_step always nm l r s"
inductive_simps runs_Cons: "script_runs always nm (l # ls) r t"
inductive_simps runs_Nil [simp]: "script_runs always nm [] r t"

text \<open>The steps as a function: a label leads to at most one state.\<close>

definition script_next :: "bool \<Rightarrow> (nat \<Rightarrow> string) \<Rightarrow> script_label \<Rightarrow> ScriptRun \<Rightarrow> ScriptRun option" where
  "script_next always nm l r =
     (if rn_exit r \<noteq> None then None
      else case l of
        l_ok \<Rightarrow> (case rn_todo r of
            [] \<Rightarrow> None
          | op # rest \<Rightarrow> if simple_op op then Some (advance always (perform op r)) else (case op of
                so_exit c \<Rightarrow> Some (r\<lparr>rn_exit := Some c\<rparr>)
              | so_pool n c \<Rightarrow> (case rn_pool r of
                    None \<Rightarrow> Some (r\<lparr>rn_pool := Some (n, runPool n c)\<rparr>)
                  | Some (m, p) \<Rightarrow> if m = n \<and> pool_result p = Some True then Some (advance always r) else None)
              | _ \<Rightarrow> None))
      | l_fail \<Rightarrow> (case rn_todo r of
            [] \<Rightarrow> None
          | op # rest \<Rightarrow> if may_fail op then Some (fail always r) else (case op of
                so_pool n c \<Rightarrow> (case rn_pool r of
                    None \<Rightarrow> None
                  | Some (m, p) \<Rightarrow> if m = n \<and> pool_result p = Some False then Some (fail always r) else None)
              | _ \<Rightarrow> None))
      | l_unstarted \<Rightarrow> (case rn_todo r of
            so_spawn # rest \<Rightarrow> Some (fail always (r\<lparr>rn_error := True\<rparr>))
          | _ \<Rightarrow> None)
      | l_pool e \<Rightarrow> (case rn_pool r of
            None \<Rightarrow> None
          | Some (n, p) \<Rightarrow> if yields r then Some (r\<lparr>rn_pool := Some (n, pool_step n nm e p)\<rparr>) else None)
      | l_signal c \<Rightarrow> if yields r \<and> c \<in> set [130, 143] then Some (begin_cleanup always c r) else None
      | l_closed c \<Rightarrow> if yields r \<and> (cl_closing, c) \<in> set (rn_cleanups r)
          then Some (finish_close always c (forget cl_closing c r)) else None
      | l_slept pids c \<Rightarrow> if yields r \<and> (cl_sleeping pids, c) \<in> set (rn_cleanups r)
          then Some (finish_sleep always pids c (forget (cl_sleeping pids) c r)) else None
      | l_stopped c \<Rightarrow> if yields r \<and> (cl_stopping, c) \<in> set (rn_cleanups r)
          then Some ((forget cl_stopping c r)\<lparr>rn_exit := Some c\<rparr>) else None
      | l_crash \<Rightarrow> if yields r \<and> rn_error r then Some (r\<lparr>rn_exit := Some 1\<rparr>) else None
      | l_killed c \<Rightarrow> if c \<noteq> 0 then Some (r\<lparr>rn_exit := Some c\<rparr>) else None)"

lemma step_next: "script_step always nm l r s \<Longrightarrow> script_next always nm l r = Some s"
  by (cases rule: script_step.cases, assumption) (simp_all add: script_next_def)

lemma next_step: "script_next always nm l r = Some s \<Longrightarrow> script_step always nm l r s"
  by (cases l)
    (auto simp: script_next_def simp del: One_nat_def
      split: if_splits list.splits script_op.splits option.splits prod.splits intro: script_step.intros)

lemma step_iff_next: "script_step always nm l r s \<longleftrightarrow> script_next always nm l r = Some s"
  using step_next next_step by blast

fun script_last :: "bool \<Rightarrow> (nat \<Rightarrow> string) \<Rightarrow> script_label list \<Rightarrow> ScriptRun \<Rightarrow> ScriptRun option" where
  "script_last always nm [] r = Some r"
| "script_last always nm (l # ls) r =
     (case script_next always nm l r of None \<Rightarrow> None | Some s \<Rightarrow> script_last always nm ls s)"

lemma runs_iff_last: "script_runs always nm ls r t \<longleftrightarrow> script_last always nm ls r = Some t"
proof (induction ls arbitrary: r)
  case (Cons l ls)
  then show ?case by (auto simp: runs_Cons step_iff_next split: option.splits)
qed auto

text \<open>A process that has ended does nothing more.\<close>

lemma exited_no_step: "rn_exit r = Some c \<Longrightarrow> \<not> script_step always nm l r s"
  by (auto elim: script_stepE)


section \<open>Every child is killed\<close>

definition late_spawn :: "script_op list \<Rightarrow> bool" where
  "late_spawn ops \<longleftrightarrow> so_spawn \<in> set (dropWhile ((=) so_spawn) ops)"

fun after_listen :: "script_op list \<Rightarrow> script_op list" where
  "after_listen (so_listen # ops) = ops"
| "after_listen ops = ops"

text \<open>
  What is asked of a main program: once its mock server listens it spawns its children without a
  wait in between, a program that ends the process by itself spawns none, and a script that keeps
  a single child spawns at most one.
\<close>

fun spawns_ok :: "script_op list \<Rightarrow> bool" where
  "spawns_ok [] = True"
| "spawns_ok (op # ops) = ((op = so_create_server \<longrightarrow> \<not> late_spawn (after_listen ops)) \<and> spawns_ok ops)"

fun is_exit :: "script_op \<Rightarrow> bool" where
  "is_exit (so_exit c) = True"
| "is_exit op = False"

definition script_ok :: "bool \<Rightarrow> script_op list \<Rightarrow> bool" where
  "script_ok always prog \<longleftrightarrow> spawns_ok prog \<and> (list_ex is_exit prog \<longrightarrow> so_spawn \<notin> set prog)
     \<and> so_exit 0 \<notin> set prog \<and> (\<not> always \<longrightarrow> count_list prog so_spawn \<le> 1)"

text \<open>
  The ends that no cleanup can prevent, and a kill that runs while the mock server is about to
  listen: the program goes on to spawn while the cleanup waits for the server to close.
\<close>

fun abrupt :: "script_label \<Rightarrow> bool" where
  "abrupt l_crash = True"
| "abrupt (l_killed c) = True"
| "abrupt l = False"

fun early_kill :: "script_label \<Rightarrow> ScriptRun \<Rightarrow> bool" where
  "early_kill (l_slept pids c) r = (case rn_todo r of so_listen # ops \<Rightarrow> True | _ \<Rightarrow> False)"
| "early_kill l r = False"

fun kills_early :: "bool \<Rightarrow> (nat \<Rightarrow> string) \<Rightarrow> script_label list \<Rightarrow> ScriptRun \<Rightarrow> bool" where
  "kills_early always nm [] r = False"
| "kills_early always nm (l # ls) r =
     (early_kill l r \<or> (case script_next always nm l r of None \<Rightarrow> False | Some s \<Rightarrow> kills_early always nm ls s))"

text \<open>
  The invariant: \<open>children_ok\<close> for all scripts; \<open>single_ok\<close> for the one that keeps a single child,
  whose waiting cleanups all have that child.
\<close>

definition children_ok :: "ScriptRun \<Rightarrow> bool" where
  "children_ok r \<longleftrightarrow> spawns_ok (rn_todo r)
     \<and> (rn_server r \<longrightarrow> \<not> late_spawn (after_listen (rn_todo r)))
     \<and> (rn_exit r \<noteq> None \<longrightarrow> set (rn_spawned r) \<subseteq> set (rn_killed r))
     \<and> (\<forall>c. (cl_stopping, c) \<in> set (rn_cleanups r) \<longrightarrow>
           set (rn_spawned r) \<subseteq> set (rn_killed r) \<and> so_spawn \<notin> set (rn_todo r))
     \<and> (list_ex is_exit (rn_todo r) \<longrightarrow> rn_spawned r = [] \<and> so_spawn \<notin> set (rn_todo r))"

definition single_ok :: "ScriptRun \<Rightarrow> bool" where
  "single_ok r \<longleftrightarrow> count_list (rn_todo r) so_spawn + length (rn_spawned r) \<le> 1
     \<and> (\<forall>pids c. (cl_sleeping pids, c) \<in> set (rn_cleanups r) \<longrightarrow> pids = rn_spawned r \<and> pids \<noteq> [])"

lemma yields_no_spawn: "yields r \<Longrightarrow> \<not> late_spawn (rn_todo r) \<Longrightarrow> so_spawn \<notin> set (rn_todo r)"
  by (cases "rn_todo r"; cases "hd (rn_todo r)") (auto simp: yields_def late_spawn_def)

lemma late_spawn_Cons: "late_spawn ops \<Longrightarrow> late_spawn (op # ops)"
  by (auto simp: late_spawn_def dest: set_dropWhileD)

lemma after_listen_cases: "(\<exists>ops'. ops = so_listen # ops' \<and> after_listen ops = ops') \<or> after_listen ops = ops"
  by (cases ops rule: after_listen.cases) simp_all

lemma late_after: "late_spawn (after_listen ops) \<Longrightarrow> late_spawn ops"
  using after_listen_cases [of ops] late_spawn_Cons by metis

lemma late_rest: "\<not> late_spawn (after_listen (op # rest)) \<Longrightarrow> \<not> late_spawn (after_listen rest)"
  using after_listen_cases [of "op # rest"] late_after [of rest] late_spawn_Cons [of rest op] by auto

lemma children_finish_close: "children_ok r \<Longrightarrow> children_ok (finish_close always c r)"
  by (auto simp: children_ok_def finish_close_def)

lemma children_begin_cleanup: "children_ok r \<Longrightarrow> children_ok (begin_cleanup always c r)"
  using children_finish_close by (auto simp: children_ok_def begin_cleanup_def)

lemma children_forget: "children_ok r \<Longrightarrow> children_ok (forget ph c r)"
  by (auto simp: children_ok_def forget_def dest: notin_set_remove1 set_remove1_subset [THEN subsetD])

lemma children_finish_sleep:
  assumes "children_ok r" "yields r" "after_listen (rn_todo r) = rn_todo r" "always \<or> pids = rn_spawned r"
  shows "children_ok (finish_sleep always pids c r)"
proof -
  have "rn_server r \<Longrightarrow> so_spawn \<notin> set (rn_todo r)"
    using assms(1-3) yields_no_spawn by (auto simp: children_ok_def)
  then show ?thesis using assms(1,4) by (auto simp: children_ok_def finish_sleep_def Let_def)
qed

lemma children_fail: "children_ok r \<Longrightarrow> children_ok (fail always r)"
  unfolding fail_def by (rule children_begin_cleanup) (simp add: children_ok_def late_spawn_def)

lemma children_advance: "children_ok r \<Longrightarrow> children_ok (advance always r)"
proof (cases "rn_todo r")
  case (Cons op rest)
  assume "children_ok r"
  then have "children_ok (r\<lparr>rn_todo := rest, rn_completed := rn_completed r @ [op]\<rparr>)"
    using Cons late_rest [of op rest] by (auto simp: children_ok_def)
  then show ?thesis using Cons by (auto simp: advance_def Let_def intro: children_begin_cleanup)
qed (simp add: advance_def)

lemma children_perform_advance:
  assumes "children_ok r" "rn_todo r = op # rest" "rn_exit r = None"
  shows "children_ok (advance always (perform op r))"
proof (cases "op = so_spawn \<or> op = so_create_server")
  case True
  then have "children_ok ((perform op r)\<lparr>rn_todo := rest, rn_completed := rn_completed r @ [op]\<rparr>)"
    using assms late_rest [of op rest] by (auto simp: children_ok_def)
  moreover have "rn_todo (perform op r) = op # rest" "rn_completed (perform op r) = rn_completed r"
    using True assms(2) by auto
  ultimately show ?thesis by (auto simp: advance_def Let_def intro: children_begin_cleanup)
next
  case False
  then have "children_ok (perform op r)" using assms(1) by (cases op) (auto simp: children_ok_def)
  then show ?thesis by (rule children_advance)
qed

lemmas children_steps = children_perform_advance children_fail children_advance children_begin_cleanup
  children_finish_close children_forget

lemma yields_cong: "rn_todo r = rn_todo s \<Longrightarrow> rn_pool r = rn_pool s \<Longrightarrow> yields r = yields s"
  by (simp add: yields_def split: list.split)

lemma yields_cleanup [simp]:
  "yields (forget ph c r) = yields r" "yields (finish_close always c r) = yields r"
  "yields (begin_cleanup always c r) = yields r"
  by (rule yields_cong; simp add: forget_def finish_close_def begin_cleanup_def)+

text \<open>The script with a single child.\<close>

lemma single_finish_close: "single_ok r \<Longrightarrow> single_ok (finish_close False c r)"
  by (auto simp: single_ok_def finish_close_def)

lemma single_begin_cleanup: "single_ok r \<Longrightarrow> single_ok (begin_cleanup False c r)"
  using single_finish_close by (auto simp: single_ok_def begin_cleanup_def)

lemma single_forget: "single_ok r \<Longrightarrow> single_ok (forget ph c r)"
  by (auto simp: single_ok_def forget_def dest: set_remove1_subset [THEN subsetD])

lemma single_fail: "single_ok r \<Longrightarrow> single_ok (fail False r)"
  unfolding fail_def by (rule single_begin_cleanup) (simp add: single_ok_def)

lemma single_advance:
  assumes "single_ok (r\<lparr>rn_todo := rest\<rparr>)" "rn_todo r = op # rest"
  shows "single_ok (advance False r)"
proof -
  have "single_ok (r\<lparr>rn_todo := rest, rn_completed := rn_completed r @ [op]\<rparr>)"
    using assms(1) by (simp add: single_ok_def)
  then show ?thesis using assms(2) by (auto simp: advance_def Let_def intro: single_begin_cleanup)
qed

lemma single_op: "single_ok r \<Longrightarrow> rn_todo r = op # rest \<Longrightarrow> single_ok ((perform op r)\<lparr>rn_todo := rest\<rparr>)"
  by (cases op) (auto simp: single_ok_def)

lemma single_frame [simp]:
  "single_ok (r\<lparr>rn_exit := e\<rparr>) = single_ok r" "single_ok (r\<lparr>rn_pool := p\<rparr>) = single_ok r"
  "single_ok (r\<lparr>rn_error := b\<rparr>) = single_ok r"
  by (simp_all add: single_ok_def)

lemma single_step: "script_step always nm l r s \<Longrightarrow> \<not> always \<Longrightarrow> single_ok r \<Longrightarrow> single_ok s"
proof (induction rule: script_step.induct)
  case (Do r op rest)
  have "rn_todo (perform op r) = op # rest" using Do.hyps(2) by (cases op) simp_all
  then show ?case using single_advance [OF single_op [OF Do.prems(2) Do.hyps(2)]] Do.prems(1) by simp
next
  case (Pool_Done r n c rest p)
  then have "single_ok (r\<lparr>rn_todo := rest\<rparr>)" by (auto simp: single_ok_def)
  then show ?case using Pool_Done by (simp add: single_advance)
next
  case (Slept r pids c)
  then show ?case using single_forget [of r "cl_sleeping pids" c]
    by (auto simp: single_ok_def finish_sleep_def forget_def Let_def)
next
  case (Unstarted r rest)
  then show ?case by (simp add: single_fail)
qed (simp_all add: single_fail single_begin_cleanup single_finish_close single_forget)

definition keeps_children :: "bool \<Rightarrow> ScriptRun \<Rightarrow> bool" where
  "keeps_children always r \<longleftrightarrow> children_ok r \<and> (\<not> always \<longrightarrow> single_ok r)"

lemma children_step:
  "script_step always nm l r s \<Longrightarrow> keeps_children always r \<Longrightarrow> \<not> abrupt l \<Longrightarrow> \<not> early_kill l r \<Longrightarrow> children_ok s"
  unfolding keeps_children_def
proof (induction rule: script_step.induct)
  case (Exit r c rest)
  then show ?case by (simp add: children_ok_def)
next
  case (Stopped r c)
  then show ?case using children_forget [of r] by (auto simp: children_ok_def forget_def)
next
  case (Pool_Start r n c rest)
  then show ?case by (simp add: children_ok_def)
next
  case (Pool_Event r n p e)
  then show ?case by (simp add: children_ok_def)
next
  case (Unstarted r rest)
  then show ?case by (intro children_fail) (simp add: children_ok_def)
next
  case (Slept r pids c)
  let ?r = "forget (cl_sleeping pids) c r"
  have "after_listen (rn_todo r) = rn_todo r"
    using Slept.prems(3) by (cases "rn_todo r" rule: after_listen.cases) simp_all
  moreover have "always \<or> pids = rn_spawned r" using Slept.hyps(3) Slept.prems(1) by (auto simp: single_ok_def)
  ultimately show ?case
    using Slept by (intro children_finish_sleep) (simp_all add: children_forget, simp_all add: forget_def)
qed (auto intro: children_steps)

text \<open>An invariant of the steps holds at the end of a run.\<close>

lemma runs_invariant:
  assumes "\<And>l r s. script_step always nm l r s \<Longrightarrow> P r \<Longrightarrow> P s"
  shows "script_runs always nm ls r t \<Longrightarrow> P r \<Longrightarrow> P t"
  by (induction rule: script_runs.induct) (auto intro: assms)

lemma children_run:
  "script_runs always nm ls r t \<Longrightarrow> list_all (\<lambda>l. \<not> abrupt l) ls \<Longrightarrow> \<not> kills_early always nm ls r \<Longrightarrow>
   keeps_children always r \<Longrightarrow> keeps_children always t"
proof (induction rule: script_runs.induct)
  case (Step l r s ls t)
  have "keeps_children always s"
    using children_step [OF Step.hyps(1)] single_step [OF Step.hyps(1)] Step.prems by (simp add: keeps_children_def)
  then show ?case using Step step_next [OF Step.hyps(1)] by simp
qed

lemma children_start: "script_ok always prog \<Longrightarrow> keeps_children always (script_start prog)"
  by (simp add: keeps_children_def script_ok_def children_ok_def single_ok_def script_start_def)

text \<open>A program without a mock server never kills too early.\<close>

lemma listens_kept: "script_step always nm l r s \<Longrightarrow> so_listen \<notin> set (rn_todo r) \<Longrightarrow> so_listen \<notin> set (rn_todo s)"
proof (induction rule: script_step.induct)
  case (Do r op rest)
  then show ?case by (cases op) (auto simp: advance_def Let_def begin_cleanup_def finish_close_def)
qed (auto simp: advance_def fail_def Let_def begin_cleanup_def finish_close_def finish_sleep_def forget_def)

lemma no_server_no_early_kill: "so_listen \<notin> set (rn_todo r) \<Longrightarrow> \<not> kills_early always nm ls r"
proof (induction ls arbitrary: r)
  case (Cons l ls)
  have "\<not> early_kill l r" using Cons.prems by (cases l) (auto split: list.split script_op.split)
  then show ?case using Cons listens_kept [OF next_step] by (auto split: option.split)
qed simp

text \<open>
  Property C36. When the process of a script ends, by itself, after a failure or after any number of
  SIGINT and SIGTERM signals at any time, every child process it ever spawned has been killed; two
  things excepted: an end from outside or by the \<open>error\<close> event of a child that could not be
  started, and a cleanup whose kill ran while the mock server was still about to listen.\<close>

theorem script_kills_children:
  assumes "script_ok always prog" "script_runs always nm ls (script_start prog) r" "rn_exit r = Some c"
    and "list_all (\<lambda>l. \<not> abrupt l) ls" "\<not> kills_early always nm ls (script_start prog)"
  shows "set (rn_spawned r) \<subseteq> set (rn_killed r)"
  using children_run [OF assms(2,4,5) children_start [OF assms(1)]] assms(3)
  by (simp add: keeps_children_def children_ok_def)

lemma script_kills_children_witness:
  "\<exists>r. script_runs False (\<lambda>k. []) [l_ok, l_signal 130, l_slept [0] 130] (script_start [so_spawn, so_await ''ready'']) r
     \<and> rn_exit r = Some 130 \<and> rn_spawned r = [0] \<and> set (rn_spawned r) \<subseteq> set (rn_killed r)"
proof -
  let ?prog = "[so_spawn, so_await ''ready'']" and ?ls = "[l_ok, l_signal 130, l_slept [0] 130]"
  obtain r where r: "script_last False (\<lambda>k. []) ?ls (script_start ?prog) = Some r" "rn_exit r = Some 130"
    "rn_spawned r = [0]"
    by (simp add: script_start_def script_next_def advance_def yields_def begin_cleanup_def finish_close_def
        finish_sleep_def forget_def Let_def)
  then have run: "script_runs False (\<lambda>k. []) ?ls (script_start ?prog) r" by (simp add: runs_iff_last)
  have "script_ok False ?prog" "list_all (\<lambda>l. \<not> abrupt l) ?ls" by (simp_all add: script_ok_def)
  moreover have "\<not> kills_early False (\<lambda>k. []) ?ls (script_start ?prog)"
    by (rule no_server_no_early_kill) (simp add: script_start_def)
  ultimately show ?thesis using script_kills_children [OF _ run r(2)] run r by blast
qed


section \<open>Code 0 is the end of the whole program\<close>

text \<open>A pool that has ended well does nothing more.\<close>

lemma pool_ended_stable:
  assumes "pool_result p = Some True"
  shows "pool_step n nm e p = p"
proof -
  have "\<not> list_ex is_busy (pl_pumps p)" using assms by (auto simp: pool_result_def split: if_splits)
  then have "pl_pumps p ! k \<noteq> pump_busy c" if "k < length (pl_pumps p)" for k c
    using that by (metis is_busy.simps(1) list_ex_iff nth_mem)
  then show ?thesis by (cases e) (auto split: pump.split)
qed

lemma pool_run_snoc: "pool_run n c nm (es @ [e]) = pool_step n nm e (pool_run n c nm es)"
  by (simp add: pool_run_def)

definition ended_ok :: "script_op list \<Rightarrow> ScriptRun \<Rightarrow> bool" where
  "ended_ok prog r \<longleftrightarrow> (if rn_failed r then rn_todo r = [] else rn_completed r @ rn_todo r = prog)
     \<and> (rn_exit r = Some 0 \<or> (\<exists>ph. (ph, 0) \<in> set (rn_cleanups r)) \<longrightarrow> rn_todo r = [] \<and> \<not> rn_failed r)"

definition pool_kept :: "script_op list \<Rightarrow> (nat \<Rightarrow> string) \<Rightarrow> ScriptRun \<Rightarrow> bool" where
  "pool_kept prog nm r \<longleftrightarrow>
     (\<forall>n p. rn_pool r = Some (n, p) \<longrightarrow> (\<exists>c es. so_pool n c \<in> set prog \<and> p = pool_run n c nm es))
     \<and> (\<forall>n c. so_pool n c \<in> set (rn_completed r) \<longrightarrow> (\<exists>p. rn_pool r = Some (n, p) \<and> pool_result p = Some True))
     \<and> so_throw \<notin> set (rn_completed r)"

lemma ended_finish_close: "ended_ok prog r \<Longrightarrow> c = 0 \<longrightarrow> rn_todo r = [] \<and> \<not> rn_failed r \<Longrightarrow> ended_ok prog (finish_close always c r)"
  by (auto simp: ended_ok_def finish_close_def)

lemma ended_begin_cleanup:
  "ended_ok prog r \<Longrightarrow> c = 0 \<longrightarrow> rn_todo r = [] \<and> \<not> rn_failed r \<Longrightarrow> ended_ok prog (begin_cleanup always c r)"
proof (cases "rn_browser r")
  case True
  then show "ended_ok prog r \<Longrightarrow> c = 0 \<longrightarrow> rn_todo r = [] \<and> \<not> rn_failed r \<Longrightarrow> ?thesis"
    by (auto simp: begin_cleanup_def ended_ok_def)
next
  case False
  then show "ended_ok prog r \<Longrightarrow> c = 0 \<longrightarrow> rn_todo r = [] \<and> \<not> rn_failed r \<Longrightarrow> ?thesis"
    by (simp add: begin_cleanup_def ended_finish_close)
qed

lemma ended_forget: "ended_ok prog r \<Longrightarrow> ended_ok prog (forget ph c r)"
  by (auto simp: ended_ok_def forget_def dest: set_remove1_subset [THEN subsetD])

lemma ended_fail: "ended_ok prog r \<Longrightarrow> rn_todo r \<noteq> [] \<Longrightarrow> rn_exit r = None \<Longrightarrow> ended_ok prog (fail always r)"
  unfolding fail_def by (rule ended_begin_cleanup) (auto simp: ended_ok_def)

lemma ended_advance:
  assumes "ended_ok prog r" "rn_todo r = op # rest"
  shows "ended_ok prog (advance always r)"
proof -
  have "ended_ok prog (r\<lparr>rn_todo := rest, rn_completed := rn_completed r @ [op]\<rparr>)" "\<not> rn_failed r"
    using assms by (auto simp: ended_ok_def split: if_splits)
  then show ?thesis using assms(2) by (auto simp: advance_def Let_def intro!: ended_begin_cleanup)
qed

lemma perform_keeps [simp]:
  "rn_todo (perform op r) = rn_todo r" "rn_completed (perform op r) = rn_completed r"
  "rn_failed (perform op r) = rn_failed r" "rn_exit (perform op r) = rn_exit r"
  "rn_cleanups (perform op r) = rn_cleanups r" "rn_pool (perform op r) = rn_pool r"
  by (cases op; simp)+

lemma ended_perform [simp]: "ended_ok prog (perform op r) = ended_ok prog r"
  by (simp add: ended_ok_def)

text \<open>A thread of the cleanup that ends the process with its own code.\<close>

lemma ended_thread: "ended_ok prog r \<Longrightarrow> (ph, c) \<in> set (rn_cleanups r) \<Longrightarrow> c = 0 \<longrightarrow> rn_todo r = [] \<and> \<not> rn_failed r"
  by (auto simp: ended_ok_def)

lemma forget_keeps [simp]:
  "rn_todo (forget ph c r) = rn_todo r" "rn_failed (forget ph c r) = rn_failed r" "rn_exit (forget ph c r) = rn_exit r"
  "rn_pool (forget ph c r) = rn_pool r" "rn_completed (forget ph c r) = rn_completed r"
  "rn_server (forget ph c r) = rn_server r"
  by (simp_all add: forget_def)

lemma ended_exit: "ended_ok prog r \<Longrightarrow> c = 0 \<longrightarrow> rn_todo r = [] \<and> \<not> rn_failed r \<Longrightarrow> ended_ok prog (r\<lparr>rn_exit := Some c\<rparr>)"
  by (auto simp: ended_ok_def)

lemma ended_finish_sleep:
  "ended_ok prog r \<Longrightarrow> c = 0 \<longrightarrow> rn_todo r = [] \<and> \<not> rn_failed r \<Longrightarrow>
   ended_ok prog (finish_sleep always pids c r)"
  by (auto simp: ended_ok_def finish_sleep_def Let_def)

lemma ended_step:
  "script_step always nm l r s \<Longrightarrow> so_exit 0 \<notin> set prog \<Longrightarrow> ended_ok prog r \<Longrightarrow> ended_ok prog s"
proof (induction rule: script_step.induct)
  case (Exit r c rest)
  then show ?case by (intro ended_exit) (auto simp: ended_ok_def split: if_splits)
next
  case (Closed r c)
  then show ?case using ended_thread [of prog r cl_closing c] by (auto intro!: ended_finish_close ended_forget)
next
  case (Slept r pids c)
  then show ?case using ended_thread [of prog r "cl_sleeping pids" c] by (auto intro!: ended_finish_sleep ended_forget)
next
  case (Stopped r c)
  then show ?case using ended_thread [of prog r cl_stopping c] by (auto intro!: ended_exit ended_forget)
next
  case (Pool_Start r n c rest)
  then show ?case by (auto simp: ended_ok_def split: if_splits)
next
  case (Pool_Event r n p e)
  then show ?case by (auto simp: ended_ok_def split: if_splits)
next
  case (Unstarted r rest)
  then show ?case by (intro ended_fail) (auto simp: ended_ok_def)
next
  case (Crash r)
  then show ?case by (intro ended_exit) simp_all
next
  case (Killed r c)
  then show ?case by (intro ended_exit) simp_all
qed (auto intro: ended_advance ended_fail ended_begin_cleanup)

lemma cleanup_keeps [simp]:
  "rn_completed (finish_close always c r) = rn_completed r" "rn_pool (finish_close always c r) = rn_pool r"
  "rn_completed (begin_cleanup always c r) = rn_completed r" "rn_pool (begin_cleanup always c r) = rn_pool r"
  "rn_completed (finish_sleep always pids c r) = rn_completed r" "rn_pool (finish_sleep always pids c r) = rn_pool r"
  "rn_completed (fail always r) = rn_completed r" "rn_pool (fail always r) = rn_pool r"
  "rn_pool (advance always r) = rn_pool r"
  by (simp_all add: begin_cleanup_def finish_close_def finish_sleep_def fail_def advance_def Let_def split: list.split)

lemma advance_completed: "rn_todo r = op # rest \<Longrightarrow> rn_completed (advance always r) = rn_completed r @ [op]"
  by (simp add: advance_def Let_def)

lemma pool_step_kept:
  "script_step always nm l r s \<Longrightarrow> ended_ok prog r \<Longrightarrow> pool_kept prog nm r \<Longrightarrow> pool_kept prog nm s"
proof (induction rule: script_step.induct)
  case (Do r op rest)
  then show ?case by (cases op) (auto simp: pool_kept_def advance_completed)
next
  case (Pool_Start r n c rest)
  have "so_pool n c \<in> set prog" using Pool_Start.hyps Pool_Start.prems(1) by (auto simp: ended_ok_def split: if_splits)
  then show ?case using Pool_Start
    by (auto simp: pool_kept_def pool_run_def intro!: exI [of _ c] exI [of _ "[]"])
next
  case (Pool_Event r n p e)
  then obtain c es where "so_pool n c \<in> set prog" "p = pool_run n c nm es" by (auto simp: pool_kept_def)
  then have "\<exists>c es'. so_pool n c \<in> set prog \<and> pool_step n nm e p = pool_run n c nm es'"
    by (metis pool_run_snoc)
  then show ?case using Pool_Event pool_ended_stable [of p n nm e] by (fastforce simp: pool_kept_def)
next
  case (Pool_Done r n c rest p)
  then show ?case by (auto simp: pool_kept_def advance_completed)
qed (simp_all add: pool_kept_def)

lemma runs_ended:
  "script_runs always nm ls r t \<Longrightarrow> so_exit 0 \<notin> set prog \<Longrightarrow> ended_ok prog r \<and> pool_kept prog nm r \<Longrightarrow>
   ended_ok prog t \<and> pool_kept prog nm t"
  by (rule runs_invariant [where P = "\<lambda>r. ended_ok prog r \<and> pool_kept prog nm r", rotated])
    (auto intro: ended_step pool_step_kept)

text \<open>
  A process that ends with code 0 has done its whole program, and every pool of it has run all its
  tasks, each once.
\<close>

lemma exit_zero_complete:
  assumes "script_runs always nm ls (script_start prog) r" "rn_exit r = Some 0" "script_ok always prog" "prog \<noteq> []"
  shows "rn_completed r = prog" and "so_throw \<notin> set prog"
    and "so_pool n c \<in> set prog \<Longrightarrow> list_all (\<lambda>op. \<forall>m d. op = so_pool m d \<longrightarrow> 0 < d) prog \<Longrightarrow>
      \<exists>p. rn_pool r = Some (n, p) \<and> mset (pl_captured p) = mset [0..<n]"
proof -
  have inv: "ended_ok prog r" "pool_kept prog nm r"
    using runs_ended [OF assms(1), of prog] assms(3)
    by (auto simp: script_ok_def ended_ok_def pool_kept_def script_start_def)
  then show completed: "rn_completed r = prog" using assms(2) by (auto simp: ended_ok_def split: if_splits)
  show "so_throw \<notin> set prog" using inv(2) completed by (simp add: pool_kept_def)
  show "\<exists>p. rn_pool r = Some (n, p) \<and> mset (pl_captured p) = mset [0..<n]"
    if pool: "so_pool n c \<in> set prog" and pos: "list_all (\<lambda>op. \<forall>m d. op = so_pool m d \<longrightarrow> 0 < d) prog"
  proof -
    obtain p where p: "rn_pool r = Some (n, p)" "pool_result p = Some True"
      using inv(2) pool completed unfolding pool_kept_def by blast
    moreover obtain d es where d: "so_pool n d \<in> set prog" "p = pool_run n d nm es"
      using inv(2) p(1) by (auto simp: pool_kept_def)
    moreover have "0 < d" using pos d(1) by (auto simp: list_all_iff)
    ultimately show ?thesis using pool_bounded_and_exact [of p n d nm es] by blast
  qed
qed

text \<open>After a signal there is a way to the end of the process, in at most three steps.\<close>

lemma closed_ends:
  assumes "rn_exit r = None" "yields r" "\<not> rn_server r"
  shows "\<exists>ls t. script_runs always nm ls (begin_cleanup always c r) t \<and> length ls \<le> 2 \<and> rn_exit t = Some c"
proof -
  have from_close: "\<exists>ls t. script_runs always nm ls (finish_close always c q) t \<and> length ls \<le> 1 \<and> rn_exit t = Some c"
    if "rn_exit q = None" "yields q" "\<not> rn_server q" for q
  proof (cases "always \<or> rn_spawned q \<noteq> []")
    case True
    let ?q = "finish_close always c q"
    let ?ps = "rn_spawned q"
    have "rn_exit ?q = None" "(cl_sleeping ?ps, c) \<in> set (rn_cleanups ?q)" and q: "\<not> rn_server ?q"
      using that True by (auto simp: finish_close_def)
    moreover have "yields ?q" using that(2) by simp
    ultimately have "script_step always nm (l_slept ?ps c) ?q (finish_sleep always ?ps c (forget (cl_sleeping ?ps) c ?q))"
      by (intro script_step.Slept)
    moreover have "rn_exit (finish_sleep always ?ps c (forget (cl_sleeping ?ps) c ?q)) = Some c"
      using q by (simp add: finish_sleep_def forget_def Let_def)
    ultimately show ?thesis by (intro exI [of _ "[l_slept ?ps c]"]) (auto intro: script_runs.intros)
  next
    case False
    then have "rn_exit (finish_close always c q) = Some c" by (simp add: finish_close_def)
    then show ?thesis by (intro exI [of _ "[]"]) auto
  qed
  show ?thesis
  proof (cases "rn_browser r")
    case True
    let ?r = "begin_cleanup always c r"
    have r: "rn_exit ?r = None" "(cl_closing, c) \<in> set (rn_cleanups ?r)" "\<not> rn_server ?r"
      using assms True by (auto simp: begin_cleanup_def)
    have y: "yields ?r" using assms(2) by simp
    with r have "script_step always nm (l_closed c) ?r (finish_close always c (forget cl_closing c ?r))"
      by (intro script_step.Closed)
    moreover obtain ls t where "script_runs always nm ls (finish_close always c (forget cl_closing c ?r)) t"
        "length ls \<le> 1" "rn_exit t = Some c"
      using from_close [of "forget cl_closing c ?r"] r y by auto
    ultimately show ?thesis by (intro exI [of _ "l_closed c # ls"]) (auto intro: script_runs.intros)
  next
    case False
    then show ?thesis using from_close [of r] assms by (fastforce simp: begin_cleanup_def)
  qed
qed


section \<open>Waiting for a server\<close>

text \<open>
  \<open>waitReady(url, timeoutMs)\<close>: the polls of the loop, each with the time at its head, before the
  deadline. \<open>None\<close> while it still polls, \<open>Some False\<close> for the timeout error. A poll that is answered
  with an error status counts like one that fails.
\<close>

datatype poll = poll_ok | poll_bad_status | poll_error

fun poll_until :: "nat \<Rightarrow> (nat \<times> poll) list \<Rightarrow> bool option" where
  "poll_until deadline [] = None"
| "poll_until deadline ((now, p) # rest) =
     (if now < deadline then (if p = poll_ok then Some True else poll_until deadline rest) else Some False)"

definition waitReady :: "nat \<Rightarrow> nat \<Rightarrow> (nat \<times> poll) list \<Rightarrow> bool option" where
  "waitReady start timeoutMs polls = poll_until (start + timeoutMs) polls"

text \<open>The loop sleeps 500 ms after a poll, so it ends after at most one poll per 500 ms and one more.\<close>

fun spaced :: "nat \<Rightarrow> (nat \<times> poll) list \<Rightarrow> bool" where
  "spaced earliest [] = True"
| "spaced earliest ((now, p) # rest) = (earliest \<le> now \<and> spaced (now + 500) rest)"

lemma poll_until_ends:
  "spaced earliest polls \<Longrightarrow> deadline \<le> earliest + 500 * k \<Longrightarrow> k < length polls \<Longrightarrow> poll_until deadline polls \<noteq> None"
proof (induction earliest polls arbitrary: k rule: spaced.induct)
  case (2 earliest now p rest)
  show ?case
  proof (cases "now < deadline")
    case True
    with "2.prems" obtain j where "k = Suc j" by (cases k) auto
    with "2.prems" "2.IH" [of j] True show ?thesis by auto
  qed simp
qed simp

lemma waitReady_ends:
  "spaced start polls \<Longrightarrow> timeoutMs div 500 + 1 < length polls \<Longrightarrow> waitReady start timeoutMs polls \<noteq> None"
  unfolding waitReady_def by (rule poll_until_ends [of start polls _ "timeoutMs div 500 + 1"]) auto

text \<open>It returns exactly when a poll that began before the deadline was answered well.\<close>

lemma waitReady_answered:
  "waitReady start timeoutMs polls = Some True \<longleftrightarrow>
   poll_ok \<in> snd ` set (takeWhile (\<lambda>(now, p). now < start + timeoutMs) polls)"
proof -
  have "poll_until d polls = Some True \<longleftrightarrow> poll_ok \<in> snd ` set (takeWhile (\<lambda>(now, p). now < d) polls)" for d
    by (induction d polls rule: poll_until.induct) (auto intro: image_eqI [of _ _ "(_, poll_ok)"])
  then show ?thesis by (simp add: waitReady_def)
qed

section \<open>Calls that may fail\<close>

text \<open>The calls made until one fails, with the one that failed.\<close>

fun call_all :: "('c \<Rightarrow> bool) \<Rightarrow> 'c list \<Rightarrow> 'c list \<times> 'c option" where
  "call_all host [] = ([], None)"
| "call_all host (c # cs) =
     (if host c then (let (made, failed) = call_all host cs in (c # made, failed)) else ([c], Some c))"

lemma call_all_ok: "call_all host cs = (made, None) \<Longrightarrow> made = cs \<and> list_all host cs"
  by (induction cs arbitrary: made) (auto split: if_splits prod.splits)

lemma call_all_made: "call_all host cs = (made, failed) \<Longrightarrow> set made \<subseteq> set cs"
  by (induction cs arbitrary: made) (auto split: if_splits prod.splits)

lemma call_all_all: "list_all host cs \<Longrightarrow> call_all host cs = (cs, None)"
  by (induction cs) simp_all

end
