(* ===== verification/Capture_Run.thy ===== *)
theory Capture_Run
  imports Script
begin

text \<open>
  The scene capture itself, \<open>scripts/capture-scenes.ts\<close>: the capture of one cell as its calls to the
  browser with every way out, and the main program as a program of theory Script, whose pool runs
  the cells. The calls are made by a parameter, which of them succeed; the theme the page resolved
  and the scene ids the page lists are arguments. Console output is left out.

  Shown: a screenshot is taken only when the page shows the theme its name says; the page context
  is closed on every way out; and an end with code 0 means that exactly the planned cells were
  captured, each under its own file name.
\<close>

section \<open>One cell\<close>

definition WIDTH :: nat where "WIDTH = 1280"
definition HEIGHT :: nat where "HEIGHT = 900"

fun theme_name :: "CaptureTheme \<Rightarrow> string" where
  "theme_name capture_light = ''light''"
| "theme_name capture_dark = ''dark''"

datatype cell_call =
    cc_new_context nat nat
  | cc_new_page
  | cc_route string
  | cc_goto string
  | cc_wait_store
  | cc_wait_harness
  | cc_apply_scene string
  | cc_set_theme CaptureTheme
  | cc_get_theme
  | cc_wait_settled nat
  | cc_screenshot string
  | cc_close

datatype cell_error = call_failed cell_call | theme_not_active string CaptureTheme CaptureTheme

definition cell_file :: "Cell \<Rightarrow> string" where
  "cell_file cell = fst cell @ ''-'' @ showNat WIDTH @ ''-'' @ theme_name (snd cell) @ ''.png''"

text \<open>The part inside \<open>try\<close>. The wait for the content may time out; the capture goes on.\<close>

definition capture_page :: "(cell_call \<Rightarrow> bool) \<Rightarrow> string \<Rightarrow> CaptureTheme \<Rightarrow> Cell \<Rightarrow> cell_call list \<times> (cell_error + string)" where
  "capture_page host baseUrl resolved cell =
     (let (made, failed) = call_all host
            [cc_new_page, cc_route ''**/info'', cc_goto (baseUrl @ ''/''), cc_wait_store, cc_wait_harness,
             cc_apply_scene (fst cell), cc_set_theme (snd cell), cc_get_theme]
      in case failed of
           Some c \<Rightarrow> (made, Inl (call_failed c))
         | None \<Rightarrow>
             if resolved \<noteq> snd cell then (made, Inl (theme_not_active (fst cell) (snd cell) resolved))
             else (let shot = cc_screenshot (cell_file cell)
                   in (made @ [cc_wait_settled 10000, shot],
                       if host shot then Inr (cell_file cell) else Inl (call_failed shot))))"

definition captureCell :: "(cell_call \<Rightarrow> bool) \<Rightarrow> string \<Rightarrow> CaptureTheme \<Rightarrow> Cell \<Rightarrow> cell_call list \<times> (cell_error + string)" where
  "captureCell host baseUrl resolved cell =
     (let context = cc_new_context WIDTH HEIGHT
      in if \<not> host context then ([context], Inl (call_failed context))
         else (let (made, result) = capture_page host baseUrl resolved cell
               in (context # made @ [cc_close], if host cc_close then result else Inl (call_failed cc_close))))"

section \<open>The main program\<close>

definition num_nat :: "js_num \<Rightarrow> nat" where
  "num_nat x = (case x of js_Fin q \<Rightarrow> nat \<lfloor>q\<rfloor> | _ \<Rightarrow> 0)"

text \<open>The pages calls that list the scenes, and what follows from the list.\<close>

definition probe_program :: "script_op list" where
  "probe_program = map so_await [''newContext'', ''newPage'', ''route'', ''goto'', ''waitForStore'',
     ''waitForSceneHarness'', ''listScenes'', ''close'']"

definition cells_program :: "Args \<Rightarrow> string list \<Rightarrow> script_op list" where
  "cells_program args sceneIds =
     (if sceneIds = [] then [so_throw]
      else case planCells sceneIds of
          Inl unknown \<Rightarrow> [so_throw]
        | Inr cells \<Rightarrow> [so_pool (length cells) (num_nat (ar_concurrency args))])"

definition capture_main :: "string option \<Rightarrow> string option \<Rightarrow> string list \<Rightarrow> string list \<Rightarrow> script_op list" where
  "capture_main env_concurrency env_port argv sceneIds =
     (case parseArgs env_concurrency env_port argv of
        Inl e \<Rightarrow> [so_throw]
      | Inr args \<Rightarrow>
          [so_await ''rm'', so_await ''mkdir'']
          @ (case ar_baseUrl args of
               None \<Rightarrow> (if ar_build args then [so_sync ''build:test''] else []) @ [so_spawn, so_await ''waitReady'']
             | Some url \<Rightarrow> [])
          @ [so_launch] @ probe_program @ cells_program args sceneIds)"

section \<open>Lemmas\<close>

text \<open>
  A screenshot of a cell is taken only when the theme the page resolved is the one the
  file is named after; the context that was opened is closed on every way out; and the capture
  succeeds, with the name of the cell's own file, only when the screenshot was made.\<close>

theorem capture_matches_theme:
  assumes "captureCell host baseUrl resolved cell = (made, result)"
  shows "(\<forall>f. cc_screenshot f \<in> set made \<longrightarrow> resolved = snd cell \<and> f = cell_file cell)
    \<and> (host (hd made) \<longrightarrow> last made = cc_close)
    \<and> (\<forall>f. result = Inr f \<longrightarrow> f = cell_file cell \<and> cc_screenshot f \<in> set made \<and> host (cc_screenshot f))"
  using assms call_all_made
  by (fastforce simp: captureCell_def capture_page_def Let_def split: if_splits prod.splits option.splits)


lemma capture_matches_theme_witness:
  "\<exists>made. captureCell (\<lambda>c. c \<noteq> cc_wait_settled 10000) ''http://h'' capture_dark (''empty'', capture_dark)
      = (made, Inr ''empty-1280-dark.png'')
    \<and> cc_screenshot ''empty-1280-dark.png'' \<in> set made \<and> last made = cc_close"
proof -
  let ?r = "captureCell (\<lambda>c. c \<noteq> cc_wait_settled 10000) ''http://h'' capture_dark (''empty'', capture_dark)"
  have cf: "cell_file (''empty'', capture_dark) = ''empty-1280-dark.png''" by code_simp
  have "?r = (fst ?r, Inr (cell_file (''empty'', capture_dark)))"
    by (simp add: captureCell_def capture_page_def Let_def)
  from capture_matches_theme [OF this] show ?thesis
    unfolding cf by (intro exI [of _ "fst ?r"]) (simp add: captureCell_def capture_page_def Let_def cf)
qed

text \<open>A theme that did not take, and a page that stays busy.\<close>

lemma wrong_theme_not_captured:
  "captureCell (\<lambda>c. True) url capture_light (scene, capture_dark) =
     ([cc_new_context WIDTH HEIGHT, cc_new_page, cc_route ''**/info'', cc_goto (url @ ''/''), cc_wait_store,
       cc_wait_harness, cc_apply_scene scene, cc_set_theme capture_dark, cc_get_theme, cc_close],
      Inl (theme_not_active scene capture_dark capture_light))"
  by (simp add: captureCell_def capture_page_def Let_def)

section \<open>Planned cells and files\<close>

lemma cell_file_inject: "cell_file a = cell_file b \<longleftrightarrow> a = b"
proof
  assume "cell_file a = cell_file b"
  then have "rev (cell_file a) = rev (cell_file b)" by simp
  then show "a = b" by (cases a; cases b; cases "snd a"; cases "snd b") (simp_all add: cell_file_def)
qed simp

lemma planCells_distinct: "distinct sceneIds \<Longrightarrow> planCells sceneIds = Inr cells \<Longrightarrow> distinct (map cell_file cells)"
  by (auto simp: planCells_def Let_def distinct_map inj_on_def cell_file_inject split: if_splits)

lemma parsed_concurrency: "parseArgs env_concurrency env_port argv = Inr args \<Longrightarrow> 0 < num_nat (ar_concurrency args)"
  by (cases "ar_concurrency args")
    (auto simp: parseArgs_def check_args_def num_nat_def split: sum.splits if_splits)

lemma capture_main_ok: "script_ok False (capture_main env_concurrency env_port argv sceneIds)"
  by (auto simp: capture_main_def script_ok_def cells_program_def probe_program_def split: sum.split option.split)

text \<open>There is no mock server, so the preview server never outlives a capture that ends by itself.\<close>

lemma capture_kills_children:
  assumes "script_runs False nm ls (script_start (capture_main env_concurrency env_port argv sceneIds)) r"
    "rn_exit r = Some c" "list_all (\<lambda>l. \<not> abrupt l) ls"
  shows "set (rn_spawned r) \<subseteq> set (rn_killed r)"
proof -
  have "so_listen \<notin> set (capture_main env_concurrency env_port argv sceneIds)"
    by (auto simp: capture_main_def cells_program_def probe_program_def split: sum.split option.split)
  then have "\<not> kills_early False nm ls (script_start (capture_main env_concurrency env_port argv sceneIds))"
    by (intro no_server_no_early_kill) (simp add: script_start_def)
  with children_run [OF assms(1,3) _ children_start [OF capture_main_ok]] assms(2) show ?thesis
    by (simp add: keeps_children_def children_ok_def)
qed

lemma mset_captured: "mset ks = mset [0..<length xs] \<Longrightarrow> mset (map (\<lambda>k. f (xs ! k)) ks) = mset (map f xs)"
proof -
  assume "mset ks = mset [0..<length xs]"
  then have "mset (map (\<lambda>k. f (xs ! k)) ks) = mset (map (\<lambda>k. f (xs ! k)) [0..<length xs])" by (simp del: mset_upt)
  also have "map (\<lambda>k. f (xs ! k)) [0..<length xs] = map f xs" by (rule nth_equalityI) simp_all
  finally show ?thesis .
qed

text \<open>
  Property C37. When the capture ends with code 0, whatever signals and failures of single calls it
  met, its arguments were valid, the plan was made for the scenes the page listed, and exactly the
  planned cells were captured, each once; with distinct scene ids no two share a file.\<close>

theorem capture_exit_zero:
  assumes "script_runs False nm ls (script_start (capture_main env_concurrency env_port argv sceneIds)) r"
    "rn_exit r = Some 0"
  shows "\<exists>args cells p. parseArgs env_concurrency env_port argv = Inr args \<and> planCells sceneIds = Inr cells
    \<and> rn_pool r = Some (length cells, p)
    \<and> mset (map (\<lambda>k. cell_file (cells ! k)) (pl_captured p)) = mset (map cell_file cells)
    \<and> (distinct sceneIds \<longrightarrow> distinct (map cell_file cells))"
proof -
  let ?prog = "capture_main env_concurrency env_port argv sceneIds"
  have prog: "?prog \<noteq> []" by (simp add: capture_main_def split: sum.split)
  note ended = exit_zero_complete [OF assms capture_main_ok prog]
  obtain args where args: "parseArgs env_concurrency env_port argv = Inr args"
    using ended(2) by (auto simp: capture_main_def split: sum.splits)
  obtain cells where cells: "planCells sceneIds = Inr cells" "sceneIds \<noteq> []"
    using ended(2) args by (auto simp: capture_main_def cells_program_def split: sum.splits if_splits)
  have pool: "so_pool (length cells) (num_nat (ar_concurrency args)) \<in> set ?prog"
    using args cells by (auto simp: capture_main_def cells_program_def)
  have "list_all (\<lambda>op. \<forall>m d. op = so_pool m d \<longrightarrow> 0 < d) ?prog"
    using args cells parsed_concurrency [OF args]
    by (auto simp: capture_main_def cells_program_def probe_program_def split: option.split)
  with ended(3) [OF pool] obtain p where p: "rn_pool r = Some (length cells, p)" "mset (pl_captured p) = mset [0..<length cells]"
    by blast
  show ?thesis
    using args cells(1) p(1) mset_captured [OF p(2)] planCells_distinct [OF _ cells(1)] by blast
qed


definition example_argv :: "string list" where
  "example_argv = [''--out'', ''d'', ''--base-url'', ''u'']"

definition example_labels :: "script_label list" where
  "example_labels = replicate 12 l_ok @ map (\<lambda>k. l_pool (worker_ok k)) [0, 1, 2, 3, 4, 5, 0, 1, 2, 3, 4, 5] @ [l_ok, l_closed 0]"

lemma example_program:
  "capture_main None None example_argv LIGHT_SCENES =
     [so_await ''rm'', so_await ''mkdir'', so_launch] @ probe_program @ [so_pool 12 6]"
proof -
  have "parseArgs None None example_argv = Inr \<lparr>ar_out = Some ''d'', ar_concurrency = js_Fin 6,
      ar_port = js_Fin 4180, ar_baseUrl = Some ''u'', ar_build = True\<rparr>"
    by (simp add: parseArgs_def example_argv_def default_args_def check_args_def env_number_def)
  moreover have "planCells LIGHT_SCENES \<noteq> Inl e" for e by (simp add: planCells_def)
  moreover have "planCells LIGHT_SCENES = Inr cells \<Longrightarrow> length cells = 12" for cells
    by (auto simp: planCells_def LIGHT_SCENES_def)
  moreover have "LIGHT_SCENES \<noteq> []" by (simp add: LIGHT_SCENES_def)
  ultimately show ?thesis by (auto simp: capture_main_def cells_program_def num_nat_def split: sum.split)
qed

lemma capture_exit_zero_witness:
  "\<exists>r p. script_runs False (\<lambda>k. []) example_labels (script_start (capture_main None None example_argv LIGHT_SCENES)) r
     \<and> rn_pool r = Some (12, p) \<and> mset (map (\<lambda>k. cell_file (projr (planCells LIGHT_SCENES) ! k)) (pl_captured p))
          = mset (map cell_file (projr (planCells LIGHT_SCENES)))"
proof -
  let ?last = "script_last False (\<lambda>k. []) example_labels (script_start (capture_main None None example_argv LIGHT_SCENES))"
  have "?last \<noteq> None \<and> rn_exit (the ?last) = Some 0" unfolding example_program by code_simp
  then obtain r where r: "?last = Some r" "rn_exit r = Some 0" by auto
  then have run: "script_runs False (\<lambda>k. []) example_labels (script_start (capture_main None None example_argv LIGHT_SCENES)) r"
    by (simp add: runs_iff_last)
  have "length (projr (planCells LIGHT_SCENES)) = 12" by code_simp
  with run capture_exit_zero [OF run r(2)] show ?thesis by auto
qed

end
