(* ===== verification/Catalog.thy ===== *)
theory Catalog
  imports Prelude "HOL-Library.Sublist"
begin

text \<open>
  The screenshot catalog of the fixture matrix, \<open>scripts/bestiary-catalog.ts\<close>: the catalog entry of
  a scene, the order of the scenes, and the rendering of the entries as one markdown text. Ids and
  slugs are strings, titles and descriptions lists of \<open>glyph\<close>; an absent optional flag is
  \<open>False\<close>. The order is polymorphic in the scene, as in the source.

  Shown: the order loses no scene and keeps the scenes of one group in their order, and the
  rendered text has one heading per group and per scene and one image per capture.
\<close>

section \<open>Text\<close>

definition nl :: glyph where
  "nl = Lat newline"

text \<open>\<open>s.trim()\<close> of a text with glyphs.\<close>

fun glyph_ws :: "glyph \<Rightarrow> bool" where
  "glyph_ws (Lat c) = is_ws c"
| "glyph_ws (Uni n) = (n \<in> {0x1680, 0x2028, 0x2029, 0x202F, 0x205F, 0x3000, 0xFEFF} \<or> (0x2000 \<le> n \<and> n \<le> 0x200A))"

definition glyph_trim :: "glyph list \<Rightarrow> glyph list" where
  "glyph_trim s = rev (dropWhile glyph_ws (rev (dropWhile glyph_ws s)))"

section \<open>Entries\<close>

record CaptureMeta =
  cm_slug :: string
  cm_description :: "glyph list option"
  cm_filename :: string

record ScenarioMeta =
  sm_family :: "glyph list"
  sm_slug :: string
  sm_title :: "glyph list"
  sm_description :: "glyph list"
  sm_captures :: "CaptureMeta list"

record CatalogOptions =
  co_date :: string
  co_intro :: "glyph list option"

datatype SceneAxis = axis_state | axis_data | axis_view

record SceneCloseup =
  cu_slug :: string
  cu_description :: "glyph list option"
  cu_selector :: string

record MatrixSceneInput =
  sc_id :: string
  sc_title :: "glyph list"
  sc_axis :: SceneAxis
  sc_description :: "glyph list"
  sc_closeups :: "SceneCloseup list option"
  sc_bestiaryOnly :: bool

definition captureFilename :: "string \<Rightarrow> string \<Rightarrow> string" where
  "captureFilename scenarioSlug captureSlug = scenarioSlug @ ''-'' @ captureSlug @ ''.png''"

definition BESTIARY_ONLY_FAMILY :: "glyph list" where
  "BESTIARY_ONLY_FAMILY = lat ''Bestiary-only (not in the fixture matrix)''"

fun AXIS_FAMILY :: "SceneAxis \<Rightarrow> glyph list" where
  "AXIS_FAMILY axis_state = lat ''Matrix '' @ em_dash # lat '' state axis''"
| "AXIS_FAMILY axis_data = lat ''Matrix '' @ em_dash # lat '' data axis''"
| "AXIS_FAMILY axis_view = lat ''Matrix '' @ em_dash # lat '' view axis''"

definition AXIS_ORDER :: "SceneAxis list" where
  "AXIS_ORDER = [axis_state, axis_data, axis_view]"

definition scene_closeups :: "'a MatrixSceneInput_scheme \<Rightarrow> SceneCloseup list" where
  "scene_closeups scene = (case sc_closeups scene of None \<Rightarrow> [] | Some cs \<Rightarrow> cs)"

definition scene_family :: "'a MatrixSceneInput_scheme \<Rightarrow> glyph list" where
  "scene_family scene = (if sc_bestiaryOnly scene then BESTIARY_ONLY_FAMILY else AXIS_FAMILY (sc_axis scene))"

definition matrixSceneToMeta :: "'a MatrixSceneInput_scheme \<Rightarrow> ScenarioMeta" where
  "matrixSceneToMeta scene =
     \<lparr>sm_family = scene_family scene, sm_slug = sc_id scene, sm_title = sc_title scene,
      sm_description = sc_description scene,
      sm_captures =
        \<lparr>cm_slug = ''view'', cm_description = None, cm_filename = captureFilename (sc_id scene) ''view''\<rparr>
        # map (\<lambda>c. \<lparr>cm_slug = cu_slug c, cm_description = cu_description c,
                    cm_filename = captureFilename (sc_id scene) (cu_slug c)\<rparr>) (scene_closeups scene)\<rparr>"

section \<open>The order of the scenes\<close>

text \<open>The scenes of each known axis in turn, then those of no known axis.\<close>

definition order_by_axis :: "'x list \<Rightarrow> ('s \<Rightarrow> 'x) \<Rightarrow> 's list \<Rightarrow> 's list" where
  "order_by_axis order axis scenes =
     concat (map (\<lambda>a. filter (\<lambda>s. axis s = a) scenes) order) @ filter (\<lambda>s. axis s \<notin> set order) scenes"

definition orderScenesByAxis :: "'a MatrixSceneInput_scheme list \<Rightarrow> 'a MatrixSceneInput_scheme list" where
  "orderScenesByAxis scenes = order_by_axis AXIS_ORDER sc_axis scenes"

definition orderBestiaryScenes :: "'a MatrixSceneInput_scheme list \<Rightarrow> 'a MatrixSceneInput_scheme list" where
  "orderBestiaryScenes scenes =
     orderScenesByAxis (filter (\<lambda>s. \<not> sc_bestiaryOnly s) scenes) @ filter sc_bestiaryOnly scenes"

section \<open>Rendering\<close>

text \<open>A text is truthy when it is there and not empty.\<close>

definition truthy_text :: "glyph list option \<Rightarrow> bool" where
  "truthy_text t \<longleftrightarrow> t \<noteq> None \<and> t \<noteq> Some []"

definition catalog_front :: "CatalogOptions \<Rightarrow> glyph list list" where
  "catalog_front options =
     [lat ''---'', lat ''ticket: PRO-219'', lat ''date: '' @ lat (co_date options),
      lat ''tags: ui, screenshots, bestiary'', lat ''---'', [],
      lat ''# UI screenshot bestiary'', [],
      lat ''Generated by `just screenshots-bestiary` (or `pnpm run screenshots:bestiary`).'',
      lat ''Every entry is a fixture-matrix scene injected via `window.__test_scenes`;'',
      lat ''no Rust backend is involved. See PRO-219 (origin) and PRO-410 (matrix'',
      lat ''convergence) for context.'', []]
     @ (if truthy_text (co_intro options) then [the (co_intro options), []] else [])"

definition image_line :: "CaptureMeta \<Rightarrow> glyph list" where
  "image_line capture = lat ''![['' @ lat (cm_filename capture) @ lat '']]''"

definition capture_lines :: "CaptureMeta \<Rightarrow> glyph list list" where
  "capture_lines capture =
     [image_line capture]
     @ (if truthy_text (cm_description capture)
        then [[], lat ''_'' @ glyph_trim (the (cm_description capture)) @ lat ''_''] else [])
     @ [[]]"

definition scenario_lines :: "ScenarioMeta \<Rightarrow> glyph list list" where
  "scenario_lines scenario =
     [lat ''### '' @ sm_title scenario, [], glyph_trim (sm_description scenario), []]
     @ concat (map capture_lines (sm_captures scenario))"

text \<open>The loop over the scenarios; the first argument is \<open>currentFamily\<close>.\<close>

fun scenarios_lines :: "glyph list option \<Rightarrow> ScenarioMeta list \<Rightarrow> glyph list list" where
  "scenarios_lines currentFamily [] = []"
| "scenarios_lines currentFamily (scenario # rest) =
     (if Some (sm_family scenario) \<noteq> currentFamily then [lat ''## '' @ sm_family scenario, []] else [])
     @ scenario_lines scenario @ scenarios_lines (Some (sm_family scenario)) rest"

definition renderCatalog :: "ScenarioMeta list \<Rightarrow> CatalogOptions \<Rightarrow> glyph list" where
  "renderCatalog scenarios options = join [nl] (catalog_front options @ scenarios_lines None scenarios)"

section \<open>Lemmas: the order\<close>

lemma mset_partition: "mset (filter P xs) + mset (filter (\<lambda>x. \<not> P x) xs) = mset xs"
  by (induction xs) auto

lemma mset_by_axis:
  "distinct order \<Longrightarrow> mset (concat (map (\<lambda>a. filter (\<lambda>s. axis s = a) scenes) order))
     = mset (filter (\<lambda>s. axis s \<in> set order) scenes)"
proof (induction order)
  case (Cons a order)
  have "mset (filter (\<lambda>s. axis s = a) scenes) + mset (filter (\<lambda>s. axis s \<in> set order) scenes)
      = mset (filter (\<lambda>s. axis s \<in> set (a # order)) scenes)"
    using Cons.prems by (induction scenes) auto
  then show ?case using Cons by simp
qed simp

text \<open>No scene is lost or doubled, whatever its axis, and a group keeps the order of its scenes.\<close>

lemma mset_order_by_axis: "distinct order \<Longrightarrow> mset (order_by_axis order axis scenes) = mset scenes"
  by (simp add: order_by_axis_def mset_by_axis mset_partition)

lemma order_by_axis_stable:
  "distinct order \<Longrightarrow> filter (\<lambda>s. axis s = a) (order_by_axis order axis scenes) = filter (\<lambda>s. axis s = a) scenes"
proof (cases "a \<in> set order")
  case True
  assume "distinct order"
  with True have "filter (\<lambda>s. axis s = a) (concat (map (\<lambda>b. filter (\<lambda>s. axis s = b) scenes) order))
      = filter (\<lambda>s. axis s = a) scenes"
  proof (induction order)
    case (Cons b order)
    have "filter (\<lambda>s. axis s = a) (filter (\<lambda>s. axis s = b) scenes) = (if a = b then filter (\<lambda>s. axis s = a) scenes else [])"
      by (auto simp: filter_empty_conv conj_commute cong: conj_cong)
    moreover have "a = b \<Longrightarrow> filter (\<lambda>s. axis s = a) (concat (map (\<lambda>b. filter (\<lambda>s. axis s = b) scenes) order)) = []"
      using Cons.prems by (auto simp: filter_empty_conv)
    ultimately show ?case using Cons by (cases "a = b") simp_all
  qed simp
  moreover have "filter (\<lambda>s. axis s = a) (filter (\<lambda>s. axis s \<notin> set order) scenes) = []"
    using True by (auto simp: filter_empty_conv)
  ultimately show ?thesis by (simp add: order_by_axis_def)
next
  case False
  have "filter (\<lambda>s. axis s = a) (concat (map (\<lambda>b. filter (\<lambda>s. axis s = b) scenes) order)) = []"
    using False by (auto simp: filter_empty_conv)
  moreover have "filter (\<lambda>s. axis s = a) (filter (\<lambda>s. axis s \<notin> set order) scenes) = filter (\<lambda>s. axis s = a) scenes"
    using False by (induction scenes) auto
  ultimately show ?thesis by (simp add: order_by_axis_def)
qed

lemma mset_orderBestiaryScenes: "mset (orderBestiaryScenes scenes) = mset scenes"
  using mset_partition [of sc_bestiaryOnly scenes]
  by (simp add: orderBestiaryScenes_def orderScenesByAxis_def mset_order_by_axis AXIS_ORDER_def union_commute)

section \<open>Lemmas: the headings of the rendered text\<close>

text \<open>The lines of a text that start with a mark.\<close>

definition marked_lines :: "string \<Rightarrow> glyph list \<Rightarrow> glyph list list" where
  "marked_lines mark t = filter (prefix (lat mark)) (split_on nl t)"

text \<open>A text none of whose lines looks like a heading or an image.\<close>

definition plain_text :: "glyph list \<Rightarrow> bool" where
  "plain_text t \<longleftrightarrow> list_all (\<lambda>l. l = [] \<or> hd l \<notin> {Lat CHR ''#'', Lat CHR ''!''}) (split_on nl t)"

lemma split_on_sep: "split_on c (a @ c # b) = split_on c a @ split_on c b"
  by (induction a) (auto split: list.splits)

lemma split_on_join_lines: "ps \<noteq> [] \<Longrightarrow> split_on c (join [c] ps) = concat (map (split_on c) ps)"
  by (induction "[c]" ps rule: join.induct) (simp_all add: split_on_sep)

lemma marked_lines_join:
  "ps \<noteq> [] \<Longrightarrow> marked_lines mark (join [nl] ps) = concat (map (marked_lines mark) ps)"
  by (simp add: marked_lines_def [abs_def] split_on_join_lines filter_concat comp_def)

lemma split_on_snoc:
  "split_on c (a @ [x]) = (if x = c then split_on c a @ [[]] else butlast (split_on c a) @ [last (split_on c a) @ [x]])"
proof (induction a)
  case (Cons y a)
  obtain p ps where s: "split_on c a = p # ps" by (cases "split_on c a") simp_all
  show ?case using Cons s by auto
qed simp

text \<open>The marks of the catalog, and what shows no mark.\<close>

definition catalog_marks :: "string list" where
  "catalog_marks = [''## '', ''### '', ''![['']"

lemma plain_unmarked:
  assumes "plain_text t" "mark \<in> set catalog_marks"
  shows "marked_lines mark t = []"
  using assms by (fastforce simp: marked_lines_def plain_text_def catalog_marks_def filter_empty_conv
      list_all_iff prefix_def)

lemma plain_caption: "plain_text t \<Longrightarrow> plain_text (lat ''_'' @ t @ lat ''_'')"
proof -
  assume t: "plain_text t"
  obtain p ps where s: "split_on nl t = p # ps" by (cases "split_on nl t") simp_all
  have first: "split_on nl (lat ''_'' @ t) = (Lat CHR ''_'' # p) # ps"
    using s by (simp add: nl_def newline_def)
  have "split_on nl ((lat ''_'' @ t) @ [Lat CHR ''_'']) = butlast ((Lat CHR ''_'' # p) # ps)
      @ [last ((Lat CHR ''_'' # p) # ps) @ [Lat CHR ''_'']]"
    unfolding split_on_snoc first by (simp add: nl_def newline_def)
  then show ?thesis using t s
    by (cases ps rule: rev_cases) (auto simp: plain_text_def list_all_iff hd_append)
qed

lemma single_line_marked:
  "nl \<notin> set t \<Longrightarrow> marked_lines mark t = (if prefix (lat mark) t then [t] else [])"
  by (simp add: marked_lines_def split_on_notin)

text \<open>A list without repetitions between neighbours, started after \<open>cur\<close>.\<close>

fun changes :: "'f option \<Rightarrow> 'f list \<Rightarrow> 'f list" where
  "changes cur [] = []"
| "changes cur (f # fs) = (if Some f \<noteq> cur then [f] else []) @ changes (Some f) fs"

lemma changes_same: "\<forall>g\<in>set gs. g = f \<Longrightarrow> changes (Some f) (gs @ fs) = changes (Some f) fs"
  by (induction gs) auto

lemma changes_groups:
  assumes "distinct fs" "\<forall>f\<in>set fs. cur \<noteq> Some f"
  shows "changes cur (concat (map (\<lambda>f. map key (filter (\<lambda>x. key x = f) xs)) fs))
     = filter (\<lambda>f. \<exists>x\<in>set xs. key x = f) fs"
  using assms
proof (induction fs arbitrary: cur)
  case (Cons f fs)
  show ?case
  proof (cases "filter (\<lambda>x. key x = f) xs")
    case Nil
    then show ?thesis using Cons by (auto simp: filter_empty_conv)
  next
    case (Cons y ys)
    then have y: "key y = f" "y \<in> set xs" "\<forall>g\<in>set (map key ys). g = f"
      by (auto dest!: arg_cong [of _ _ set] simp: set_eq_iff)
    have "Some f \<noteq> cur" using Cons.prems(2) by auto
    then have "changes cur (concat (map (\<lambda>f. map key (filter (\<lambda>x. key x = f) xs)) (f # fs)))
        = f # changes (Some f) (concat (map (\<lambda>f. map key (filter (\<lambda>x. key x = f) xs)) fs))"
      using y Cons by (simp add: changes_same)
    then show ?thesis using Cons.IH [of "Some f"] Cons.prems y by auto
  qed
qed simp

definition CATALOG_FAMILIES :: "glyph list list" where
  "CATALOG_FAMILIES = map AXIS_FAMILY AXIS_ORDER @ [BESTIARY_ONLY_FAMILY]"

lemma AXIS_FAMILY_inject [simp]: "AXIS_FAMILY a = AXIS_FAMILY b \<longleftrightarrow> a = b"
  by (cases a; cases b) simp_all

lemma AXIS_FAMILY_not_only [simp]: "AXIS_FAMILY a \<noteq> BESTIARY_ONLY_FAMILY" "BESTIARY_ONLY_FAMILY \<noteq> AXIS_FAMILY a"
  by (cases a; simp add: BESTIARY_ONLY_FAMILY_def)+

lemma distinct_CATALOG_FAMILIES: "distinct CATALOG_FAMILIES"
  by (simp add: CATALOG_FAMILIES_def AXIS_ORDER_def BESTIARY_ONLY_FAMILY_def)

lemma axis_known: "a \<in> set AXIS_ORDER"
  by (cases a) (simp_all add: AXIS_ORDER_def)

text \<open>The order puts the groups one after the other, each in the order of its scenes.\<close>

lemma orderBestiaryScenes_groups:
  "orderBestiaryScenes scenes = concat (map (\<lambda>f. filter (\<lambda>s. scene_family s = f) scenes) CATALOG_FAMILIES)"
proof -
  have "filter (\<lambda>s. \<not> sc_bestiaryOnly s \<and> sc_axis s = a) scenes = filter (\<lambda>s. scene_family s = AXIS_FAMILY a) scenes" for a
    by (rule filter_cong) (auto simp: scene_family_def)
  moreover have "filter sc_bestiaryOnly scenes = filter (\<lambda>s. scene_family s = BESTIARY_ONLY_FAMILY) scenes"
    by (rule filter_cong) (auto simp: scene_family_def)
  ultimately show ?thesis
    by (simp add: orderBestiaryScenes_def orderScenesByAxis_def order_by_axis_def CATALOG_FAMILIES_def
        axis_known comp_def conj_commute)
qed


section \<open>Lemmas: the lines of a scenario\<close>

lemma nl_lat [simp]: "nl = Lat c \<longleftrightarrow> c = newline" "nl \<in> Lat ` A \<longleftrightarrow> newline \<in> A"
  by (auto simp: nl_def)

definition plain_options :: "CatalogOptions \<Rightarrow> bool" where
  "plain_options options \<longleftrightarrow> newline \<notin> set (co_date options)
     \<and> (case co_intro options of None \<Rightarrow> True | Some t \<Rightarrow> plain_text t)"

definition plain_capture :: "CaptureMeta \<Rightarrow> bool" where
  "plain_capture c \<longleftrightarrow> newline \<notin> set (cm_filename c)
     \<and> (case cm_description c of None \<Rightarrow> True | Some t \<Rightarrow> plain_text (glyph_trim t))"

definition plain_scenario :: "ScenarioMeta \<Rightarrow> bool" where
  "plain_scenario m \<longleftrightarrow> nl \<notin> set (sm_family m) \<and> nl \<notin> set (sm_title m)
     \<and> plain_text (glyph_trim (sm_description m)) \<and> list_all plain_capture (sm_captures m)"

text \<open>What the marked lines of each part are.\<close>

definition marks_of :: "string \<Rightarrow> glyph list list \<Rightarrow> glyph list list" where
  "marks_of mark ls = concat (map (marked_lines mark) ls)"

lemma marks_of_simps [simp]:
  "marks_of mark [] = []" "marks_of mark (l # ls) = marked_lines mark l @ marks_of mark ls"
  "marks_of mark (ls @ ks) = marks_of mark ls @ marks_of mark ks"
  by (simp_all add: marks_of_def)

lemma marked_empty: "mark \<in> set catalog_marks \<Longrightarrow> marked_lines mark [] = []"
  by (auto simp: marked_lines_def catalog_marks_def)

lemma marked_constant:
  "mark \<in> set catalog_marks \<Longrightarrow> nl \<notin> set (Lat c # t) \<Longrightarrow> c \<noteq> CHR ''#'' \<Longrightarrow> c \<noteq> CHR ''!'' \<Longrightarrow>
   marked_lines mark (Lat c # t) = []"
  using single_line_marked [of "Lat c # t" mark] by (auto simp: catalog_marks_def)

lemma marked_front:
  assumes "plain_options options" "mark \<in> set catalog_marks"
  shows "marks_of mark (catalog_front options) = []"
proof -
  have "marked_lines mark (lat (''date: '' @ co_date options)) = []"
    using assms marked_constant [of mark "CHR ''d''" "lat (''ate: '' @ co_date options)"]
    by (simp add: plain_options_def newline_def)
  moreover have "marked_lines mark (lat ''# UI screenshot bestiary'') = []"
    using assms(2) single_line_marked [of "lat ''# UI screenshot bestiary''" mark]
    by (auto simp: catalog_marks_def newline_def)
  moreover have "truthy_text (co_intro options) \<Longrightarrow> marked_lines mark (the (co_intro options)) = []"
    using assms by (auto simp: plain_options_def truthy_text_def intro: plain_unmarked)
  ultimately show ?thesis
    using assms(2) by (simp add: catalog_front_def marked_empty marked_constant newline_def)
qed

lemma marked_image:
  "newline \<notin> set (cm_filename c) \<Longrightarrow> mark \<in> set catalog_marks \<Longrightarrow>
   marked_lines mark (image_line c) = (if mark = ''![['' then [image_line c] else [])"
  using single_line_marked [of "image_line c" mark] by (auto simp: catalog_marks_def image_line_def newline_def)

lemma marked_heading:
  assumes "nl \<notin> set t" "mark \<in> set catalog_marks"
  shows "marked_lines mark (lat ''## '' @ t) = (if mark = ''## '' then [lat ''## '' @ t] else [])"
    and "marked_lines mark (lat ''### '' @ t) = (if mark = ''### '' then [lat ''### '' @ t] else [])"
  using assms single_line_marked [of "lat ''## '' @ t" mark] single_line_marked [of "lat ''### '' @ t" mark]
  by (auto simp: catalog_marks_def nl_def newline_def)

lemma marked_capture:
  assumes "plain_capture c" "mark \<in> set catalog_marks"
  shows "marks_of mark (capture_lines c) = (if mark = ''![['' then [image_line c] else [])"
proof -
  have "truthy_text (cm_description c) \<Longrightarrow>
      marked_lines mark (lat ''_'' @ glyph_trim (the (cm_description c)) @ lat ''_'') = []"
    using assms plain_unmarked [OF plain_caption assms(2)] by (auto simp: plain_capture_def truthy_text_def)
  then show ?thesis
    using assms marked_image [of c mark] marked_empty [of mark]
    by (auto simp: capture_lines_def plain_capture_def)
qed

lemma marked_captures:
  "list_all plain_capture cs \<Longrightarrow> mark \<in> set catalog_marks \<Longrightarrow>
   marks_of mark (concat (map capture_lines cs)) = (if mark = ''![['' then map image_line cs else [])"
  by (induction cs) (simp_all add: marked_capture)

lemma marked_scenario:
  "plain_scenario m \<Longrightarrow> mark \<in> set catalog_marks \<Longrightarrow>
   marks_of mark (scenario_lines m) =
     (if mark = ''### '' then [lat ''### '' @ sm_title m] else if mark = ''![['' then map image_line (sm_captures m) else [])"
  using marked_heading(2) [of "sm_title m" mark] plain_unmarked [of "glyph_trim (sm_description m)" mark]
  by (simp add: scenario_lines_def plain_scenario_def marked_captures marked_empty)

lemma marked_scenarios:
  "list_all plain_scenario ms \<Longrightarrow> mark \<in> set catalog_marks \<Longrightarrow>
   marks_of mark (scenarios_lines cur ms) =
     (if mark = ''## '' then map ((@) (lat ''## '')) (changes cur (map sm_family ms))
      else if mark = ''### '' then map (\<lambda>m. lat ''### '' @ sm_title m) ms
      else map image_line (concat (map sm_captures ms)))"
proof (induction ms arbitrary: cur)
  case Nil
  then show ?case by simp
next
  case (Cons m ms)
  have "nl \<notin> set (sm_family m)" using Cons.prems(1) by (simp add: plain_scenario_def)
  note heading = marked_heading(1) [OF this Cons.prems(2)]
  show ?case
    using Cons.prems Cons.IH [of "Some (sm_family m)"] heading marked_scenario [of m mark]
    by (auto simp: marked_empty catalog_marks_def)
qed


section \<open>The catalog documents every scene once\<close>

definition plain_scene :: "'a MatrixSceneInput_scheme \<Rightarrow> bool" where
  "plain_scene s \<longleftrightarrow> plain_scenario (matrixSceneToMeta s)"

text \<open>
  Property C38. The rendered catalog of any list of scenes has one heading per group that has a
  scene, in the fixed order of the groups; one heading per scene, in an order that neither loses
  nor doubles a scene; and under them one image per capture. The texts must not hold lines that
  look like headings or images themselves.\<close>

theorem catalog_documents_scenes:
  assumes "plain_options options" "list_all plain_scene scenes"
    "text = renderCatalog (map matrixSceneToMeta (orderBestiaryScenes scenes)) options"
  shows "marked_lines ''## '' text
      = map ((@) (lat ''## '')) (filter (\<lambda>f. \<exists>s\<in>set scenes. scene_family s = f) CATALOG_FAMILIES)
    \<and> marked_lines ''### '' text = map (\<lambda>s. lat ''### '' @ sc_title s) (orderBestiaryScenes scenes)
    \<and> marked_lines ''![['' text = map image_line (concat (map (\<lambda>s. sm_captures (matrixSceneToMeta s)) (orderBestiaryScenes scenes)))
    \<and> mset (orderBestiaryScenes scenes) = mset scenes"
proof -
  let ?ms = "map matrixSceneToMeta (orderBestiaryScenes scenes)"
  have plain: "list_all plain_scenario ?ms"
    using assms(2) mset_eq_setD [OF mset_orderBestiaryScenes [of scenes]] by (auto simp: list_all_iff plain_scene_def)
  have lines: "marked_lines mark text = marks_of mark (scenarios_lines None ?ms)" if "mark \<in> set catalog_marks" for mark
    unfolding assms(3) renderCatalog_def
    by (subst marked_lines_join) (use marked_front [OF assms(1) that] in \<open>simp_all add: marks_of_def catalog_front_def\<close>)
  have fam: "sm_family (matrixSceneToMeta s) = scene_family s" "sm_title (matrixSceneToMeta s) = sc_title s"
    for s :: "'a MatrixSceneInput_scheme"
    by (simp_all add: matrixSceneToMeta_def)
  have families: "changes None (map sm_family ?ms) = filter (\<lambda>f. \<exists>s\<in>set scenes. scene_family s = f) CATALOG_FAMILIES"
    using changes_groups [OF distinct_CATALOG_FAMILIES, of None scene_family scenes]
    by (simp add: orderBestiaryScenes_groups map_concat comp_def fam)
  show ?thesis
    using lines marked_scenarios [OF plain] families mset_orderBestiaryScenes [of scenes]
    by (simp add: catalog_marks_def comp_def fam)
qed

definition example_scene :: "string \<Rightarrow> SceneAxis \<Rightarrow> bool \<Rightarrow> MatrixSceneInput" where
  "example_scene i a only = \<lparr>sc_id = i, sc_title = lat i, sc_axis = a, sc_description = lat ''about '' @ lat i,
     sc_closeups = (if only then Some [\<lparr>cu_slug = ''pane'', cu_description = Some (lat '' the pane''), cu_selector = ''.p''\<rparr>] else None),
     sc_bestiaryOnly = only\<rparr>"

lemma catalog_documents_scenes_witness:
  "marked_lines ''## '' (renderCatalog (map matrixSceneToMeta (orderBestiaryScenes
      [example_scene ''v'' axis_view False, example_scene ''x'' axis_data True, example_scene ''s'' axis_state False]))
      \<lparr>co_date = ''2026-01-02'', co_intro = Some (lat ''Intro.'')\<rparr>)
   = [lat ''## '' @ AXIS_FAMILY axis_state, lat ''## '' @ AXIS_FAMILY axis_view, lat ''## '' @ BESTIARY_ONLY_FAMILY]"
proof -
  let ?o = "\<lparr>co_date = ''2026-01-02'', co_intro = Some (lat ''Intro.'')\<rparr>"
  let ?s = "[example_scene ''v'' axis_view False, example_scene ''x'' axis_data True, example_scene ''s'' axis_state False]"
  have "plain_options ?o" by code_simp
  moreover have "list_all plain_scene ?s" by code_simp
  ultimately show ?thesis
    using catalog_documents_scenes [of ?o ?s]
    by (simp add: example_scene_def scene_family_def CATALOG_FAMILIES_def AXIS_ORDER_def del: AXIS_FAMILY.simps)
qed

text \<open>A file name does not determine scene and capture: hyphens occur in both.\<close>

lemma capture_files_can_collide:
  "captureFilename ''body'' ''json-view'' = captureFilename ''body-json'' ''view''"
  by (simp add: captureFilename_def)

text \<open>With slugs without hyphens it does.\<close>

lemma captureFilename_inject:
  assumes "CHR ''-'' \<notin> set a" "CHR ''-'' \<notin> set b"
  shows "captureFilename i a = captureFilename j b \<longleftrightarrow> i = j \<and> a = b"
proof
  assume "captureFilename i a = captureFilename j b"
  then have "rev a @ CHR ''-'' # rev i = rev b @ CHR ''-'' # rev j"
    by (simp add: captureFilename_def) (metis append.assoc append_Cons append_Nil rev.simps rev_append)
  then show "i = j \<and> a = b" using assms by (subst (asm) append_sep_inject) auto
qed simp

end
