(* ===== verification/Bestiary.thy ===== *)
theory Bestiary
  imports Script Catalog
begin

text \<open>
  The bestiary, \<open>scripts/take-bestiary.ts\<close>: the calls that shoot one scene, the main program with
  its two subcommands, and the catalog it writes. Which calls succeed is a parameter; the output
  directory, the upload tool and the console are left out.

  Shown: shooting a scene makes exactly the images its catalog entry names; and a run that ends
  with code 0 has shot every scene and written the catalog of all of them.
\<close>

section \<open>One scene\<close>

record Scene = MatrixSceneInput +
  sn_interact :: bool
  sn_busyTerminal :: bool

datatype shot_target = whole_page | first_of string

datatype page_call =
    pc_route string
  | pc_goto string
  | pc_wait_store
  | pc_wait_harness
  | pc_reset_store
  | pc_wait_theme
  | pc_set_theme string
  | pc_wait_dark
  | pc_apply_scene string
  | pc_interact string
  | pc_sleep nat
  | pc_wait_settled shot_target
  | pc_wait_busy shot_target
  | pc_screenshot shot_target string

definition UI_PORT :: nat where "UI_PORT = 6224"

definition setupPage :: "page_call list" where
  "setupPage =
     [pc_route ''**/info'', pc_route ''**/service/**'', pc_goto (''http://localhost:'' @ showNat UI_PORT @ ''/''),
      pc_wait_store, pc_wait_harness, pc_reset_store, pc_wait_theme, pc_set_theme ''dark'', pc_wait_dark]"

definition captureReady :: "shot_target \<Rightarrow> Scene \<Rightarrow> page_call" where
  "captureReady target scene = (if sn_busyTerminal scene then pc_wait_busy target else pc_wait_settled target)"

definition closeup_calls :: "Scene \<Rightarrow> SceneCloseup \<Rightarrow> page_call list" where
  "closeup_calls scene closeup =
     [captureReady (first_of (cu_selector closeup)) scene,
      pc_screenshot (first_of (cu_selector closeup)) (captureFilename (sc_id scene) (cu_slug closeup))]"

text \<open>The calls of \<open>runMatrixScene\<close>, in order, when none fails.\<close>

definition scene_calls :: "Scene \<Rightarrow> page_call list" where
  "scene_calls scene =
     setupPage @ [pc_apply_scene (sc_id scene)]
     @ (if sn_interact scene then [pc_interact (sc_id scene), pc_sleep 150] else [])
     @ [captureReady whole_page scene,
        pc_screenshot whole_page (cm_filename (hd (sm_captures (matrixSceneToMeta scene))))]
     @ concat (map (closeup_calls scene) (scene_closeups scene))"

definition runMatrixScene :: "(page_call \<Rightarrow> bool) \<Rightarrow> Scene \<Rightarrow> page_call list \<times> (page_call + ScenarioMeta)" where
  "runMatrixScene host scene =
     (let (made, failed) = call_all host (scene_calls scene)
      in (made, case failed of Some c \<Rightarrow> Inl c | None \<Rightarrow> Inr (matrixSceneToMeta scene)))"

section \<open>The main program\<close>

definition BESTIARY_INTRO :: "glyph list" where
  "BESTIARY_INTRO =
     lat ''Generated from the fixture matrix (`src/test/scenes.ts`) '' @ em_dash # lat '' one entry per ''
     @ lat ''scene, so a scene added to the matrix appears here automatically. The ''
     @ lat ''trailing bestiary-only section documents diagnostic-interest states that ''
     @ lat ''are covered by tests but kept out of the matrix. Every entry resets the ''
     @ lat ''store before it renders, so sections are independent of one another.''"

definition bestiary_catalog :: "Scene list \<Rightarrow> string \<Rightarrow> glyph list" where
  "bestiary_catalog scenes today =
     renderCatalog (map matrixSceneToMeta (orderBestiaryScenes scenes)) \<lparr>co_date = today, co_intro = Some BESTIARY_INTRO\<rparr>"

text \<open>A scene is one operation of the program: its calls are those of \<open>runMatrixScene\<close>.\<close>

definition scene_op :: "Scene \<Rightarrow> script_op" where
  "scene_op scene = so_await (''scene '' @ sc_id scene)"

definition runGenerate :: "Scene list \<Rightarrow> bool \<Rightarrow> script_op list" where
  "runGenerate scenes doUpload =
     [so_await ''mkdir'', so_spawn, so_await ''waitReady'', so_launch, so_await ''newContext'', so_await ''newPage'']
     @ map scene_op (orderBestiaryScenes scenes)
     @ [so_close_browser, so_await ''writeFile'']
     @ (if doUpload then [so_sync ''upload''] else [])"

definition subcommand :: "string list \<Rightarrow> string" where
  "subcommand args = (case find (\<lambda>a. \<not> startsWith a ''--'') args of None \<Rightarrow> ''generate'' | Some a \<Rightarrow> a)"

text \<open>The date of an upload: the argument, or the day of the run.\<close>

definition upload_date :: "string list \<Rightarrow> string \<Rightarrow> string" where
  "upload_date args today = (case find (\<lambda>a. startsWith a ''--date='') args of None \<Rightarrow> today | Some a \<Rightarrow> drop 7 a)"

definition bestiary_main :: "Scene list \<Rightarrow> string list \<Rightarrow> script_op list" where
  "bestiary_main scenes args =
     (if subcommand args = ''upload'' then [so_sync ''upload'']
      else if subcommand args = ''generate'' then runGenerate scenes (''--upload'' \<in> set args)
      else [so_exit 1])"

section \<open>Lemmas\<close>

fun screenshot_file :: "page_call \<Rightarrow> string list" where
  "screenshot_file (pc_screenshot t f) = [f]"
| "screenshot_file c = []"

lemma screenshot_ready [simp]: "screenshot_file (captureReady t scene) = []"
  by (simp add: captureReady_def)

lemma closeup_screenshots:
  "concat (map screenshot_file (concat (map (closeup_calls scene) cs))) = map (\<lambda>c. captureFilename (sc_id scene) (cu_slug c)) cs"
  by (induction cs) (simp_all add: closeup_calls_def)

text \<open>
  Shooting a scene, when it succeeds, gives the scene's catalog entry and makes exactly
  the images the entry names, in that order.\<close>

theorem scene_images_are_taken:
  assumes "runMatrixScene host scene = (made, Inr meta)"
  shows "meta = matrixSceneToMeta scene \<and> concat (map screenshot_file made) = map cm_filename (sm_captures meta)
    \<and> list_all host made"
proof -
  have meta: "meta = matrixSceneToMeta scene" and "call_all host (scene_calls scene) = (made, None)"
    using assms by (auto simp: runMatrixScene_def split: prod.splits option.splits)
  then have made: "made = scene_calls scene" "list_all host made" by (auto dest: call_all_ok)
  have "concat (map screenshot_file (scene_calls scene)) = map cm_filename (sm_captures (matrixSceneToMeta scene))"
    by (auto simp: scene_calls_def setupPage_def closeup_screenshots matrixSceneToMeta_def comp_def)
  then show ?thesis using meta made by simp
qed

definition example_shot :: Scene where
  "example_shot = \<lparr>sc_id = ''text'', sc_title = lat ''Text'', sc_axis = axis_data, sc_description = lat ''d'',
     sc_closeups = Some [\<lparr>cu_slug = ''pane'', cu_description = None, cu_selector = ''.p''\<rparr>], sc_bestiaryOnly = False,
     sn_interact = True, sn_busyTerminal = False\<rparr>"

lemma scene_images_are_taken_witness:
  "\<exists>made meta. runMatrixScene (\<lambda>c. True) example_shot = (made, Inr meta)
     \<and> concat (map screenshot_file made) = [''text-view.png'', ''text-pane.png'']"
proof -
  let ?r = "runMatrixScene (\<lambda>c. True) example_shot"
  have all: "call_all (\<lambda>c. True) cs = (cs, None)" for cs :: "page_call list" by (simp add: call_all_all list_all_iff)
  have r: "?r = (fst ?r, Inr (matrixSceneToMeta example_shot))" by (simp add: runMatrixScene_def all)
  moreover have "map cm_filename (sm_captures (matrixSceneToMeta example_shot)) = [''text-view.png'', ''text-pane.png'']"
    by (simp add: example_shot_def matrixSceneToMeta_def scene_closeups_def captureFilename_def)
  ultimately show ?thesis using scene_images_are_taken [OF r] by metis
qed

lemma generate_ok: "script_ok True (bestiary_main scenes args)"
proof -
  have "spawns_ok (map scene_op ss @ ops) = spawns_ok ops" for ss ops
    by (induction ss) (simp_all add: scene_op_def)
  then show ?thesis
    by (auto simp: bestiary_main_def runGenerate_def script_ok_def scene_op_def list_ex_iff)
qed

text \<open>A generation that ends with code 0 has shot every scene of the matrix.\<close>

lemma generate_exit_zero:
  assumes "script_runs True nm ls (script_start (bestiary_main scenes args)) r" "rn_exit r = Some 0"
    "subcommand args = ''generate''"
  shows "set (map scene_op scenes) \<subseteq> set (rn_completed r)"
proof -
  have "bestiary_main scenes args \<noteq> []" by (simp add: bestiary_main_def runGenerate_def)
  then have "rn_completed r = bestiary_main scenes args"
    by (rule exit_zero_complete(1) [OF assms(1,2) generate_ok])
  moreover have "set (orderBestiaryScenes scenes) = set scenes"
    using mset_orderBestiaryScenes [of scenes] by (rule mset_eq_setD)
  ultimately show ?thesis using assms(3) by (auto simp: bestiary_main_def runGenerate_def)
qed

text \<open>An unknown subcommand ends the process with code 1 and starts nothing.\<close>

lemma unknown_subcommand:
  "subcommand args \<notin> {''upload'', ''generate''} \<Longrightarrow>
   script_last True nm [l_ok] (script_start (bestiary_main scenes args)) = Some ((script_start [so_exit 1])\<lparr>rn_exit := Some 1\<rparr>)"
  by (auto simp: bestiary_main_def script_start_def script_next_def)

end
