(* ===== verification/Screenshots.thy ===== *)
theory Screenshots
  imports Script
begin

text \<open>
  The hero screenshots, \<open>scripts/take-screenshots.ts\<close>: the answers of the mock target server and the
  main program, which spawns the proxy and the development server, sends requests through the proxy
  and shoots three pages; and \<open>scripts/screenshot-helpers.ts\<close> as conditions on the busy regions.
  Paths, the example payloads and the console are left out.

  The mock server is created, which sets \<open>mockServer\<close>, and then awaited until it listens.

  Shown: both children are killed when the program ends by itself and no cleanup killed before the
  server listened; and in which ways a child is left behind; and the answers of the server on every
  request.
\<close>

section \<open>The mock target\<close>

definition mock_info :: string where
  "mock_info = ''{\"name\":\"protospy-dev\",\"cluster_name\":\"docker-cluster\",\"tagline\":\"You Know, for Search\"}''"

text \<open>The body of the answer; every answer has content type \<open>application/json\<close>.\<close>

definition mock_response :: "string \<Rightarrow> string \<Rightarrow> string \<Rightarrow> string \<Rightarrow> string \<Rightarrow> string" where
  "mock_response simpleResponseBody richResponseBody verb url body =
     (if verb = ''GET'' \<and> url = ''/'' then mock_info
      else if verb = ''POST'' \<and> url = ''/movies/_search''
      then (if trim body = ''{}'' then simpleResponseBody else richResponseBody)
      else ''{}'')"

section \<open>Waiting for the content\<close>

text \<open>The number of busy regions seen by each poll; \<open>True\<close> when a poll meets the condition.\<close>

definition waitForContentSettled :: "nat list \<Rightarrow> bool" where
  "waitForContentSettled busy_counts \<longleftrightarrow> list_ex (\<lambda>n. n = 0) busy_counts"

definition waitForBusyPresent :: "nat list \<Rightarrow> bool" where
  "waitForBusyPresent busy_counts \<longleftrightarrow> list_ex (\<lambda>n. n \<noteq> 0) busy_counts"

section \<open>The main program\<close>

definition MOCK_TARGET_PORT :: nat where "MOCK_TARGET_PORT = 6220"
definition PROTOSPY_WEB_PORT :: nat where "PROTOSPY_WEB_PORT = 6221"
definition PROXY_PORT :: nat where "PROXY_PORT = 6222"
definition UI_PORT :: nat where "UI_PORT = 6223"

text \<open>The environment of the proxy process.\<close>

definition proxy_env :: "(string \<times> string) list" where
  "proxy_env =
     [(''PROXY__ES__PORT'', showNat PROXY_PORT),
      (''PROXY__ES__TARGET'', ''http://localhost:'' @ showNat MOCK_TARGET_PORT @ ''/''),
      (''PROXY__ES__PROTOCOL'', ''Elasticsearch''),
      (''LISTEN_PORT'', showNat PROTOSPY_WEB_PORT),
      (''RUST_LOG'', ''warn'')]"

definition shot_ops :: "string \<Rightarrow> script_op list" where
  "shot_ops name = map so_await [''click'', ''tabpanel'', ''settled'', name]"

definition screenshots_main :: "script_op list" where
  "screenshots_main =
     map so_await [''mkdir'', ''readFile'', ''readFile'', ''readFile'']
     @ [so_create_server, so_listen, so_spawn, so_spawn, so_await ''waitReady'', so_launch]
     @ map so_await [''newContext'', ''newPage'', ''goto'', ''hydrated'', ''theme'', ''setTheme'', ''dark'', ''sleep'']
     @ replicate 2 (so_await ''GET /'') @ replicate 3 (so_await ''POST /movies/_search'')
     @ [so_await ''5 exchanges'', so_await ''01-exchange-list.png'']
     @ shot_ops ''02-inspector.png''
     @ [so_await ''POST /movies/_search'', so_await ''6 exchanges'']
     @ shot_ops ''03-body.png''
     @ [so_close_browser]"

section \<open>Lemmas\<close>

lemma screenshots_main_ok: "script_ok True screenshots_main"
  by (simp add: script_ok_def screenshots_main_def shot_ops_def late_spawn_def numeral_eq_Suc)

text \<open>Both children are killed, although the mock server is closed after the kill.\<close>

lemma screenshots_kill_children:
  "script_runs True nm ls (script_start screenshots_main) r \<Longrightarrow> rn_exit r = Some c \<Longrightarrow>
   list_all (\<lambda>l. \<not> abrupt l) ls \<Longrightarrow> \<not> kills_early True nm ls (script_start screenshots_main) \<Longrightarrow>
   set (rn_spawned r) \<subseteq> set (rn_killed r)"
  using children_run [OF _ _ _ children_start [OF screenshots_main_ok]]
  by (auto simp: keeps_children_def children_ok_def)

text \<open>
  The ways in which a child is left: a signal without a handler; a development server that cannot
  be started, whose \<open>error\<close> event ends the process while the proxy has only been asked to
  terminate; and a signal before the mock server listens, whose cleanup kills nothing and then waits
  for the server to close, while the program spawns both children.
\<close>

definition until_server :: "script_label list" where
  "until_server = replicate 5 l_ok"

lemmas leak_defs = until_server_def screenshots_main_def script_start_def script_next_def advance_def yields_def
  begin_cleanup_def finish_close_def finish_sleep_def fail_def forget_def Let_def numeral_eq_Suc

lemma hangup_leaves_children:
  "\<exists>r. script_last True nm (until_server @ [l_ok, l_ok, l_ok, l_killed 129]) (script_start screenshots_main) = Some r
     \<and> rn_spawned r = [0, 1] \<and> rn_killed r = [] \<and> rn_exit r = Some 129"
  by (simp add: leak_defs)

lemma unstarted_child_leaves_proxy:
  "\<exists>r. script_last True nm (until_server @ [l_ok, l_ok, l_unstarted, l_crash]) (script_start screenshots_main) = Some r
     \<and> rn_spawned r = [0] \<and> rn_terminated r = [0] \<and> rn_killed r = [] \<and> rn_exit r = Some 1"
  by (simp add: leak_defs)

lemma early_signal_leaves_children:
  "\<exists>r. script_last True nm (until_server @ [l_signal 130, l_slept [] 130, l_ok, l_ok, l_ok, l_stopped 130])
         (script_start screenshots_main) = Some r
     \<and> rn_spawned r = [0, 1] \<and> rn_killed r = [] \<and> rn_exit r = Some 130"
  by (simp add: leak_defs)

lemma mock_response_cases:
  "mock_response s r ''GET'' ''/'' body = mock_info"
  "trim body = ''{}'' \<Longrightarrow> mock_response s r ''POST'' ''/movies/_search'' body = s"
  "trim body \<noteq> ''{}'' \<Longrightarrow> mock_response s r ''POST'' ''/movies/_search'' body = r"
  "url \<noteq> ''/'' \<Longrightarrow> url \<noteq> ''/movies/_search'' \<Longrightarrow> mock_response s r verb url body = ''{}''"
  by (simp_all add: mock_response_def)

end
