(* ===== verification/Ratchet.thy ===== *)
theory Ratchet
  imports Number
begin

text \<open>
  The thresholds of the coverage ratchet, \<open>scripts/ratchet-coverage.ts\<close>: the margin of the command
  line and \<open>Math.max(0, Math.floor(pct - margin))\<close> over doubles. Running the tests, reading and
  writing the files are left out.
\<close>

text \<open>The words after the script; \<open>None\<close> for the exit with code 1.\<close>

fun word_after :: "string \<Rightarrow> string list \<Rightarrow> string option option" where
  "word_after w [] = None"
| "word_after w (x # xs) = (if x = w then Some (case xs of [] \<Rightarrow> None | y # _ \<Rightarrow> Some y) else word_after w xs)"

definition ratchet_margin :: "string list \<Rightarrow> js_num option" where
  "ratchet_margin argv =
     (let margin = (case word_after ''--margin'' argv of
          None \<Rightarrow> js_Fin 4
        | Some None \<Rightarrow> js_NaN
        | Some (Some s) \<Rightarrow> parseFloat s)
      in if margin = js_NaN \<or> num_less margin 0 then None else Some margin)"

text \<open>The difference of two doubles, and the greater of 0 and the floor.\<close>

fun num_minus :: "rat \<Rightarrow> js_num \<Rightarrow> js_num" where
  "num_minus x js_NaN = js_NaN"
| "num_minus x (js_Inf neg) = js_Inf (\<not> neg)"
| "num_minus x (js_Fin y) = to_double (x - y)"

fun floor_from_zero :: "js_num \<Rightarrow> js_num" where
  "floor_from_zero js_NaN = js_NaN"
| "floor_from_zero (js_Inf neg) = (if neg then js_Fin 0 else js_Inf False)"
| "floor_from_zero (js_Fin x) = js_Fin (of_int (max 0 \<lfloor>x\<rfloor>))"

definition threshold :: "js_num \<Rightarrow> rat \<Rightarrow> js_num" where
  "threshold margin pct = floor_from_zero (num_minus pct margin)"

record Thresholds =
  th_statements :: js_num
  th_branches :: js_num
  th_functions :: js_num
  th_lines :: js_num

definition newThresholds :: "js_num \<Rightarrow> rat \<times> rat \<times> rat \<times> rat \<Rightarrow> Thresholds" where
  "newThresholds margin summary =
     (case summary of (statements, branches, functions, ls) \<Rightarrow>
       \<lparr>th_statements = threshold margin statements, th_branches = threshold margin branches,
        th_functions = threshold margin functions, th_lines = threshold margin ls\<rparr>)"

text \<open>Without a margin it is 4; a margin that is missing, no number or negative ends the script.\<close>

lemma margin_cases:
  "''--margin'' \<notin> set argv \<Longrightarrow> ratchet_margin argv = Some (js_Fin 4)"
  "ratchet_margin [''--margin''] = None"
proof -
  have "''--margin'' \<notin> set argv \<Longrightarrow> word_after ''--margin'' argv = None" by (induction argv) auto
  then show "''--margin'' \<notin> set argv \<Longrightarrow> ratchet_margin argv = Some (js_Fin 4)"
    by (simp add: ratchet_margin_def)
qed (simp add: ratchet_margin_def)

text \<open>For whole percentages the threshold is the difference, and never negative.\<close>

lemma threshold_whole:
  "p < 2 ^ 53 \<Longrightarrow> m \<le> p \<Longrightarrow> threshold (js_Fin (of_nat m)) (of_nat p) = js_Fin (of_nat (p - m))"
  using to_double_nat [of "p - m"] by (simp add: threshold_def of_nat_diff)

lemma threshold_not_negative: "threshold margin pct = js_Fin t \<Longrightarrow> 0 \<le> t"
  unfolding threshold_def by (cases "num_minus pct margin") (auto split: if_splits)

end
