(* ===== verification/Harness.thy ===== *)
theory Harness
  imports Json_Parse Machine
begin

text \<open>
  The standalone page for the tree viewer, \<open>components/json-tree/harness.tsx\<close>: its fixtures, the
  custom text, typed or loaded from a file, the theme switch, and what it passes to the viewer. A
  chosen file arrives later, in any order. The text is parsed at every render, so in custom mode
  the viewer gets a new value each time the page renders; a fixture is the same value always. A
  parsed value is taken to be an object or an array; the identity of its reference is a number.

  Shown: the page shows the fixture or the parsed text, and when the viewer starts anew.
\<close>

section \<open>Custom input\<close>

datatype ParsedInput = pi_empty | pi_ok JsonValue | pi_error string

definition parseJsonInput :: "'a parse_platform_scheme \<Rightarrow> string \<Rightarrow> ParsedInput" where
  "parseJsonInput P txt =
     (if trim txt = [] then pi_empty
      else case json_parse P txt of None \<Rightarrow> pi_error (json_error P txt) | Some v \<Rightarrow> pi_ok v)"

section \<open>Fixtures\<close>

record Fixture =
  fx_id :: string
  fx_label :: string
  fx_value :: "JsonValue option"
  fx_documents :: "JsonValue list option"
  fx_truncated :: bool

abbreviation jnat :: "nat \<Rightarrow> JsonValue" where
  "jnat n \<equiv> JNumber (showNat n)"

abbreviation jtext :: "string \<Rightarrow> JsonValue" where
  "jtext s \<equiv> JString s"

text \<open>The doubles \<open>1 - i * 0.01\<close>, as the language prints them.\<close>

definition score_text :: "nat \<Rightarrow> string" where
  "score_text i = [''1'', ''0.99'', ''0.98'', ''0.97'', ''0.96'', ''0.95'', ''0.94'', ''0.9299999999999999'', ''0.92'', ''0.91''] ! i"

definition es_hit :: "nat \<Rightarrow> JsonValue" where
  "es_hit i = JObject
     [(''_index'', jtext ''products''), (''_id'', jtext (''prod-'' @ showNat i)), (''_score'', JNumber (score_text i)),
      (''_source'', JObject
        [(''name'', jtext (''Product '' @ showNat i)), (''price'', JNumber (showNat (19 + i) @ ''.99'')),
         (''in_stock'', JBool (i mod 2 = 0)),
         (''tags'', JArray [jtext ''sale'', jtext ''featured'', jtext (''cat-'' @ showNat (i mod 3))]),
         (''attributes'', JObject
           [(''color'', jtext (if i mod 2 = 0 then ''red'' else ''blue'')), (''weight_kg'', JNumber (showNat i @ ''.5''))])])]"

definition ES_RESPONSE :: JsonValue where
  "ES_RESPONSE = JObject
     [(''took'', jnat 5), (''timed_out'', JBool False),
      (''_shards'', JObject [(''total'', jnat 5), (''successful'', jnat 5), (''skipped'', jnat 0), (''failed'', jnat 0)]),
      (''hits'', JObject
        [(''total'', JObject [(''value'', jnat 1234), (''relation'', jtext ''eq'')]), (''max_score'', jnat 1),
         (''hits'', JArray (map es_hit [0..<10]))]),
      (''aggregations'', JObject
        [(''by_category'', JObject
          [(''buckets'', JArray (map (\<lambda>i. JObject [(''key'', jtext (''category-'' @ showNat i)), (''doc_count'', jnat (100 - i * 7))]) [0..<4]))])])]"

definition small_value :: JsonValue where
  "small_value = JObject
     [(''name'', jtext ''Alice''), (''age'', jnat 30), (''active'', JBool True), (''tags'', JArray [jtext ''admin'', jtext ''user''])]"

definition types_value :: JsonValue where
  "types_value = JObject
     [(''string'', jtext ''hello''), (''number'', jnat 42), (''float'', JNumber ''-3.14''), (''boolean'', JBool False),
      (''null_value'', JNull), (''empty_object'', JObject []), (''empty_array'', JArray [])]"

definition deep_value :: JsonValue where
  "deep_value = foldr (\<lambda>k v. JObject [(k, v)]) [''a'', ''b'', ''c'', ''d'', ''e'', ''f'', ''g'']
     (jtext ''a value buried deep inside a long horizontal nesting chain that overflows the viewport'')"

definition large_value :: JsonValue where
  "large_value = JObject
     [(''items'', JArray (map (\<lambda>i. JObject [(''id'', jnat i), (''value'', jtext (''item '' @ showNat i))]) [0..<250]))]"

definition ndjson_documents :: "JsonValue list" where
  "ndjson_documents =
     [JObject [(''id'', jnat 1), (''event'', jtext ''login''), (''user'', jtext ''alice'')],
      JObject [(''id'', jnat 2), (''event'', jtext ''view''), (''user'', jtext ''alice''), (''path'', jtext ''/dashboard'')],
      JObject [(''id'', jnat 3), (''event'', jtext ''click''), (''user'', jtext ''alice''), (''target'', jtext ''btn-export'')],
      JObject [(''id'', jnat 4), (''event'', jtext ''logout''), (''user'', jtext ''alice'')]]"

definition truncated_value :: JsonValue where
  "truncated_value = JObject
     [(''took'', jnat 5),
      (''hits'', JObject
        [(''total'', JObject [(''value'', jnat 3)]),
         (''hits'', JArray [JObject [(''_id'', jtext ''1''),
            (''_source'', JObject [(''name'', jtext ''alpha''), (''tags'', JArray [jtext ''a'', jtext ''b''])])]])])]"

definition value_fixture :: "string \<Rightarrow> string \<Rightarrow> JsonValue \<Rightarrow> Fixture" where
  "value_fixture i l v = \<lparr>fx_id = i, fx_label = l, fx_value = Some v, fx_documents = None, fx_truncated = False\<rparr>"

definition FIXTURES :: "Fixture list" where
  "FIXTURES =
     [value_fixture ''es'' ''ES response'' ES_RESPONSE,
      value_fixture ''small'' ''Small object'' small_value,
      value_fixture ''types'' ''All types'' types_value,
      value_fixture ''deep'' ''Deeply nested'' deep_value,
      value_fixture ''large-array'' ''Large array'' large_value,
      \<lparr>fx_id = ''ndjson'', fx_label = ''NDJSON'', fx_value = None, fx_documents = Some ndjson_documents, fx_truncated = False\<rparr>,
      (value_fixture ''truncated'' ''Truncated'' truncated_value)\<lparr>fx_truncated := True\<rparr>]"

definition CUSTOM_ID :: string where
  "CUSTOM_ID = ''custom''"

section \<open>State and events\<close>

record HarnessState =
  hn_source :: string
  hn_text :: string
  hn_file :: "string option"
  hn_dark :: bool
  hn_page_dark :: bool
  hn_loading :: "(string \<times> string) list"
  hn_renders :: nat

definition harness_mount :: "bool \<Rightarrow> HarnessState" where
  "harness_mount page_dark =
     \<lparr>hn_source = fx_id (hd FIXTURES), hn_text = [], hn_file = None, hn_dark = page_dark, hn_page_dark = page_dark,
      hn_loading = [], hn_renders = 0\<rparr>"

text \<open>A chosen file has a name and a text, which is read when \<open>file_read\<close> of its place happens.\<close>

datatype HarnessEvent =
  choose_source string | toggle_theme | choose_file string string | file_read nat | type_text string | clear_text

definition rendered :: "HarnessState \<Rightarrow> HarnessState" where
  "rendered s = s\<lparr>hn_renders := hn_renders s + 1\<rparr>"

fun harness_step :: "HarnessEvent \<Rightarrow> HarnessState \<Rightarrow> HarnessState" where
  "harness_step (choose_source v) s = (if v = [] then s else rendered (s\<lparr>hn_source := v\<rparr>))"
| "harness_step toggle_theme s = rendered (s\<lparr>hn_dark := \<not> hn_dark s, hn_page_dark := \<not> hn_dark s\<rparr>)"
| "harness_step (choose_file name txt) s = s\<lparr>hn_loading := hn_loading s @ [(name, txt)]\<rparr>"
| "harness_step (file_read k) s =
     (if k < length (hn_loading s)
      then (case hn_loading s ! k of (name, txt) \<Rightarrow>
        rendered (s\<lparr>hn_text := txt, hn_file := Some name, hn_source := CUSTOM_ID, hn_loading := splice1 k (hn_loading s)\<rparr>))
      else s)"
| "harness_step (type_text txt) s = rendered (s\<lparr>hn_text := txt, hn_file := None\<rparr>)"
| "harness_step clear_text s = rendered (s\<lparr>hn_text := [], hn_file := None\<rparr>)"

section \<open>What is shown\<close>

definition isCustom :: "HarnessState \<Rightarrow> bool" where
  "isCustom s \<longleftrightarrow> hn_source s = CUSTOM_ID"

definition harness_fixture :: "HarnessState \<Rightarrow> Fixture" where
  "harness_fixture s = (case find (\<lambda>f. fx_id f = hn_source s) FIXTURES of Some f \<Rightarrow> f | None \<Rightarrow> hd FIXTURES)"

definition harness_parsed :: "'a parse_platform_scheme \<Rightarrow> HarnessState \<Rightarrow> ParsedInput" where
  "harness_parsed P s = (if isCustom s then parseJsonInput P (hn_text s) else pi_empty)"

text \<open>The place of a fixture is the identity of its value; a value parsed at a render is a new one.\<close>

definition fixture_input :: "HarnessState \<Rightarrow> nat" where
  "fixture_input s = (case findIndex (\<lambda>f. fx_id f = hn_source s) FIXTURES of Some i \<Rightarrow> i | None \<Rightarrow> 0)"

definition viewer_props :: "nat \<Rightarrow> JsonValue \<Rightarrow> JsonValue list option \<Rightarrow> bool \<Rightarrow> ViewerProps" where
  "viewer_props input v docs trunc = \<lparr>vp_input = input, vp_value = v, vp_documents = docs, vp_initialRows = None,
     vp_initialExpanded = None, vp_truncated = trunc\<rparr>"

definition harness_viewer :: "'a parse_platform_scheme \<Rightarrow> HarnessState \<Rightarrow> ViewerProps option" where
  "harness_viewer P s =
     (if isCustom s
      then (case harness_parsed P s of
          pi_ok v \<Rightarrow> Some (viewer_props (length FIXTURES + hn_renders s) v None False)
        | _ \<Rightarrow> None)
      else let f = harness_fixture s
           in (case fx_documents f of
               Some docs \<Rightarrow> Some (viewer_props (fixture_input s) JNull (Some docs) False)
             | None \<Rightarrow> Some (viewer_props (fixture_input s) (case fx_value f of Some v \<Rightarrow> v | None \<Rightarrow> JNull) None (fx_truncated f))))"

definition source_items :: "HarnessEvent dom list" where
  "source_items =
     map (\<lambda>f. El ''ToggleGroupItem'' [(''value'', lat (fx_id f)), (''data-testid'', lat (''fixture-'' @ fx_id f))]
            [(''select'', choose_source (fx_id f))] [Txt (lat (fx_label f))]) FIXTURES
     @ [El ''ToggleGroupItem'' [(''value'', lat CUSTOM_ID), (''data-testid'', lat ''source-custom'')]
          [(''select'', choose_source CUSTOM_ID)] [Txt (lat ''Custom'')]]"

definition custom_controls :: "ParsedInput \<Rightarrow> HarnessState \<Rightarrow> HarnessEvent dom" where
  "custom_controls parsed s = El ''div'' [] []
     ([El ''div'' [] []
         ([El ''Input'' [(''type'', lat ''file''), (''aria-label'', lat ''Load a JSON file''), (''data-testid'', lat ''custom-file'')] [] []]
          @ (case hn_file s of None \<Rightarrow> [] | Some name \<Rightarrow> child_if (name \<noteq> []) [El ''span'' [] [] [Txt (lat name)]])
          @ [El ''Button'' ((''data-testid'', lat ''custom-clear'') # attr_if (hn_text s = []) ''disabled'' (lat ''true''))
               [(''click'', clear_text)] [Txt (lat ''Clear'')]]),
       El ''Textarea'' [(''value'', lat (hn_text s)), (''aria-label'', lat ''Paste JSON to preview''),
           (''data-testid'', lat ''custom-input''),
           (''aria-invalid'', bool_text (case parsed of pi_error m \<Rightarrow> True | _ \<Rightarrow> False))] [] []]
      @ (case parsed of
           pi_error m \<Rightarrow> [El ''p'' [(''data-testid'', lat ''custom-error'')] [] [Txt (lat (''Invalid JSON: '' @ m))]]
         | _ \<Rightarrow> []))"

text \<open>The page, with the viewer as an element; the viewer's own tree is in theory Json_Viewer.\<close>

definition JsonTreeHarness :: "'a parse_platform_scheme \<Rightarrow> HarnessState \<Rightarrow> HarnessEvent dom" where
  "JsonTreeHarness P s =
     El ''div'' [] []
       ([El ''div'' [] []
           [El ''ToggleGroup'' [(''value'', lat (hn_source s))] [] source_items,
            El ''Button'' [(''data-testid'', lat ''toggle-theme'')] [(''click'', toggle_theme)]
              [Txt (lat ((if hn_dark s then ''Light'' else ''Dark'') @ '' theme''))]]]
        @ child_if (isCustom s) [custom_controls (harness_parsed P s) s]
        @ [El ''div'' [(''data-testid'', lat ''json-tree-harness-viewport'')] []
             (case harness_viewer P s of
                Some p \<Rightarrow> [El ''JsonTreeViewer'' [] [] []]
              | None \<Rightarrow> [El ''p'' [] [] [Txt (lat (if harness_parsed P s = pi_empty
                  then ''Paste JSON or load a file above to preview it.'' else ''Fix the JSON above to preview it.''))]])])"

section \<open>Lemmas\<close>

text \<open>A text that is not blank is accepted exactly when the parser of the app accepts it.\<close>

lemma parseJsonInput_parseAndFormat:
  "trim txt \<noteq> [] \<Longrightarrow> (case parseAndFormat P txt of
      Inl e \<Rightarrow> parseJsonInput P txt = pi_error e
    | Inr r \<Rightarrow> parseJsonInput P txt = pi_ok (pr_parsed r))"
  by (simp add: parseJsonInput_def parseAndFormat_def split: option.split)

lemma fixture_ids_distinct: "distinct (CUSTOM_ID # map fx_id FIXTURES)"
  by (simp add: FIXTURES_def CUSTOM_ID_def value_fixture_def)

text \<open>The button of the page and the page agree about the theme.\<close>

interpretation harness_theme: started_machine harness_step "\<lambda>s. hn_dark s = hn_page_dark s" "harness_mount b" for b
proof unfold_locales
  show "hn_dark (harness_step e s) = hn_page_dark (harness_step e s)" if "hn_dark s = hn_page_dark s" for e s
    using that by (cases "(e, s)" rule: harness_step.cases) (auto simp: rendered_def split: prod.split)
qed (simp add: harness_mount_def)

text \<open>
  Switching the theme leaves an expanded tree of a fixture alone, but in custom mode
  the text is parsed again, so the viewer gets a new value and starts anew: what was expanded is
  lost.\<close>

theorem theme_switch_resets_custom_tree:
  assumes "harness_viewer P s = Some p" "harness_viewer P (harness_step toggle_theme s) = Some q"
    "jv_prevInput v = vp_input p"
  shows "if isCustom s
    then vp_value q = vp_value p \<and> viewer_rerender q v \<noteq> v
      \<and> jv_expanded (viewer_rerender q v) = jv_expanded (viewer_mount q) \<and> jv_limits (viewer_rerender q v) = Map.empty
    else q = p \<and> viewer_rerender q v = v"
proof (cases "isCustom s")
  case True
  have props: "vp_input p = length FIXTURES + hn_renders s" "vp_input q = length FIXTURES + (hn_renders s + 1)"
    "vp_value q = vp_value p" "vp_initialRows q = None" "vp_initialExpanded q = None"
    using assms(1,2) True
    by (auto simp: harness_viewer_def harness_parsed_def isCustom_def rendered_def viewer_props_def split: ParsedInput.splits)
  then have "vp_input q \<noteq> jv_prevInput v" using assms(3) by simp
  moreover have "jv_prevInput (viewer_rerender q v) = vp_input q"
    using calculation by (simp add: viewer_rerender_def Let_def props)
  moreover have "jv_limits (viewer_mount q) = Map.empty" by (simp add: viewer_mount_def Let_def)
  ultimately show ?thesis
    using True props new_body_resets_viewer [of q v] by (auto simp: Let_def)
next
  case False
  have "harness_viewer P (harness_step toggle_theme s) = harness_viewer P s"
    using False
    by (simp add: harness_viewer_def isCustom_def rendered_def harness_fixture_def fixture_input_def Let_def
        split: option.split)
  then show ?thesis using assms False by (simp add: viewer_rerender_def)
qed

end
