(* ===== verification/Widgets.thy ===== *)
theory Widgets
  imports Utils Dom
begin

text \<open>
  The parts of the component library \<open>components/ui\<close> that decide something: the sizes and borders of
  toggle groups (\<open>toggle-group.tsx\<close>, \<open>toggle.tsx\<close>), the tooltip that is left out without content
  (\<open>simple-tooltip.tsx\<close>), the empty state and the method badge. Here the class names are what is
  decided, so they are kept: \<open>cn\<close>, a parameter, merges a list of them (clsx and tailwind-merge,
  which are packages), and \<open>cva\<close> of class-variance-authority is spelled out as its lookup of the
  variants with their defaults. Elements of packages are named. Further props are left out.

  Shown: what size an item of a toggle group has.
\<close>

section \<open>Toggles\<close>

datatype ToggleVariant = tv_default | tv_segmented
datatype ToggleSize = ts_default | ts_sm | ts_lg | ts_icon_xs | ts_icon_chrome

fun toggle_size_name :: "ToggleSize \<Rightarrow> string" where
  "toggle_size_name ts_default = ''default''"
| "toggle_size_name ts_sm = ''sm''"
| "toggle_size_name ts_lg = ''lg''"
| "toggle_size_name ts_icon_xs = ''icon-xs''"
| "toggle_size_name ts_icon_chrome = ''icon-chrome''"

definition toggle_base :: string where
  "toggle_base = ''inline-flex items-center justify-center rounded text-sm font-medium whitespace-nowrap transition-colors outline-none focus-visible:ring-2 focus-visible:ring-ring disabled:pointer-events-none disabled:opacity-50 [&_svg]:pointer-events-none [&_svg]:shrink-0''"

fun toggle_variant_class :: "ToggleVariant \<Rightarrow> string" where
  "toggle_variant_class tv_default = ''bg-transparent text-muted-foreground hover:bg-hover hover:text-foreground aria-pressed:bg-primary/10 aria-pressed:text-primary''"
| "toggle_variant_class tv_segmented = ''bg-transparent text-muted-foreground hover:text-foreground data-[state=on]:bg-card data-[state=on]:text-foreground data-[state=on]:shadow-xs dark:data-[state=on]:shadow-sm''"

fun toggle_size_class :: "ToggleSize \<Rightarrow> string" where
  "toggle_size_class ts_default = ''h-9 min-w-9 px-2''"
| "toggle_size_class ts_sm = ''h-[27px] min-w-[27px] px-0''"
| "toggle_size_class ts_lg = ''h-10 min-w-10 px-2.5''"
| "toggle_size_class ts_icon_xs = ''size-6 rounded-md [&_svg:not([class*='' @ [CHR 0x27] @ ''size-'' @ [CHR 0x27] @ ''])]:size-3''"
| "toggle_size_class ts_icon_chrome = ''size-7 rounded-md [&_svg:not([class*='' @ [CHR 0x27] @ ''size-'' @ [CHR 0x27] @ ''])]:size-4''"

text \<open>The class parts in their order; an absent variant or size is the default, an absent class nothing.\<close>

definition toggleVariants :: "ToggleVariant option \<Rightarrow> ToggleSize option \<Rightarrow> string option \<Rightarrow> string" where
  "toggleVariants variant psize className =
     join '' '' ([toggle_base,
       toggle_variant_class (case variant of None \<Rightarrow> tv_default | Some v \<Rightarrow> v),
       toggle_size_class (case psize of None \<Rightarrow> ts_default | Some s \<Rightarrow> s)]
       @ (case className of None \<Rightarrow> [] | Some c \<Rightarrow> if c = [] then [] else [c]))"

definition Toggle :: "(string list \<Rightarrow> string) \<Rightarrow> ToggleVariant option \<Rightarrow> ToggleSize option \<Rightarrow> string option \<Rightarrow> 'h dom list \<Rightarrow> 'h dom" where
  "Toggle cn variant psize className children =
     El ''Toggle.Root'' [(''data-slot'', lat ''toggle''), (''class'', lat (cn [toggleVariants variant psize className]))] [] children"

section \<open>Toggle groups\<close>

text \<open>The context of a group holds its size, \<open>undefined\<close> when it has none; outside a group it is the default size.\<close>

type_synonym ToggleContext = "ToggleSize option"

definition outside_group :: ToggleContext where
  "outside_group = Some ts_default"

text \<open>\<open>context.size || size\<close>; no size is an empty text.\<close>

definition item_size :: "ToggleContext \<Rightarrow> ToggleSize option \<Rightarrow> ToggleSize option" where
  "item_size ctx psize = (case ctx of Some s \<Rightarrow> Some s | None \<Rightarrow> psize)"

definition size_attr :: "ToggleSize option \<Rightarrow> (string \<times> glyph list) list" where
  "size_attr psize = (case psize of None \<Rightarrow> [] | Some s \<Rightarrow> [(''data-size'', lat (toggle_size_name s))])"

definition ToggleGroupItem ::
    "(string list \<Rightarrow> string) \<Rightarrow> ToggleSize option \<Rightarrow> string option \<Rightarrow> 'h dom list \<Rightarrow> ToggleContext \<Rightarrow> 'h dom" where
  "ToggleGroupItem cn psize className children ctx =
     (let sz = item_size ctx psize
      in El ''ToggleGroup.Item''
           ((''data-slot'', lat ''toggle-group-item'') # size_attr sz
            @ [(''class'', lat (cn ([toggleVariants (Some tv_segmented) sz None, ''rounded-none border-0 focus:z-10 focus-visible:z-10'']
                @ (case className of None \<Rightarrow> [] | Some c \<Rightarrow> [c]))))]) [] children)"

definition group_bordered :: "ToggleSize option \<Rightarrow> bool option \<Rightarrow> bool" where
  "group_bordered psize bordered = (if psize = Some ts_sm then bordered \<noteq> Some False else bordered = Some True)"

text \<open>The children of a group get its context.\<close>

definition ToggleGroup ::
    "(string list \<Rightarrow> string) \<Rightarrow> ToggleSize option \<Rightarrow> bool option \<Rightarrow> string option \<Rightarrow> (ToggleContext \<Rightarrow> 'h dom) list \<Rightarrow> 'h dom" where
  "ToggleGroup cn psize bordered className children =
     El ''ToggleGroup.Root''
       ((''data-slot'', lat ''toggle-group'') # size_attr psize
        @ [(''class'', lat (cn ([''group/toggle-group flex w-fit items-center rounded-md bg-secondary'']
            @ (if group_bordered psize bordered then [''border border-border''] else [])
            @ (case className of None \<Rightarrow> [] | Some c \<Rightarrow> [c]))))])
       [] (map (\<lambda>child. child psize) children)"

section \<open>Tooltip, empty state, method badge\<close>

text \<open>\<open>None\<close> is a content that is falsy.\<close>

definition SimpleTooltip :: "'h dom list option \<Rightarrow> 'h dom \<Rightarrow> string option \<Rightarrow> 'h dom" where
  "SimpleTooltip content child side =
     (case content of
        None \<Rightarrow> child
      | Some c \<Rightarrow> El ''Tooltip'' [] []
          [El ''TooltipTrigger'' [] [] [child],
           El ''TooltipContent'' ((case side of None \<Rightarrow> [] | Some s \<Rightarrow> [(''side'', lat s)])
             @ [(''class'', lat ''max-w-[500px] break-all'')]) [] c])"

definition EMPTY_STATE_BASE :: string where
  "EMPTY_STATE_BASE = ''text-muted-foreground font-sans uppercase tracking-widest''"

definition emptyStateText :: "(string list \<Rightarrow> string) \<Rightarrow> string" where
  "emptyStateText cn = cn [EMPTY_STATE_BASE, ''text-xs'']"

datatype TextSize = text_xs | text_sm

definition EmptyState :: "(string list \<Rightarrow> string) \<Rightarrow> TextSize option \<Rightarrow> 'h dom list \<Rightarrow> 'h dom" where
  "EmptyState cn textSize children =
     El ''div'' [(''class'', lat ''flex items-center justify-center h-full'')] []
       [El ''span'' [(''class'', lat (cn [EMPTY_STATE_BASE,
            if (case textSize of None \<Rightarrow> text_xs | Some t \<Rightarrow> t) = text_xs then ''text-xs'' else ''text-ui'']))] [] children]"

datatype BadgeSize = badge_sm | badge_md

definition MethodBadge :: "(string list \<Rightarrow> string) \<Rightarrow> string \<Rightarrow> BadgeSize option \<Rightarrow> 'h dom" where
  "MethodBadge cn rmethod psize =
     (let (textSize, padding, minWidth) =
            (if (case psize of None \<Rightarrow> badge_sm | Some s \<Rightarrow> s) = badge_sm
             then (''text-xs'', ''px-[6px] py-[2px]'', ''min-w-[44px]'')
             else (''text-[12px]'', ''px-2 py-[3px]'', ''min-w-[56px]''))
      in El ''span'' [(''data-testid'', lat ''method-badge''),
           (''class'', lat (cn [''font-mono font-semibold tracking-[0.04em] rounded-[3px] inline-flex items-center justify-center shrink-0'',
             textSize, padding, minWidth, methodBadgeClass rmethod]))] [] [Txt (lat rmethod)])"

section \<open>Lemmas\<close>

text \<open>
  In a group with a size all items have that size; in a group without one each has its own; an item
  outside every group has the default size whatever it asks for.
\<close>

lemma item_sizes:
  "item_size (Some s) own = Some s" "item_size None own = own" "item_size outside_group own = Some ts_default"
  by (simp_all add: item_size_def outside_group_def)

lemma group_items_have_size:
  "x \<in> set (dom_elements (ToggleGroup cn (Some s) b c (map (\<lambda>(own, cl). ToggleGroupItem cn own cl []) items))) \<Longrightarrow>
   dom_attr ''data-size'' x = Some (lat (toggle_size_name s))"
  by (auto simp: ToggleGroup_def ToggleGroupItem_def size_attr_def item_size_def Let_def)

text \<open>A small group has a border unless it is asked not to; another one only when it is asked to.\<close>

lemma group_bordered_default:
  "group_bordered psize None \<longleftrightarrow> psize = Some ts_sm" "group_bordered psize (Some b) = b"
  by (simp_all add: group_bordered_def)

end
