(* ===== verification/Spec2Isabelle.thy ===== *)
theory Spec2Isabelle
  imports Shell_Keys Pipeline App Capture_Run Bestiary Screenshots Ratchet Harness Widgets
begin

text \<open>
  A verification library for the protospy user interface (\<open>src/ui/src\<close>, with the message types of
  \<open>src/bindings\<close>). protospy is a proxy that reports the HTTP exchanges it sees as a stream of
  messages; the user interface folds them into a store and shows them. The proxy itself (Rust,
  \<open>src/src\<close>) is outside this library: its messages are the input.

  \<^bold>\<open>The parts and how they interact.\<close> \<open>api/sse.ts\<close> receives messages and the shell hands them to
  the store (\<open>state/store.ts\<close>), whose action \<open>applyEvent\<close> runs the reducer (\<open>state/reducer.ts\<close>) and
  its eviction. Bodies of event streams go through an incremental parser (\<open>body/sse-stream.ts\<close>) as
  they arrive; other bodies keep their chunks until a pane decodes them (\<open>body/decode.ts\<close>), with the
  help of two Workers for JSON and markup. The decoded body is shown by a viewer chosen by the view
  mode, an event stream by a stream pane, a chat stream also as a transcript. The list side shows
  the exchanges the selectors let through, as rows, as a table or grouped by trace, and the shell
  binds keys, panels and the subscription together.

  \<^bold>\<open>Theories.\<close> Base: Prelude (JavaScript's string and list operations, the generic lemmas, the
  collections \<open>str_simps\<close> and \<open>list_facts\<close>), Dom (what a component renders, as a tree with its
  handlers), Wire (the bindings, JSON values, the platform parameters).
  Interfaces, as locales: Stream_Parser (a bounded stream parser: feeding in pieces is feeding at
  once, retention can be deferred), Bounded_Store (ingest and evict with a protected entry),
  Worker_Client (jobs of a Worker, settled once), Codec (a printer and its parser, with the lossless
  codecs as an extension), Machine (laws of one event lifted to runs). They are interpreted on the
  code's model in Sse, Reducer, Store, Json_Parse, Markup, Chunk, Download, Text_Views, Stream_Views,
  Capture and Harness.
  Data: Sse, Chunk, Exchange_Types, Reducer, Store, Connection, View_Modes, Format, Utils.
  Bodies: Decode, Json_Model, Json_Expand, Json_Flatten (the tree and its rows), Json_Text,
  Json_Rows, Json_Viewer (the viewer as a state machine), Json_Parse, Markup (the Workers and their
  clients), Text_Views (hex, text, markup), Download, Body_Pane (the decode hook, the pane, the split).
  Streams: Transcript, Stream_Views.
  List and frame: Exchange_View, Trace, Chrome, Palette, Exchange_Table, Headers_Pane, Inspector,
  Shell, Shell_Keys, App, Widgets (the parts of \<open>components/ui\<close> that decide something), Harness (the
  page for trying the tree viewer).
  Tooling (\<open>src/ui/scripts\<close>): Number (doubles and reading them from text), Capture (command line, plan
  and pool of the scene capture), Script (the process life cycle of the browser scripts, as a step
  relation with signals and cleanup), Capture_Run (one cell, and the main program), Catalog and
  Bestiary (the screenshot catalog), Screenshots (the hero screenshots), Ratchet (coverage
  thresholds).
  Across components: Pipeline (what a run of the store says about one response body) and this theory.

  \<^bold>\<open>How the model corresponds to the code.\<close> A definition has the name of the function it models; a
  TypeScript interface is a record, a union a datatype, an optional field an \<open>option\<close>, a \<open>Map\<close> a
  partial function, an \<open>ids\<close> array a list. A function that throws returns \<open>None\<close> or an error value.
  Hooks and components are state machines: a record of their state and refs, a function per callback,
  effect and cleanup, and, where events interleave, an inductive set of reachable states. Rendering
  is a function to \<open>dom\<close>; layout classes are left out, classes computed from state are kept. Numbers
  that the code keeps to 32 bits are \<open>32 word\<close>, bytes are \<open>8 word\<close>, other numbers are natural numbers,
  integers or rationals; a rational stands for a double where the code only divides or rounds to a
  fixed number of digits. Strings are lists of code units below 256 (theory Prelude), with \<open>glyph\<close>
  for the display strings that contain others.

  \<^bold>\<open>Parameters.\<close> Code outside the repository is an argument: \<open>JSON.parse\<close>, \<open>TextDecoder\<close>, the
  decompressors, best-effort-json-parser, the markup formatters and Prism, the MIME registry, Date
  parsing and time-zone offsets, the virtualizer (the list of the items it shows and their offsets),
  the table sorter. No law about them is assumed, except as a named hypothesis of a theorem.

  \<^bold>\<open>What the lemmas show.\<close> Store and reducer: every reachable store is well-formed and within both
  caps, eviction is minimal and spares the selection, a message changes only its exchange, exactly
  which messages throw. Streams: chunking does not matter, the incremental and the batch parser
  agree, printing and parsing are inverse, the newest events are kept. Bodies: decoding fails exactly
  when it must; tree ids, paths, rows and default expansion; the lazy viewer refines the one
  whose tree is built at once, on the Worker's rows; Worker jobs are settled once, with their own answer; hex, markup and
  rows determine what they show. Panes: a result is shown only for its body; a paused stream stays as
  it was, a following one at its end while rows have one height; the transcript is what its events say. Frame: lanes of traces
  are optimal, keys reach every request, the only open event source is that of the selected
  service, credentials stay masked. Tooling: a script that ends by itself leaves no child process
  behind, up to the exceptions theory Script names and theory Screenshots shows to happen; code 0
  means that all was captured, the catalog lists every scene once, settings survive the command line.
  Across components (below): the bytes a pane decodes and the events a stream pane shows are those
  the messages delivered, whatever else happened in between.
  Some theorems state defects; the manifest lists them as findings.

  \<^bold>\<open>Recursion and bounds.\<close> Every recursive definition is structural or has a termination proof by a
  measure; no fuel is used. The caps are those of the code: 1024 exchanges, 512 MiB of payload,
  10,000 events, windows of 100 children, a byte budget for expanded documents. The steps of a script
  process are an inductive relation, with the function that computes them beside it.

  \<^bold>\<open>Not modelled.\<close> \<open>cn\<close> (class merging by third-party packages) and \<open>formatTime\<close> (locale formatting by
  the host), \<open>parseQueryParams\<close> (the host's \<open>URLSearchParams\<close>, no caller); the styled wrappers under
  \<open>components/ui\<close> that only add classes to third-party components; the lazy loading of WASM modules;
  timings; drag resizing of panels and column sorting, which third-party components own; paths and
  console output of the scripts; fixtures and tests; the build configuration. The Rust proxy is not
  in TypeScript and is left to its own development.
\<close>

section \<open>Properties across components\<close>

text \<open>
  Property C7. From messages to a decoded body, through reducer, store and decoder: the bytes the
  body pane decodes for the selected exchange are the concatenated bytes of the response chunks in
  arrival order, decompressed, however their messages are interleaved with messages of other
  exchanges, errors, evictions, decode results and user actions.
\<close>

theorem delivered_body_is_decoded:
  assumes "store_reachable P s" "st_selectedId s = Some i" "response_of s i = Some b" "list_all (quiet i) as"
    and "bs_sseState b = None" "bs_chunks b = []" "response_data i as = ds @ [d]"
    and "chunksToBytes (data_payloads (ds @ [d])) = Some arrays"
    and "content_bytes E (bs_contentEncoding b) (concat arrays) = Some bytes"
  shows "\<exists>x body r. selectSelected (store_run P as s) = Some x \<and> ex_responseBody x = Some body
    \<and> bs_atEnd body = bd_at_end d \<and> decodeBody E body = Some r
    \<and> dr_bytes r = bytes \<and> dr_wireBytes r = bd_total_bytes d"
proof -
  obtain x body where x: "selectSelected (store_run P as s) = Some x" "ex_responseBody x = Some body"
    and core: "body_core body = feed_body P (body_core b) (ds @ [d])"
    using run_response_obtain [OF assms(1-4)] assms(7) by metis
  have fed: "feed_body P (body_core b) (ds @ [d]) = (body_core b)\<lparr>bs_chunks := data_payloads (ds @ [d]),
      bs_atEnd := bd_at_end d, bs_wireBytes := bd_total_bytes d\<rparr>"
    using feed_body_plain [of "body_core b" P ds d] assms(5,6) by simp
  from body_core_eqD [OF core [unfolded fed]]
  have body: "bs_chunks body = data_payloads (ds @ [d])" "bs_atEnd body = bd_at_end d"
    "bs_wireBytes body = bd_total_bytes d" "bs_contentEncoding body = bs_contentEncoding b"
    by simp_all
  have "chunksToBytes (bs_chunks body) = Some arrays"
    "content_bytes E (bs_contentEncoding body) (concat arrays) = Some bytes"
    using body(1,4) assms(8,9) by simp_all
  from decode_content [OF this] show ?thesis using x body by auto
qed

theorem delivered_body_is_decoded_witness:
  "\<exists>x body r. selectSelected (store_run no_platform [act_applyEvent (sample_data ''ab'' False 2), act_setFilter ''x'',
        act_applyEvent (sample_data ''c'' True 3)] (sample_store ''text/plain'')) = Some x
    \<and> ex_responseBody x = Some body \<and> decodeBody plain_env body = Some r \<and> dr_bytes r = [97, 98, 99]"
proof -
  let ?as = "[act_applyEvent (sample_data ''ab'' False 2), act_setFilter ''x'', act_applyEvent (sample_data ''c'' True 3)]"
  let ?d = "\<lambda>t e n. \<lparr>bd_content = Some \<lparr>bc_offset = 0, bc_length = 1, bc_payload = ChunkText t\<rparr>,
     bd_trailers = None, bd_at_end = e, bd_total_bytes = n\<rparr>"
  let ?b = "empty_body\<lparr>bs_contentType := Some ''text/plain''\<rparr>"
  have b: "response_of (sample_store ''text/plain'') 4 = Some ?b" "bs_sseState ?b = None" "bs_chunks ?b = []"
    by (simp_all add: sample_store_response isSSEContentType_def startsWith_def char_eval empty_body_def)
  have quiet: "list_all (quiet 4) ?as"
    by (simp add: quiet_def selects_def sample_data_def sample_message_def)
  have data: "response_data 4 ?as = [?d ''ab'' False 2] @ [?d ''c'' True 3]"
    by (simp add: sample_data_def sample_message_def)
  have arrays: "chunksToBytes (data_payloads ([?d ''ab'' False 2] @ [?d ''c'' True 3])) = Some [[97, 98], [99]]"
    by (simp add: data_payloads_def TextEncoder_encode_def utf8_char_def octet_def charCode_def)
  have bytes: "content_bytes plain_env (bs_contentEncoding ?b) (concat [[97, 98], [99]]) = Some [97, 98, 99]"
    by (simp add: content_bytes_def empty_body_def known_encoding_def)
  from delivered_body_is_decoded [OF sample_store_reachable sample_store_selected b(1) quiet b(2,3) data arrays bytes]
  show ?thesis by blast
qed

text \<open>
  Property C8. From messages to the stream pane: a response whose content type is an event stream
  goes to a stream pane, and the pane, unless it is paused, shows exactly the newest events of the
  whole text received, whatever its chunking and whatever else happened to the store.
\<close>

theorem delivered_stream_is_shown:
  assumes "store_reachable P s" "st_selectedId s = Some i" "response_of s i = Some b" "list_all (quiet i) as"
    and "bs_sseState b = Some createSSEStreamState" "isSSEContentType (bs_contentType b)"
    and "data_texts P (response_data i as) = Some chunk_texts" "vw_frozen v = None" "protocol \<noteq> Some Anthropic"
  shows "\<exists>x. selectSelected (store_run P as s) = Some x
    \<and> sp_response (body_split getExtension (store_run P as s) x protocol) = rp_stream
    \<and> shownEvents (stream_step (se_exchange x h) v) =
        ss_events (applyRetention MAX_SSE_EVENTS (feedChunk P createSSEStreamState (concat chunk_texts)))"
proof -
  obtain x body where x: "selectSelected (store_run P as s) = Some x" "ex_responseBody x = Some body"
    and core: "body_core body = feed_body P (body_core b) (response_data i as)"
    using run_response_obtain [OF assms(1-4)] .
  have "bs_sseState (body_core b) = Some createSSEStreamState" using assms(5) by simp
  from feed_body_stream [OF this assms(7)] body_core_eqD [OF core]
  have stream: "bs_sseState body =
      Some (applyRetention MAX_SSE_EVENTS (feedChunk P createSSEStreamState (concat chunk_texts)))" by simp
  have "bs_contentType body = bs_contentType b"
    using body_core_eqD [OF core] feed_body_fields [of P "body_core b" "response_data i as"] by simp
  then have "split_isSSE x" using assms(6) x(2)
    by (auto simp: split_isSSE_def isSSEContentType_def split: option.splits)
  then have "sp_response (body_split getExtension (store_run P as s) x protocol) = rp_stream"
    using assms(9) by (simp add: body_split_def Let_def)
  moreover have "shownEvents (stream_step (se_exchange x h) v) = stream_events x"
    using assms(8) by (simp add: shownEvents_def Let_def)
  ultimately show ?thesis using x stream by (simp add: stream_events_def)
qed

theorem delivered_stream_is_shown_witness:
  "\<exists>x. selectSelected (store_run no_platform [act_applyEvent (sample_data ''data'' False 4), act_toggleTraceGroup,
        act_applyEvent (sample_data ('':a'' @ [newline, newline]) True 8)] (sample_store ''text/event-stream'')) = Some x
    \<and> map ev_data (shownEvents (stream_step (se_exchange x 0) (stream_mount x small_box))) = [''a'']"
proof -
  let ?as = "[act_applyEvent (sample_data ''data'' False 4), act_toggleTraceGroup,
    act_applyEvent (sample_data ('':a'' @ [newline, newline]) True 8)]"
  let ?b = "empty_body\<lparr>bs_contentType := Some ''text/event-stream'', bs_sseState := Some createSSEStreamState\<rparr>"
  have sse: "isSSEContentType (Some ''text/event-stream'')"
    by (simp add: isSSEContentType_def startsWith_def char_eval)
  have b: "response_of (sample_store ''text/event-stream'') 4 = Some ?b" "bs_sseState ?b = Some createSSEStreamState"
    "isSSEContentType (bs_contentType ?b)"
    using sse by (simp_all add: sample_store_response)
  have quiet: "list_all (quiet 4) ?as"
    by (simp add: quiet_def selects_def sample_data_def sample_message_def)
  have chunks: "data_texts no_platform (response_data 4 ?as) = Some [''data'', '':a'' @ [newline, newline]]"
    by (simp add: sample_data_def sample_message_def)
  have unpaused: "vw_frozen (stream_mount x small_box) = None" for x by (simp add: stream_mount_def)
  note shown = delivered_stream_is_shown [OF sample_store_reachable sample_store_selected b(1) quiet b(2,3) chunks]
  have "map ev_data (ss_events (applyRetention MAX_SSE_EVENTS
      (feedChunk no_platform createSSEStreamState (concat [''data'', '':a'' @ [newline, newline]])))) = [''a'']"
    by code_simp
  moreover obtain x where "selectSelected (store_run no_platform ?as (sample_store ''text/event-stream'')) = Some x"
    using shown [OF unpaused, where protocol = None] by blast
  ultimately show ?thesis using shown [OF unpaused [of x], where protocol = None and h = 0] by auto
qed

end
